(* ===== verification/Go_Prelude.thy ===== *)
theory Go_Prelude
  imports Complex_Main "HOL-Library.Finite_Map" "HOL-Library.Char_ord" "HOL-Library.List_Lexorder"
begin

text \<open>
  What the components share: Go maps as finite maps, the order in which a Go map is ranged over as
  an explicit list of its keys, the table that makes room before it inserts, and runs of a
  component over a list of calls.
\<close>

named_theorems go_map "facts on finite maps used as Go maps"
named_theorems go_inv "preservation of component invariants"

subsection \<open>Maps\<close>

text \<open>\<open>len(m)\<close> of a Go map.\<close>

definition gm_len :: "('k, 'v) fmap \<Rightarrow> nat" where
  "gm_len m = fcard (fmdom m)"

text \<open>
  Ranging over a Go map visits every key once, in an order the language leaves open. An operation
  of the model that ranges over a map and whose result depends on the order takes the order as an
  argument: a list \<open>ks\<close> with \<open>enumerates ks m\<close>.
\<close>

definition enumerates :: "'k list \<Rightarrow> ('k, 'v) fmap \<Rightarrow> bool" where
  "enumerates ks m \<longleftrightarrow> distinct ks \<and> fset_of_list ks = fmdom m"

lemma enumerates_set:
  assumes "enumerates ks m"
  shows "set ks = fmdom' m"
proof -
  have "fmdom m = fset_of_list ks" using assms by (simp add: enumerates_def)
  then show ?thesis by (simp only: fmdom'_alt_def fset_of_list.rep_eq)
qed

lemma enumerates_length:
  assumes "enumerates ks m"
  shows "length ks = gm_len m"
proof -
  have "fmdom m = fset_of_list ks" using assms by (simp add: enumerates_def)
  then have "gm_len m = card (set ks)"
    by (simp only: gm_len_def fcard.rep_eq fset_of_list.rep_eq)
  then show ?thesis using assms by (simp add: enumerates_def distinct_card)
qed

lemma enumerates_iff: "enumerates ks m \<longleftrightarrow> distinct ks \<and> (\<forall>k. k \<in> set ks \<longleftrightarrow> fmlookup m k \<noteq> None)"
proof -
  have "fset_of_list ks = fmdom m \<longleftrightarrow> fset (fset_of_list ks) = fset (fmdom m)" by (simp only: fset_inject)
  also have "\<dots> \<longleftrightarrow> set ks = fmdom' m" by (simp only: fset_of_list.rep_eq fmdom'_alt_def)
  also have "\<dots> \<longleftrightarrow> (\<forall>k. k \<in> set ks \<longleftrightarrow> fmlookup m k \<noteq> None)"
  proof -
    have "k \<in> fmdom' m \<longleftrightarrow> fmlookup m k \<noteq> None" for k
      by (cases "fmlookup m k") (simp_all add: fmdom'I fmdom'_notI)
    then show ?thesis by (simp only: set_eq_iff)
  qed
  finally show ?thesis by (simp only: enumerates_def)
qed

lemma enumerates_exists: "\<exists>ks. enumerates ks m"
proof -
  from finite_distinct_list [OF finite_fset [of "fmdom m"]]
  obtain ks where "set ks = fset (fmdom m)" "distinct ks" by (elim exE conjE)
  then have "fset (fset_of_list ks) = fset (fmdom m)" by (simp only: fset_of_list.rep_eq)
  then have "fset_of_list ks = fmdom m" by (simp only: fset_inject)
  then show ?thesis using \<open>distinct ks\<close> by (auto simp: enumerates_def)
qed

lemma fmdom_eq_empty [simp]: "fmdom m = {||} \<longleftrightarrow> m = fmempty"
proof
  assume *: "fmdom m = {||}"
  show "m = fmempty"
  proof (rule fmap_ext)
    fix x
    have "x |\<notin>| fmdom m" by (simp add: *)
    then show "fmlookup m x = fmlookup fmempty x" by (simp add: fmdom_notD)
  qed
qed simp

lemma enumerates_Nil [simp]: "enumerates [] m \<longleftrightarrow> m = fmempty"
  by (auto simp: enumerates_def dest: sym)

lemma enumerates_one [simp]: "enumerates [k] (fmupd k v fmempty)"
  by (simp add: enumerates_def)

lemma gm_len_empty [simp]: "gm_len fmempty = 0"
  by (simp add: gm_len_def)

lemma gm_len_0 [simp]: "gm_len m = 0 \<longleftrightarrow> m = fmempty"
  by (simp add: gm_len_def)

lemma fmdrop_fmupd_self [simp]: "fmdrop k (fmupd k v m) = fmdrop k m"
  by (rule fmap_ext) simp

lemma gm_len_upd [go_map]: "gm_len (fmupd k v m) = (if fmlookup m k = None then Suc (gm_len m) else gm_len m)"
proof (cases "fmlookup m k")
  case None
  then have "k |\<notin>| fmdom m" by (rule fmdom_notI)
  then show ?thesis using None by (simp add: gm_len_def fcard_finsert_disjoint)
next
  case (Some a)
  then have "k |\<in>| fmdom m" by (rule fmdomI)
  then show ?thesis using Some by (simp add: gm_len_def finsert_absorb)
qed

lemma gm_len_drop [go_map]: "gm_len (fmdrop k m) = (if fmlookup m k = None then gm_len m else gm_len m - 1)"
proof (cases "fmlookup m k")
  case None
  then have "k |\<notin>| fmdom m" by (rule fmdom_notI)
  then show ?thesis using None by (simp add: fmdrop_idle)
next
  case (Some a)
  then have "k |\<in>| fmdom m" by (rule fmdomI)
  then have "fcard (fmdom m |-| {|k|}) = fcard (fmdom m) - 1"
    by (simp add: fcard.rep_eq card_Diff_singleton)
  then show ?thesis using Some by (simp add: gm_len_def)
qed

lemma gm_len_map [simp]: "gm_len (fmmap f m) = gm_len m"
  by (simp add: gm_len_def)

lemma gm_len_mono: "fmdom m |\<subseteq>| fmdom n \<Longrightarrow> gm_len m \<le> gm_len n"
  by (simp add: gm_len_def fcard_mono)

lemma gm_len_filter: "gm_len (fmfilter P m) \<le> gm_len m"
  by (rule gm_len_mono) auto

lemma gm_len_pos: "fmlookup m k = Some v \<Longrightarrow> 0 < gm_len m"
  by (metis fmempty_lookup gm_len_0 gr0I option.distinct(1))

subsection \<open>Machine integers\<close>

text \<open>Arithmetic on int64 wraps around; \<open>i64\<close> brings a result back into the range.\<close>

definition i64 :: "int \<Rightarrow> int" where
  "i64 n = (n + 2 ^ 63) mod 2 ^ 64 - 2 ^ 63"

lemma i64_id [simp]: "- (2 ^ 63) \<le> n \<Longrightarrow> n < 2 ^ 63 \<Longrightarrow> i64 n = n"
  by (simp add: i64_def)

lemma i64_range: "- (2 ^ 63) \<le> i64 n \<and> i64 n < 2 ^ 63"
  by (simp add: i64_def)

lemma i64_add: "i64 (i64 a + b) = i64 (a + b)"
proof -
  have "i64 a + b + 2 ^ 63 = (a + 2 ^ 63) mod 2 ^ 64 + b" by (simp add: i64_def)
  then have "i64 (i64 a + b) = (a + 2 ^ 63 + b) mod 2 ^ 64 - 2 ^ 63"
    unfolding i64_def [of "i64 a + b"] by (simp only: mod_add_left_eq)
  then show ?thesis by (simp add: i64_def ac_simps)
qed

subsection \<open>Tables that make room before they insert\<close>

text \<open>
  The ban table and the per-IP bucket table share one policy: a key that is present keeps its
  entry; for a new key the table, when it holds \<open>cap\<close> entries or more, evicts first. What the
  clients of \<open>evictLocked\<close> rely on: it only deletes, it deletes one entry at most, and it deletes
  one whenever there is one to delete. The empty string is the code's mark for "no victim", so the
  last law is stated for tables without the empty key.
\<close>

locale evicting =
  fixes evict :: "string list \<Rightarrow> int \<Rightarrow> (string, 'v) fmap \<Rightarrow> (string, 'v) fmap"
  assumes evict_lookup: "fmlookup (evict ks now m) k = Some v \<Longrightarrow> fmlookup m k = Some v"
    and evict_at_most_one: "gm_len m \<le> Suc (gm_len (evict ks now m))"
    and evict_some: "enumerates ks m \<Longrightarrow> m \<noteq> fmempty \<Longrightarrow> fmlookup m [] = None \<Longrightarrow>
      gm_len (evict ks now m) < gm_len m"
begin

definition room :: "int \<Rightarrow> string list \<Rightarrow> int \<Rightarrow> string \<Rightarrow> (string, 'v) fmap \<Rightarrow> (string, 'v) fmap" where
  "room cap ks now k m =
     (if fmlookup m k = None \<and> cap \<le> int (gm_len m) then evict ks now m else m)"

lemma evict_dom: "fmdom (evict ks now m) |\<subseteq>| fmdom m"
proof (rule fsubsetI)
  fix x
  assume "x |\<in>| fmdom (evict ks now m)"
  then obtain v where "fmlookup (evict ks now m) x = Some v" by (rule fmdomE)
  then have "fmlookup m x = Some v" by (rule evict_lookup)
  then show "x |\<in>| fmdom m" by (rule fmdomI)
qed

lemma evict_len: "gm_len (evict ks now m) \<le> gm_len m"
  by (intro gm_len_mono evict_dom)

lemma room_lookup: "fmlookup (room cap ks now k m) j = Some v \<Longrightarrow> fmlookup m j = Some v"
  by (auto simp: room_def dest: evict_lookup split: if_splits)

lemma room_self: "fmlookup (room cap ks now k m) k = fmlookup m k"
  using evict_lookup [of ks now m k] by (cases "fmlookup (evict ks now m) k") (auto simp: room_def)

lemma room_insert_bound:
  assumes "enumerates ks m" and "fmlookup m [] = None" and "1 \<le> bound" and "cap \<le> bound"
    and "int (gm_len m) \<le> bound"
  shows "int (gm_len (fmupd k v (room cap ks now k m))) \<le> bound"
proof (cases "fmlookup m k = None \<and> cap \<le> int (gm_len m) \<and> m \<noteq> fmempty")
  case True
  then have "gm_len (evict ks now m) < gm_len m" using assms(1,2) evict_some by blast
  then show ?thesis using True assms(5) by (auto simp: room_def gm_len_upd)
next
  case False
  moreover have "evict ks now fmempty = fmempty"
    using evict_len [of ks now fmempty] by simp
  ultimately show ?thesis using assms(3-5) by (auto simp: room_def gm_len_upd)
qed

lemma room_insert_grows_by_one: "gm_len (fmupd k v (room cap ks now k m)) \<le> Suc (gm_len m)"
  using evict_len [of ks now m] by (auto simp: room_def gm_len_upd)

end

subsection \<open>Runs\<close>

text \<open>
  A component serves a sequence of calls, each under its mutex. \<open>go_run step cs s\<close> is the state
  after the calls \<open>cs\<close>; \<open>legal s c\<close> states what the environment guarantees of a call (the order of a
  range is an enumeration of the map, the clock does not go backwards, ...).
\<close>

fun go_run :: "('c \<Rightarrow> 's \<Rightarrow> 's) \<Rightarrow> 'c list \<Rightarrow> 's \<Rightarrow> 's" where
  "go_run step [] s = s"
| "go_run step (c # cs) s = go_run step cs (step c s)"

fun legal_run :: "('s \<Rightarrow> 'c \<Rightarrow> bool) \<Rightarrow> ('c \<Rightarrow> 's \<Rightarrow> 's) \<Rightarrow> 'c list \<Rightarrow> 's \<Rightarrow> bool" where
  "legal_run legal step [] s = True"
| "legal_run legal step (c # cs) s = (legal s c \<and> legal_run legal step cs (step c s))"

lemma go_run_append: "go_run step (xs @ ys) s = go_run step ys (go_run step xs s)"
  by (induction xs arbitrary: s) auto

lemma legal_run_append:
  "legal_run legal step (xs @ ys) s \<longleftrightarrow>
   legal_run legal step xs s \<and> legal_run legal step ys (go_run step xs s)"
  by (induction xs arbitrary: s) auto

locale invariant =
  fixes step :: "'c \<Rightarrow> 's \<Rightarrow> 's" and legal :: "'s \<Rightarrow> 'c \<Rightarrow> bool" and inv :: "'s \<Rightarrow> bool"
  assumes step_keeps: "inv s \<Longrightarrow> legal s c \<Longrightarrow> inv (step c s)"
begin

lemma run_keeps: "inv s \<Longrightarrow> legal_run legal step cs s \<Longrightarrow> inv (go_run step cs s)"
  by (induction cs arbitrary: s) (auto intro: step_keeps)

lemma run_prefix_keeps:
  "inv s \<Longrightarrow> legal_run legal step (cs @ ds) s \<Longrightarrow> inv (go_run step cs s)"
  by (auto simp: legal_run_append intro: run_keeps)

end

end
