(* ===== verification/Go_Strings.thy ===== *)
theory Go_Strings
  imports Go_Prelude
begin

text \<open>
  The functions of \<open>strings\<close>, \<open>strconv\<close> and \<open>encoding/hex\<close> the program uses. A Go string is a
  sequence of bytes, so a \<open>string\<close> here is a list of 8-bit characters. \<open>TrimSpace\<close>, \<open>ToLower\<close> and
  \<open>ToUpper\<close> are given on ASCII: bytes of multi-byte UTF-8 sequences are left as they are.
\<close>

abbreviation byte_of :: "char \<Rightarrow> nat" where "byte_of c \<equiv> of_char c"

definition is_space :: "char \<Rightarrow> bool" where
  "is_space c \<longleftrightarrow> c = CHR '' '' \<or> (9 \<le> byte_of c \<and> byte_of c \<le> 13)"

definition trim_left :: "string \<Rightarrow> string" where
  "trim_left s = dropWhile is_space s"

definition trim_space :: "string \<Rightarrow> string" where
  "trim_space s = rev (trim_left (rev (trim_left s)))"

definition lower_char :: "char \<Rightarrow> char" where
  "lower_char c = (if 65 \<le> byte_of c \<and> byte_of c \<le> 90 then char_of (byte_of c + 32) else c)"

definition upper_char :: "char \<Rightarrow> char" where
  "upper_char c = (if 97 \<le> byte_of c \<and> byte_of c \<le> 122 then char_of (byte_of c - 32) else c)"

definition to_lower :: "string \<Rightarrow> string" where "to_lower s = map lower_char s"
definition to_upper :: "string \<Rightarrow> string" where "to_upper s = map upper_char s"

definition has_prefix :: "string \<Rightarrow> string \<Rightarrow> bool" where
  "has_prefix s p \<longleftrightarrow> take (length p) s = p"

definition has_suffix :: "string \<Rightarrow> string \<Rightarrow> bool" where
  "has_suffix s p \<longleftrightarrow> has_prefix (rev s) (rev p)"

fun contains :: "string \<Rightarrow> string \<Rightarrow> bool" where
  "contains [] sub = (sub = [])"
| "contains (c # cs) sub = (has_prefix (c # cs) sub \<or> contains cs sub)"

text \<open>\<open>strings.IndexByte\<close> and \<open>LastIndexByte\<close>; \<open>None\<close> is Go's \<open>-1\<close>.\<close>

fun index_byte :: "string \<Rightarrow> char \<Rightarrow> nat option" where
  "index_byte [] c = None"
| "index_byte (x # xs) c = (if x = c then Some 0 else map_option Suc (index_byte xs c))"

definition last_index_byte :: "string \<Rightarrow> char \<Rightarrow> nat option" where
  "last_index_byte s c = map_option (\<lambda>i. length s - Suc i) (index_byte (rev s) c)"

text \<open>\<open>strings.Split(s, c)\<close> for a one-byte separator: never the empty list.\<close>

fun split_on :: "char \<Rightarrow> string \<Rightarrow> string list" where
  "split_on c [] = [[]]"
| "split_on c (x # xs) =
     (if x = c then [] # split_on c xs
      else (case split_on c xs of [] \<Rightarrow> [[x]] | y # ys \<Rightarrow> (x # y) # ys))"

fun join :: "string \<Rightarrow> string list \<Rightarrow> string" where
  "join sep [] = []"
| "join sep [x] = x"
| "join sep (x # y # ys) = x @ sep @ join sep (y # ys)"

text \<open>\<open>strings.Cut(s, c)\<close>; \<open>None\<close> when the separator is absent.\<close>

definition cut :: "char \<Rightarrow> string \<Rightarrow> (string \<times> string) option" where
  "cut c s = (case index_byte s c of None \<Rightarrow> None | Some i \<Rightarrow> Some (take i s, drop (Suc i) s))"

text \<open>\<open>strings.TrimRight(s, c)\<close> for a one-byte cutset.\<close>

definition trim_right :: "char \<Rightarrow> string \<Rightarrow> string" where
  "trim_right c s = rev (dropWhile (\<lambda>x. x = c) (rev s))"

subsection \<open>Decimal numbers\<close>

definition is_digit :: "char \<Rightarrow> bool" where
  "is_digit c \<longleftrightarrow> 48 \<le> byte_of c \<and> byte_of c \<le> 57"

definition digit_char :: "int \<Rightarrow> char" where "digit_char d = char_of (48 + d)"
definition digit_val :: "char \<Rightarrow> int" where "digit_val c = of_char c - 48"

function itoa_pos :: "int \<Rightarrow> string" where
  "itoa_pos n = (if n < 10 then [digit_char n] else itoa_pos (n div 10) @ [digit_char (n mod 10)])"
  by pat_completeness auto
termination
  by (relation "measure nat") auto

declare itoa_pos.simps [simp del]

text \<open>\<open>strconv.Itoa\<close> and \<open>strconv.FormatInt(n, 10)\<close>.\<close>

definition itoa :: "int \<Rightarrow> string" where
  "itoa n = (if n < 0 then CHR ''-'' # itoa_pos (- n) else itoa_pos n)"

definition digits_val :: "string \<Rightarrow> int" where
  "digits_val s = foldl (\<lambda>n c. n * 10 + digit_val c) 0 s"

text \<open>
  \<open>strconv.ParseInt(s, 10, 64)\<close>, and \<open>strconv.Atoi\<close> where \<open>int\<close> has 64 bits: an optional sign, at
  least one digit, only digits, and a value of int64. \<open>None\<close> is an error.
\<close>

definition parse_int :: "string \<Rightarrow> int option" where
  "parse_int s =
     (let neg = (case s of [] \<Rightarrow> False | c # _ \<Rightarrow> c = CHR ''-'');
          ds = (case s of [] \<Rightarrow> [] | c # cs \<Rightarrow> if c = CHR ''-'' \<or> c = CHR ''+'' then cs else s);
          n = digits_val ds
      in if ds = [] \<or> \<not> list_all is_digit ds then None
         else if neg then (if n \<le> 2 ^ 63 then Some (- n) else None)
         else (if n < 2 ^ 63 then Some n else None))"

subsection \<open>Hexadecimal\<close>

definition hex_digit :: "nat \<Rightarrow> char" where
  "hex_digit d = (if d < 10 then char_of (48 + d) else char_of (87 + d))"

text \<open>\<open>hex.EncodeToString\<close> on bytes given as numbers below 256.\<close>

definition hex_encode :: "nat list \<Rightarrow> string" where
  "hex_encode bs = concat (map (\<lambda>b. [hex_digit (b div 16), hex_digit (b mod 16)]) bs)"

subsection \<open>Facts\<close>

lemma has_prefix_append [simp]: "has_prefix (p @ s) p"
  by (simp add: has_prefix_def)

lemma has_prefix_iff: "has_prefix s p \<longleftrightarrow> (\<exists>t. s = p @ t)"
  by (metis append_take_drop_id has_prefix_append has_prefix_def)

lemma contains_iff: "contains s sub \<longleftrightarrow> (\<exists>a b. s = a @ sub @ b)"
proof (induction s)
  case (Cons c cs)
  have "(\<exists>a b. c # cs = a @ sub @ b) \<longleftrightarrow> (\<exists>b. c # cs = sub @ b) \<or> (\<exists>a b. cs = a @ sub @ b)"
    by (metis append_Cons append_Nil neq_Nil_conv list.inject)
  then show ?case using Cons by (simp add: has_prefix_iff)
qed simp

lemma index_byte_None_iff: "index_byte s c = None \<longleftrightarrow> c \<notin> set s"
  by (induction s) auto

lemma index_byte_append: "c \<notin> set a \<Longrightarrow> index_byte (a @ c # b) c = Some (length a)"
  by (induction a) auto

lemma cut_append: "c \<notin> set a \<Longrightarrow> cut c (a @ c # b) = Some (a, b)"
  by (simp add: cut_def index_byte_append)

lemma cut_Some: "cut c v = Some (a, b) \<Longrightarrow> v = a @ c # b \<and> c \<notin> set a"
proof (induction v arbitrary: a)
  case (Cons x xs)
  show ?case
  proof (cases "x = c")
    case False
    then obtain i where "index_byte xs c = Some i" using Cons.prems by (auto simp: cut_def split: option.splits)
    then show ?thesis using Cons False by (auto simp: cut_def)
  qed (use Cons.prems in \<open>simp add: cut_def\<close>)
qed (simp add: cut_def)

lemma split_on_ne [simp]: "split_on c s \<noteq> []"
  by (cases s) (auto split: list.splits)

lemma split_on_absent: "c \<notin> set s \<Longrightarrow> split_on c s = [s]"
  by (induction s) auto

lemma split_on_append: "c \<notin> set a \<Longrightarrow> split_on c (a @ c # s) = a # split_on c s"
  by (induction a) auto

text \<open>Splitting on a separator undoes joining with it, when no part contains it.\<close>

lemma split_on_join: "xs \<noteq> [] \<Longrightarrow> \<forall>x \<in> set xs. c \<notin> set x \<Longrightarrow> split_on c (join [c] xs) = xs"
  by (induction "[c]" xs rule: join.induct) (auto simp: split_on_absent split_on_append)

lemma split_on_no_sep: "x \<in> set (split_on c s) \<Longrightarrow> c \<notin> set x"
  by (induction s arbitrary: x) (auto split: if_splits list.splits)

lemma lower_char_idem [simp]: "lower_char (lower_char c) = lower_char c"
  by (auto simp: lower_char_def)

lemma to_lower_idem [simp]: "to_lower (to_lower s) = to_lower s"
  by (simp add: to_lower_def)

lemma upper_char_idem [simp]: "upper_char (upper_char c) = upper_char c"
  by (auto simp: upper_char_def)

lemma to_upper_idem [simp]: "to_upper (to_upper s) = to_upper s"
  by (simp add: to_upper_def)

lemma to_lower_append [simp]: "to_lower (a @ b) = to_lower a @ to_lower b"
  by (simp add: to_lower_def)

lemma byte_of_digit_char: "0 \<le> d \<Longrightarrow> d < 10 \<Longrightarrow> (of_char (digit_char d) :: int) = 48 + d"
  by (simp add: digit_char_def)

lemma digit_char_is_digit [simp]: "0 \<le> d \<Longrightarrow> d < 10 \<Longrightarrow> is_digit (digit_char d)"
proof -
  assume d: "0 \<le> d" "d < 10"
  have "int (byte_of (digit_char d)) = of_char (digit_char d)" by (rule of_nat_of_char)
  then have "int (byte_of (digit_char d)) = 48 + d" by (simp only: byte_of_digit_char [OF d])
  then show ?thesis using d by (simp add: is_digit_def)
qed

lemma digit_val_digit_char [simp]: "0 \<le> d \<Longrightarrow> d < 10 \<Longrightarrow> digit_val (digit_char d) = d"
  by (simp add: digit_val_def byte_of_digit_char)

lemma itoa_pos_digits: "0 \<le> n \<Longrightarrow> list_all is_digit (itoa_pos n)"
proof (induction n rule: itoa_pos.induct)
  case (1 n)
  then show ?case by (subst itoa_pos.simps) auto
qed

lemma itoa_pos_ne [simp]: "itoa_pos n \<noteq> []"
  by (subst itoa_pos.simps) simp

lemma digits_val_itoa_pos [simp]: "0 \<le> n \<Longrightarrow> digits_val (itoa_pos n) = n"
proof (induction n rule: itoa_pos.induct)
  case (1 n)
  then show ?case by (subst itoa_pos.simps) (auto simp: digits_val_def)
qed

lemma is_digit_not_sign: "is_digit c \<Longrightarrow> c \<noteq> CHR ''-'' \<and> c \<noteq> CHR ''+'' \<and> c \<noteq> CHR ''.'' \<and> c \<noteq> CHR ''|''"
  by (auto simp: is_digit_def)

lemma itoa_pos_chars: "0 \<le> n \<Longrightarrow> c \<in> set (itoa_pos n) \<Longrightarrow> is_digit c"
  using itoa_pos_digits [of n] by (simp add: list_all_iff)

text \<open>Parsing undoes formatting.\<close>

lemma parse_int_itoa:
  assumes "- (2 ^ 63) \<le> n" "n < 2 ^ 63"
  shows "parse_int (itoa n) = Some n"
proof (cases "n < 0")
  case True
  then show ?thesis using assms itoa_pos_digits [of "- n"] by (simp add: itoa_def parse_int_def)
next
  case False
  then have n: "0 \<le> n" by simp
  obtain c cs where c: "itoa_pos n = c # cs" by (cases "itoa_pos n") auto
  have "c \<noteq> CHR ''-''" "c \<noteq> CHR ''+''"
    using itoa_pos_chars [OF n, of c] c is_digit_not_sign by auto
  moreover have "list_all is_digit (c # cs)" "digits_val (c # cs) = n"
    using itoa_pos_digits [OF n] digits_val_itoa_pos [OF n] unfolding c by simp_all
  ultimately show ?thesis using False assms by (simp add: itoa_def parse_int_def c)
qed

lemma not_digit: "\<not> is_digit (CHR ''.'')" "\<not> is_digit (CHR ''|'')"
  by (simp_all add: is_digit_def)

lemma itoa_no_dot: "CHR ''.'' \<notin> set (itoa n)" and itoa_no_bar: "CHR ''|'' \<notin> set (itoa n)"
  using not_digit itoa_pos_chars [of n "CHR ''.''"] itoa_pos_chars [of n "CHR ''|''"]
    itoa_pos_chars [of "- n" "CHR ''.''"] itoa_pos_chars [of "- n" "CHR ''|''"]
  by (auto simp: itoa_def)

lemma byte_of_hex_digit: "d < 16 \<Longrightarrow> byte_of (hex_digit d) = (if d < 10 then 48 + d else 87 + d)"
  by (simp add: hex_digit_def)

lemma hex_digit_chars:
  assumes "d < 16"
  shows "hex_digit d \<noteq> CHR ''.''" and "hex_digit d \<noteq> CHR ''|''" and "hex_digit d \<noteq> CHR '':''"
  using byte_of_hex_digit [OF assms] assms by (auto split: if_splits)

lemma hex_encode_no_dot:
  "\<forall>b \<in> set bs. b < 256 \<Longrightarrow> CHR ''.'' \<notin> set (hex_encode bs) \<and> CHR ''|'' \<notin> set (hex_encode bs)"
  unfolding hex_encode_def
  by (induction bs) (auto simp: hex_digit_chars [THEN not_sym])

lemma hex_encode_length: "length (hex_encode bs) = 2 * length bs"
  by (induction bs) (simp_all add: hex_encode_def)

end
