(* ===== verification/Go_Net.thy ===== *)
theory Go_Net
  imports Go_Strings "HOL-Library.Word"
begin

unbundle bit_operations_syntax

text \<open>
  The part of Go's \<open>net\<close> and \<open>net/netip\<close> packages the program relies on: parsing of addresses and
  CIDR blocks, membership in a block, splitting of \<open>host:port\<close>. Errors are \<open>None\<close>: the program
  never looks at the text of an error.
\<close>

type_synonym byte = "8 word"
type_synonym ipbytes = "byte list"

record ipnet =
  net_ip :: ipbytes
  net_mask :: ipbytes

datatype addr = Addr4 ipbytes | Addr6 ipbytes string

subsection \<open>Addresses\<close>

text \<open>One decimal field of an IPv4 address: digits, no leading zero, at most 255.\<close>

definition parse_octet :: "string \<Rightarrow> byte option" where
  "parse_octet s =
     (if s = [] \<or> \<not> list_all is_digit s \<or> (1 < length s \<and> hd s = CHR ''0'') \<or> 255 < digits_val s
      then None else Some (of_int (digits_val s)))"

fun all_some :: "'a option list \<Rightarrow> 'a list option" where
  "all_some [] = Some []"
| "all_some (None # xs) = None"
| "all_some (Some x # xs) = map_option ((#) x) (all_some xs)"

definition parse_ipv4_fields :: "string \<Rightarrow> ipbytes option" where
  "parse_ipv4_fields s =
     (let fs = split_on (CHR ''.'') s in
      if length fs = 4 then all_some (map parse_octet fs) else None)"

definition is_hex :: "char \<Rightarrow> bool" where
  "is_hex c \<longleftrightarrow> is_digit c \<or> (97 \<le> byte_of c \<and> byte_of c \<le> 102) \<or> (65 \<le> byte_of c \<and> byte_of c \<le> 70)"

definition hex_val :: "char \<Rightarrow> int" where
  "hex_val c = (if is_digit c then of_char c - 48
     else if 97 \<le> byte_of c then of_char c - 87 else of_char c - 55)"

text \<open>A group of at most four hexadecimal digits as two bytes.\<close>

definition hex_group :: "string \<Rightarrow> ipbytes" where
  "hex_group hs = (let n = foldl (\<lambda>a c. a * 16 + hex_val c) 0 hs in [of_int (n div 256), of_int (n mod 256)])"

lemma dropWhile_shorter: "dropWhile P s = c # r \<Longrightarrow> length r < length s"
  using length_dropWhile_le [of P s] by simp

text \<open>
  The loop of \<open>parseIPv6\<close>: the rest of the text, the bytes so far, the position of \<open>::\<close> if it was
  seen. The result is the bytes and the position, when the whole text was read.
\<close>

function v6_loop :: "string \<Rightarrow> ipbytes \<Rightarrow> nat option \<Rightarrow> (ipbytes \<times> nat option) option" where
  "v6_loop s ip ell =
     (if 16 \<le> length ip then (if s = [] then Some (ip, ell) else None)
      else
        let hs = takeWhile is_hex s; ip' = ip @ hex_group hs in
        if hs = [] \<or> 4 < length hs then None
        else (case dropWhile is_hex s of
            [] \<Rightarrow> Some (ip', ell)
          | c # r \<Rightarrow>
             (if c = CHR ''.'' then
                (if (ell = None \<and> length ip \<noteq> 12) \<or> 16 < length ip + 4 then None
                 else map_option (\<lambda>q. (ip @ q, ell)) (parse_ipv4_fields s))
              else if c \<noteq> CHR '':'' then None
              else (case r of
                  [] \<Rightarrow> None
                | d # r' \<Rightarrow>
                   (if d \<noteq> CHR '':'' then v6_loop r ip' ell
                    else if ell \<noteq> None then None
                    else if r' = [] then Some (ip', Some (length ip'))
                    else v6_loop r' ip' (Some (length ip')))))))"
  by pat_completeness auto
termination
  by (relation "measure (\<lambda>(s, ip, ell). length s)") (auto dest!: dropWhile_shorter)

declare v6_loop.simps [simp del]

text \<open>The zeros that \<open>::\<close> stands for, at least one group.\<close>

definition v6_expand :: "ipbytes \<Rightarrow> nat option \<Rightarrow> ipbytes option" where
  "v6_expand ip ell =
     (if length ip < 16 then
        (case ell of None \<Rightarrow> None
         | Some e \<Rightarrow> Some (take e ip @ replicate (16 - length ip) 0 @ drop e ip))
      else if ell = None then Some ip else None)"

definition parse_ipv6 :: "string \<Rightarrow> addr option" where
  "parse_ipv6 inp =
     (let (s, zone) = (case cut (CHR ''%'') inp of None \<Rightarrow> (inp, None) | Some (a, z) \<Rightarrow> (a, Some z)) in
      if zone = Some [] then None
      else
        let z = (case zone of None \<Rightarrow> [] | Some z \<Rightarrow> z);
            lead = has_prefix s ''::'';
            s' = (if lead then drop 2 s else s)
        in
        if lead \<and> s' = [] then Some (Addr6 (replicate 16 0) z)
        else (case v6_loop s' [] (if lead then Some 0 else None) of
            None \<Rightarrow> None
          | Some (ip, ell) \<Rightarrow> map_option (\<lambda>b. Addr6 b z) (v6_expand ip ell)))"

text \<open>\<open>netip.ParseAddr\<close>: the first of \<open>. : %\<close> decides.\<close>

fun addr_kind :: "string \<Rightarrow> char option" where
  "addr_kind [] = None"
| "addr_kind (c # cs) = (if c \<in> {CHR ''.'', CHR '':'', CHR ''%''} then Some c else addr_kind cs)"

definition parse_addr :: "string \<Rightarrow> addr option" where
  "parse_addr s = (case addr_kind s of
      None \<Rightarrow> None
    | Some c \<Rightarrow>
       (if c = CHR ''.'' then map_option Addr4 (parse_ipv4_fields s)
        else if c = CHR '':'' then parse_ipv6 s else None))"

definition v4_in_v6_prefix :: ipbytes where
  "v4_in_v6_prefix = replicate 10 0 @ [255, 255]"

fun addr_as16 :: "addr \<Rightarrow> ipbytes" where
  "addr_as16 (Addr4 b) = v4_in_v6_prefix @ b"
| "addr_as16 (Addr6 b z) = b"

fun addr_zone :: "addr \<Rightarrow> string" where
  "addr_zone (Addr4 b) = []"
| "addr_zone (Addr6 b z) = z"

fun addr_bits :: "addr \<Rightarrow> nat" where
  "addr_bits (Addr4 b) = 32"
| "addr_bits (Addr6 b z) = 128"

text \<open>\<open>net.ParseIP\<close>: sixteen bytes, or nil.\<close>

definition parse_ip :: "string \<Rightarrow> ipbytes option" where
  "parse_ip s = (case parse_addr s of
      None \<Rightarrow> None
    | Some a \<Rightarrow> if addr_zone a = [] then Some (addr_as16 a) else None)"

text \<open>\<open>IP.To4\<close>.\<close>

definition to4 :: "ipbytes \<Rightarrow> ipbytes option" where
  "to4 ip = (if length ip = 4 then Some ip
     else if length ip = 16 \<and> take 12 ip = v4_in_v6_prefix then Some (drop 12 ip) else None)"

subsection \<open>Networks\<close>

definition dtoi :: "string \<Rightarrow> nat option" where
  "dtoi s = (if s = [] \<or> \<not> list_all is_digit s \<or> 0xFFFFFF \<le> digits_val s then None else Some (nat (digits_val s)))"

text \<open>\<open>CIDRMask(n, 8 * l)\<close>.\<close>

fun cidr_mask :: "nat \<Rightarrow> nat \<Rightarrow> ipbytes" where
  "cidr_mask n 0 = []"
| "cidr_mask n (Suc l) =
     (if 8 \<le> n then 255 # cidr_mask (n - 8) l else NOT (drop_bit n 255) # cidr_mask 0 l)"

definition ip_mask :: "ipbytes \<Rightarrow> ipbytes \<Rightarrow> ipbytes" where
  "ip_mask ip m =
     (let m' = (if length m = 16 \<and> length ip = 4 \<and> take 12 m = replicate 12 255 then drop 12 m else m);
          ip' = (if length m' = 4 \<and> length ip = 16 \<and> take 12 ip = v4_in_v6_prefix then drop 12 ip else ip)
      in if length ip' = length m' then map2 (AND) ip' m' else [])"

definition parse_cidr :: "string \<Rightarrow> ipnet option" where
  "parse_cidr s = (case cut (CHR ''/'') s of
      None \<Rightarrow> None
    | Some (a, m) \<Rightarrow> (case parse_addr a of
        None \<Rightarrow> None
      | Some ad \<Rightarrow>
         (if addr_zone ad \<noteq> [] then None
          else (case dtoi m of
              None \<Rightarrow> None
            | Some n \<Rightarrow>
               (if addr_bits ad < n then None
                else let mk = cidr_mask n (addr_bits ad div 8)
                     in Some \<lparr>net_ip = ip_mask (addr_as16 ad) mk, net_mask = mk\<rparr>)))))"

text \<open>\<open>networkNumberAndMask\<close> and \<open>IPNet.Contains\<close>.\<close>

definition network_number_and_mask :: "ipnet \<Rightarrow> (ipbytes \<times> ipbytes) option" where
  "network_number_and_mask n =
     (let ip = (case to4 (net_ip n) of Some q \<Rightarrow> Some q
                | None \<Rightarrow> if length (net_ip n) = 16 then Some (net_ip n) else None);
          m = net_mask n
      in case ip of
          None \<Rightarrow> None
        | Some q \<Rightarrow>
           (if length m = 4 then (if length q = 4 then Some (q, m) else None)
            else if length m = 16 then Some (q, if length q = 4 then drop 12 m else m)
            else None))"

definition ipnet_contains :: "ipnet \<Rightarrow> ipbytes \<Rightarrow> bool" where
  "ipnet_contains n ip =
     (let x = (case to4 ip of Some q \<Rightarrow> q | None \<Rightarrow> ip) in
      case network_number_and_mask n of
        None \<Rightarrow> x = []
      | Some (nn, m) \<Rightarrow> length x = length nn \<and> map2 (AND) nn m = map2 (AND) x m)"

subsection \<open>Host and port\<close>

definition split_host_port :: "string \<Rightarrow> (string \<times> string) option" where
  "split_host_port hp = (case last_index_byte hp (CHR '':'') of
      None \<Rightarrow> None
    | Some i \<Rightarrow>
       (if hd hp = CHR ''['' then
          (case index_byte hp (CHR '']'') of
             None \<Rightarrow> None
           | Some e \<Rightarrow>
              (if Suc e \<noteq> i then None
               else if CHR ''['' \<in> set (drop 1 hp) \<or> CHR '']'' \<in> set (drop (Suc e) hp) then None
               else Some (take (e - 1) (drop 1 hp), drop (Suc i) hp)))
        else
          (if CHR '':'' \<in> set (take i hp) \<or> CHR ''['' \<in> set hp \<or> CHR '']'' \<in> set hp then None
           else Some (take i hp, drop (Suc i) hp))))"

text \<open>\<open>JoinHostPort\<close>.\<close>

definition join_host_port :: "string \<Rightarrow> string \<Rightarrow> string" where
  "join_host_port h p = (if CHR '':'' \<in> set h then ''['' @ h @ '']:'' @ p else h @ '':'' @ p)"


subsection \<open>What membership in a block means\<close>

definition byte_bits :: "byte \<Rightarrow> bool list" where
  "byte_bits w = map (\<lambda>i. bit w (7 - i)) [0..<8]"

definition addr_bitstring :: "ipbytes \<Rightarrow> bool list" where
  "addr_bitstring bs = concat (map byte_bits bs)"

lemma addr_bitstring_Nil [simp]: "addr_bitstring [] = []"
  and addr_bitstring_Cons [simp]: "addr_bitstring (b # bs) = byte_bits b @ addr_bitstring bs"
  by (simp_all add: addr_bitstring_def)

lemma length_byte_bits [simp]: "length (byte_bits w) = 8"
  by (simp add: byte_bits_def)

lemma length_addr_bitstring [simp]: "length (addr_bitstring bs) = 8 * length bs"
  by (induction bs) auto

lemma byte_eq_iff: "x = y \<longleftrightarrow> (\<forall>i < 8. bit x (7 - i) = bit (y :: byte) (7 - i))"
proof
  assume *: "\<forall>i < 8. bit x (7 - i) = bit y (7 - i)"
  show "x = y"
  proof (rule bit_word_eqI)
    fix n assume "n < LENGTH(8)"
    then show "bit x n = bit y n" using * [rule_format, of "7 - n"] by simp
  qed
qed simp

lemma byte_bits_inj [simp]: "byte_bits x = byte_bits y \<longleftrightarrow> x = y"
  by (auto simp: byte_bits_def byte_eq_iff)

lemma bit_int_255 [simp]: "bit (255 :: int) k \<longleftrightarrow> k < 8"
proof -
  have "(255 :: int) = mask 8" by (simp add: mask_eq_exp_minus_1)
  then show ?thesis by (simp only: bit_mask_iff) simp
qed

lemma bit_byte_255: "bit (255 :: byte) k \<longleftrightarrow> k < 8"
  by simp

lemma bit_host_mask: "bit (NOT (drop_bit n 255) :: byte) k \<longleftrightarrow> k < 8 \<and> 8 \<le> n + k"
  by (auto simp: bit_not_iff bit_drop_bit_eq bit_byte_255)

lemma byte_prefix_iff:
  assumes "n < 8"
  shows "(x :: byte) AND NOT (drop_bit n 255) = y AND NOT (drop_bit n 255) \<longleftrightarrow>
     take n (byte_bits x) = take n (byte_bits y)"
proof -
  have "take n (byte_bits w) = map (\<lambda>i. bit w (7 - i)) [0..<n]" for w
    using assms by (simp add: byte_bits_def take_map)
  then have r: "take n (byte_bits x) = take n (byte_bits y) \<longleftrightarrow> (\<forall>i < n. bit x (7 - i) = bit y (7 - i))"
    by auto
  have m: "bit (w AND NOT (drop_bit n 255)) (7 - i) \<longleftrightarrow> bit w (7 - i) \<and> i < n" if "i < 8" for w :: byte and i
    unfolding bit_and_iff bit_host_mask using that assms by auto
  have "(x AND NOT (drop_bit n 255) = y AND NOT (drop_bit n 255)) \<longleftrightarrow>
      (\<forall>i < 8. (bit x (7 - i) \<and> i < n) = (bit y (7 - i) \<and> i < n))"
    unfolding byte_eq_iff [of "x AND _"] by (simp only: m cong: imp_cong)
  also have "\<dots> \<longleftrightarrow> (\<forall>i < n. bit x (7 - i) = bit y (7 - i))"
    using assms by (meson less_trans)
  finally show ?thesis unfolding r .
qed

lemma cidr_mask_0: "cidr_mask 0 l = replicate l 0"
  by (induction l) simp_all

lemma length_cidr_mask [simp]: "length (cidr_mask n l) = l"
  by (induction n l rule: cidr_mask.induct) auto

lemma and_0_map2: "length a = l \<Longrightarrow> map2 (AND) a (replicate l (0 :: byte)) = replicate l 0"
  by (induction a arbitrary: l) auto

lemma and_255 [simp]: "(x :: byte) AND 255 = x"
  by (rule bit_word_eqI) (simp add: bit_and_iff bit_byte_255)

text \<open>Masking compares the first \<open>n\<close> bits.\<close>

lemma cidr_mask_prefix:
  "length a = l \<Longrightarrow> length b = l \<Longrightarrow>
   map2 (AND) a (cidr_mask n l) = map2 (AND) b (cidr_mask n l) \<longleftrightarrow>
   take n (addr_bitstring a) = take n (addr_bitstring b)"
proof (induction n l arbitrary: a b rule: cidr_mask.induct)
  case (2 n l)
  obtain x a' y b' where ab: "a = x # a'" "b = y # b'" "length a' = l" "length b' = l"
    using 2(3,4) by (metis length_Suc_conv)
  show ?case
  proof (cases "8 \<le> n")
    case True
    then show ?thesis using 2(1) [OF True ab(3,4)] ab by simp
  next
    case False
    then show ?thesis using byte_prefix_iff [of n x y] ab by (simp add: cidr_mask_0 and_0_map2)
  qed
qed simp

end
