(* ===== verification/Go_Http.thy ===== *)
theory Go_Http
  imports Go_Strings
begin

text \<open>
  What the program reads of an \<open>*http.Request\<close>. \<open>rq_header k\<close> is \<open>r.Header.Get(k)\<close> (the first value of
  the canonical key, the empty string when there is none), \<open>rq_query\<close> and \<open>rq_form\<close> are
  \<open>r.URL.Query().Get\<close> and \<open>r.FormValue\<close>, \<open>rq_cookie n\<close> is the value of \<open>r.Cookie(n)\<close>. The two context
  values the program stores on a request, the resolved client address and the TLS fingerprint, are
  the last two fields; \<open>rq_fingerprint\<close> is what \<open>fingerprint.FromContext\<close> returns.
\<close>

record http_request =
  rq_remote_addr :: string
  rq_method :: string
  rq_host :: string
  rq_path :: string
  rq_uri :: string
  rq_header :: "string \<Rightarrow> string"
  rq_query :: "string \<Rightarrow> string"
  rq_form :: "string \<Rightarrow> string"
  rq_cookie :: "string \<Rightarrow> string option"
  rq_has_body :: bool
  rq_tls :: bool
  rq_client_ip :: "string option"
  rq_fingerprint :: "(string \<times> string) option"

text \<open>Status codes of \<open>net/http\<close>.\<close>

definition status_ok :: int where "status_ok = 200"
definition status_moved_permanently :: int where "status_moved_permanently = 301"
definition status_see_other :: int where "status_see_other = 303"
definition status_bad_request :: int where "status_bad_request = 400"
definition status_unauthorized :: int where "status_unauthorized = 401"
definition status_not_found :: int where "status_not_found = 404"
definition status_method_not_allowed :: int where "status_method_not_allowed = 405"
definition status_too_many_requests :: int where "status_too_many_requests = 429"
definition status_internal_server_error :: int where "status_internal_server_error = 500"
definition status_bad_gateway :: int where "status_bad_gateway = 502"
definition status_service_unavailable :: int where "status_service_unavailable = 503"

text \<open>A request with nothing set, for concrete instances.\<close>

definition blank_request :: http_request where
  "blank_request = \<lparr>rq_remote_addr = [], rq_method = ''GET'', rq_host = [], rq_path = ''/'', rq_uri = ''/'',
     rq_header = (\<lambda>_. []), rq_query = (\<lambda>_. []), rq_form = (\<lambda>_. []), rq_cookie = (\<lambda>_. None),
     rq_has_body = False, rq_tls = False, rq_client_ip = None, rq_fingerprint = None\<rparr>"

end
