(* ===== verification/Netutil.thy ===== *)
theory Netutil
  imports Go_Net Go_Http
begin

text \<open>
  \<^verbatim>\<open>internal/netutil/netutil.go\<close>: parsing of the address lists of the configuration, membership, and
  the resolution of the client address. First the code's functions, then what membership in a
  parsed list means and which requests can choose the address they are counted under.
\<close>

section \<open>The code\<close>

definition with_client_ip :: "http_request \<Rightarrow> string \<Rightarrow> http_request" where
  "with_client_ip r ip = r\<lparr>rq_client_ip := Some ip\<rparr>"

definition client_ip_from_context :: "http_request \<Rightarrow> string option" where
  "client_ip_from_context r = rq_client_ip r"

text \<open>The text an entry is parsed as: a bare address gets \<open>/32\<close> or \<open>/128\<close>.\<close>

definition cidr_text :: "string \<Rightarrow> string" where
  "cidr_text e =
     (if CHR ''/'' \<notin> set e then
        (case parse_ip e of
           None \<Rightarrow> e
         | Some ip \<Rightarrow> if to4 ip \<noteq> None then e @ ''/32'' else e @ ''/128'')
      else e)"

fun parse_cidrs :: "string list \<Rightarrow> ipnet list" where
  "parse_cidrs [] = []"
| "parse_cidrs (e # es) =
     (let e = trim_space e in
      if e = [] then parse_cidrs es
      else (case parse_cidr (cidr_text e) of
              None \<Rightarrow> parse_cidrs es
            | Some n \<Rightarrow> n # parse_cidrs es))"

definition net_contains :: "ipnet list \<Rightarrow> string \<Rightarrow> bool" where
  "net_contains nets ip = (case parse_ip ip of
      None \<Rightarrow> False
    | Some parsed \<Rightarrow> list_ex (\<lambda>n. ipnet_contains n parsed) nets)"

text \<open>\<open>peer\<close>: the host of \<open>RemoteAddr\<close>, or all of it when it does not split.\<close>

definition peer_of :: "string \<Rightarrow> string" where
  "peer_of remote = (case split_host_port remote of None \<Rightarrow> remote | Some (h, p) \<Rightarrow> h)"

definition client_ip :: "http_request \<Rightarrow> ipnet list \<Rightarrow> string" where
  "client_ip r trusted =
     (let peer = peer_of (rq_remote_addr r) in
      if trusted = [] \<or> \<not> net_contains trusted peer then peer
      else
        let xff = rq_header r ''X-Forwarded-For'' in
        if xff = [] then peer
        else
          let first = trim_space (hd (split_on (CHR '','') xff)) in
          if parse_ip first \<noteq> None then first else peer)"

section \<open>Membership in a parsed list\<close>

lemma parse_cidrs_append: "parse_cidrs (xs @ ys) = parse_cidrs xs @ parse_cidrs ys"
  by (induction xs) (auto simp: Let_def split: option.splits)

lemma net_contains_append: "net_contains (a @ b) ip \<longleftrightarrow> net_contains a ip \<or> net_contains b ip"
  by (auto simp: net_contains_def split: option.splits)

lemma net_contains_Nil [simp]: "\<not> net_contains [] ip"
  by (auto simp: net_contains_def split: option.splits)

lemma net_contains_unparsed: "parse_ip ip = None \<Longrightarrow> \<not> net_contains nets ip"
  by (simp add: net_contains_def)

lemma all_some_length: "all_some xs = Some ys \<Longrightarrow> length ys = length xs"
  by (induction xs arbitrary: ys rule: all_some.induct) auto

lemma parse_ipv4_fields_length: "parse_ipv4_fields s = Some b \<Longrightarrow> length b = 4"
  by (auto simp: parse_ipv4_fields_def Let_def dest: all_some_length split: if_splits)

lemma take12_prefix [simp]: "take 12 (v4_in_v6_prefix @ b) = v4_in_v6_prefix"
  and drop12_prefix [simp]: "drop 12 (v4_in_v6_prefix @ b) = b"
  and length_prefix [simp]: "length v4_in_v6_prefix = 12"
  by (simp_all add: v4_in_v6_prefix_def)

lemma to4_mapped [simp]: "length b = 4 \<Longrightarrow> to4 (v4_in_v6_prefix @ b) = Some b"
  by (simp add: to4_def)

lemma to4_length: "to4 ip = Some q \<Longrightarrow> length q = 4"
  by (auto simp: to4_def split: if_splits)

lemma to4_Some_iff: "length x = 16 \<Longrightarrow> to4 x = Some q \<longleftrightarrow> length q = 4 \<and> x = v4_in_v6_prefix @ q"
  by (auto simp: to4_def) (metis append_take_drop_id)

text \<open>An IPv4 block \<open>a.b.c.d/n\<close> holds the IPv4 addresses that agree with it on the first \<open>n\<close> bits.\<close>

lemma contains_block_v4:
  assumes b: "length b = 4" and ip: "length ip = 16 \<or> length ip = 4"
  shows "ipnet_contains \<lparr>net_ip = ip_mask (addr_as16 (Addr4 b)) (cidr_mask n 4), net_mask = cidr_mask n 4\<rparr> ip
     \<longleftrightarrow> (\<exists>q. to4 ip = Some q \<and> take n (addr_bitstring q) = take n (addr_bitstring b))"
proof -
  let ?m = "cidr_mask n 4"
  have mk: "ip_mask (v4_in_v6_prefix @ b) ?m = map2 (AND) b ?m"
    using b by (simp add: ip_mask_def Let_def)
  have l4: "length (map2 (AND) b ?m) = 4" using b by simp
  have idem: "map2 (AND) (map2 (AND) b ?m) ?m = map2 (AND) b ?m"
    by (rule nth_equalityI) (simp_all add: b)
  have nn: "network_number_and_mask \<lparr>net_ip = map2 (AND) b ?m, net_mask = ?m\<rparr> = Some (map2 (AND) b ?m, ?m)"
    using l4 by (simp add: network_number_and_mask_def to4_def Let_def)
  show ?thesis
  proof (cases "to4 ip")
    case None
    then have "length ip = 16" using ip by (auto simp: to4_def)
    then show ?thesis using None b by (simp add: ipnet_contains_def mk nn)
  next
    case (Some q)
    then show ?thesis
      using cidr_mask_prefix [of b 4 q n] b to4_length [OF Some] idem
      by (auto simp: ipnet_contains_def mk nn)
  qed
qed


lemma and_255_left: "(x :: byte) AND m = 255 \<Longrightarrow> x = 255 \<and> m = 255"
  unfolding byte_eq_iff [of _ 255] bit_and_iff bit_byte_255 by auto

lemma not_drop_bit_255:
  assumes "n < 8"
  shows "NOT (drop_bit n (255 :: byte)) \<noteq> 255"
proof
  assume eq: "NOT (drop_bit n (255 :: byte)) = 255"
  have "bit (NOT (drop_bit n 255) :: byte) 0 \<longleftrightarrow> (0 :: nat) < 8 \<and> 8 \<le> n + 0" by (rule bit_host_mask)
  then have "bit (255 :: byte) 0 \<longleftrightarrow> (0 :: nat) < 8 \<and> 8 \<le> n + 0" unfolding eq .
  then have "(0 :: nat) < 8 \<longleftrightarrow> (0 :: nat) < 8 \<and> 8 \<le> n + 0" unfolding bit_byte_255 .
  then show False using assms by arith
qed

lemma cidr_mask_nth:
  "i < l \<Longrightarrow> cidr_mask n l ! i =
     (if 8 * i + 8 \<le> n then 255 else if n \<le> 8 * i then 0 else NOT (drop_bit (n - 8 * i) 255))"
proof (induction l arbitrary: n i)
  case (Suc l)
  show ?case
  proof (cases i)
    case 0
    then show ?thesis by (cases "n = 0") simp_all
  next
    case (Suc j)
    then have j: "j < l" using Suc.prems by simp
    show ?thesis
    proof (cases "8 \<le> n")
      case True
      have "n - 8 - 8 * j = n - 8 * i" using Suc by simp
      then show ?thesis using True Suc.IH [OF j, of "n - 8"] Suc by auto
    next
      case False
      then show ?thesis using Suc j by (simp add: cidr_mask_0)
    qed
  qed
qed simp

lemma cidr_mask_nth_255:
  assumes "i < l" "cidr_mask n l ! i = 255" "j \<le> i"
  shows "cidr_mask n l ! j = 255"
proof -
  have "8 * i + 8 \<le> n"
  proof (rule ccontr)
    assume "\<not> 8 * i + 8 \<le> n"
    then have "n \<le> 8 * i \<or> n - 8 * i < 8" by linarith
    then show False using assms(1,2) not_drop_bit_255 [of "n - 8 * i"] \<open>\<not> 8 * i + 8 \<le> n\<close>
      by (auto simp only: cidr_mask_nth if_False split: if_splits) simp_all
  qed
  then show ?thesis using assms by (simp add: cidr_mask_nth)
qed

text \<open>Masking does not turn an IPv6 address into a mapped IPv4 address.\<close>

lemma to4_masked_v6:
  assumes b: "length b = 16" "to4 b = None"
  shows "to4 (map2 (AND) b (cidr_mask n 16)) = None"
proof (rule ccontr)
  let ?m = "cidr_mask n 16" and ?w = "map2 (AND) b (cidr_mask n 16)"
  assume "to4 ?w \<noteq> None"
  then have w: "take 12 ?w = v4_in_v6_prefix" using b by (auto simp: to4_def split: if_splits)
  have nth: "?w ! i = b ! i AND ?m ! i" if "i < 16" for i using that b by simp
  have "?w ! 11 = take 12 ?w ! 11" by (rule nth_take [symmetric]) simp
  then have "?w ! 11 = 255" unfolding w by (simp add: v4_in_v6_prefix_def nth_append)
  then have "?m ! 11 = 255" using nth [of 11] and_255_left [of "b ! 11" "?m ! 11"] by simp
  then have "?m ! i = 255" if "i \<le> 11" for i using cidr_mask_nth_255 [of 11 16 n i] that by simp
  then have "?w ! i = b ! i" if "i < 12" for i using that nth [of i] by simp
  then have "take 12 ?w = take 12 b" using b by (intro nth_equalityI) auto
  then show False using w b by (simp add: to4_def)
qed

lemma contains_block_v6:
  assumes b: "length b = 16" "to4 b = None" and ip: "length ip = 16"
  shows "ipnet_contains \<lparr>net_ip = ip_mask (addr_as16 (Addr6 b z)) (cidr_mask n 16), net_mask = cidr_mask n 16\<rparr> ip
     \<longleftrightarrow> to4 ip = None \<and> take n (addr_bitstring ip) = take n (addr_bitstring b)"
proof -
  let ?m = "cidr_mask n 16"
  have mk: "ip_mask b ?m = map2 (AND) b ?m"
    using b by (simp add: ip_mask_def Let_def)
  have idem: "map2 (AND) (map2 (AND) b ?m) ?m = map2 (AND) b ?m"
    by (rule nth_equalityI) (simp_all add: b)
  have nn: "network_number_and_mask \<lparr>net_ip = map2 (AND) b ?m, net_mask = ?m\<rparr> = Some (map2 (AND) b ?m, ?m)"
    using b to4_masked_v6 [OF b, of n] by (simp add: network_number_and_mask_def Let_def)
  show ?thesis
  proof (cases "to4 ip")
    case None
    then show ?thesis using cidr_mask_prefix [of b 16 ip n] b ip idem
      by (auto simp: ipnet_contains_def mk nn)
  next
    case (Some q)
    then show ?thesis using to4_length [OF Some] b by (simp add: ipnet_contains_def mk nn)
  qed
qed

text \<open>Parsed addresses have the right length.\<close>

lemma hex_group_length [simp]: "length (hex_group hs) = 2"
  by (simp add: hex_group_def Let_def)

lemma v6_loop_length:
  "v6_loop s ip ell = Some (ip', ell') \<Longrightarrow> even (length ip) \<Longrightarrow> length ip \<le> 16 \<Longrightarrow> length ip' \<le> 16"
proof (induction s ip ell rule: v6_loop.induct)
  case (1 s ip ell)
  have lt: "length ip < 16 \<Longrightarrow> length ip + 2 \<le> 16" using 1(4) by presburger
  from 1(3) show ?case
    apply (subst (asm) v6_loop.simps)
    using 1 lt by (auto simp: Let_def dest: parse_ipv4_fields_length split: if_splits list.splits)
qed

lemma v6_expand_length: "v6_expand ip ell = Some b \<Longrightarrow> length ip \<le> 16 \<Longrightarrow> length b = 16"
  by (auto simp: v6_expand_def split: if_splits option.splits)

lemma parse_ipv6_length: "parse_ipv6 s = Some (Addr6 b z) \<Longrightarrow> length b = 16"
  by (auto simp: parse_ipv6_def Let_def dest!: v6_loop_length v6_expand_length
      split: if_splits option.splits prod.splits)

lemma parse_ipv6_Addr6: "parse_ipv6 s = Some a \<Longrightarrow> \<exists>b z. a = Addr6 b z"
  by (auto simp: parse_ipv6_def Let_def split: if_splits option.splits prod.splits)

lemma parse_addr_length:
  "parse_addr s = Some a \<Longrightarrow> (\<exists>b. a = Addr4 b \<and> length b = 4) \<or> (\<exists>b z. a = Addr6 b z \<and> length b = 16)"
  by (auto simp: parse_addr_def dest: parse_ipv4_fields_length parse_ipv6_Addr6 parse_ipv6_length
      split: if_splits option.splits) (metis parse_ipv6_Addr6 parse_ipv6_length)

lemma parse_ip_length: "parse_ip s = Some ip \<Longrightarrow> length ip = 16"
  using parse_addr_length [of s] by (auto simp: parse_ip_def split: option.splits if_splits)


lemma parse_cidr_bare4:
  assumes "CHR ''/'' \<notin> set s" "parse_addr s = Some (Addr4 b)"
  shows "parse_cidr (cidr_text s) =
    Some \<lparr>net_ip = ip_mask (addr_as16 (Addr4 b)) (cidr_mask 32 4), net_mask = cidr_mask 32 4\<rparr>"
proof -
  have b: "length b = 4" using parse_addr_length [OF assms(2)] by auto
  have "cidr_text s = s @ CHR ''/'' # ''32''"
    using assms b by (simp add: cidr_text_def parse_ip_def)
  moreover have "dtoi ''32'' = Some 32" by code_simp
  ultimately show ?thesis using assms by (simp add: parse_cidr_def cut_append Let_def)
qed

lemma parse_cidr_bare6:
  assumes "CHR ''/'' \<notin> set s" "parse_addr s = Some (Addr6 b [])" "to4 b = None"
  shows "parse_cidr (cidr_text s) =
    Some \<lparr>net_ip = ip_mask (addr_as16 (Addr6 b [])) (cidr_mask 128 16), net_mask = cidr_mask 128 16\<rparr>"
proof -
  have "cidr_text s = s @ CHR ''/'' # ''128''"
    using assms by (simp add: cidr_text_def parse_ip_def)
  moreover have "dtoi ''128'' = Some 128" by code_simp
  ultimately show ?thesis using assms by (simp add: parse_cidr_def cut_append Let_def)
qed

lemma addr_bitstring_inj: "length a = length b \<Longrightarrow> addr_bitstring a = addr_bitstring b \<longleftrightarrow> a = b"
  by (induction a b rule: list_induct2) auto

section \<open>Properties\<close>

text \<open>
  Membership in a CIDR block is agreement on the prefix: for an entry \<open>a/n\<close> of the configuration
  whose address is IPv4, the parsed list contains a client address exactly when that address parses,
  is IPv4 (mapped or not) and agrees with \<open>a\<close> on the first \<open>n\<close> bits.
\<close>

theorem cidr_entry_matches_prefix:
  assumes "trim_space (a @ CHR ''/'' # m) = a @ CHR ''/'' # m" and "CHR ''/'' \<notin> set a"
    and "parse_addr a = Some (Addr4 b)" and "dtoi m = Some n" and "n \<le> 32"
  shows "net_contains (parse_cidrs [a @ CHR ''/'' # m]) ip \<longleftrightarrow>
    (\<exists>x q. parse_ip ip = Some x \<and> to4 x = Some q \<and> take n (addr_bitstring q) = take n (addr_bitstring b))"
proof -
  have b: "length b = 4" using parse_addr_length [OF assms(3)] by auto
  have "parse_cidr (a @ CHR ''/'' # m) =
     Some \<lparr>net_ip = ip_mask (addr_as16 (Addr4 b)) (cidr_mask n 4), net_mask = cidr_mask n 4\<rparr>"
    using assms by (simp add: parse_cidr_def cut_append Let_def)
  then have "parse_cidrs [a @ CHR ''/'' # m] =
     [\<lparr>net_ip = ip_mask (addr_as16 (Addr4 b)) (cidr_mask n 4), net_mask = cidr_mask n 4\<rparr>]"
    using assms(1) by (simp add: cidr_text_def)
  then show ?thesis
    using contains_block_v4 [OF b] parse_ip_length [of ip]
    by (auto simp: net_contains_def split: option.splits)
qed

theorem cidr_entry_matches_prefix_witness:
  "net_contains (parse_cidrs [''10.1.2.3'' @ CHR ''/'' # ''12'']) ''10.15.0.9'' \<and>
   \<not> net_contains (parse_cidrs [''10.1.2.3'' @ CHR ''/'' # ''12'']) ''10.16.0.9''"
proof -
  have h: "trim_space (''10.1.2.3'' @ CHR ''/'' # ''12'') = ''10.1.2.3'' @ CHR ''/'' # ''12''" by code_simp
  have p: "parse_addr ''10.1.2.3'' = Some (Addr4 [10, 1, 2, 3])" by code_simp
  have n: "dtoi ''12'' = Some 12" by code_simp
  have x: "parse_ip ''10.15.0.9'' = Some (v4_in_v6_prefix @ [10, 15, 0, 9])"
    "parse_ip ''10.16.0.9'' = Some (v4_in_v6_prefix @ [10, 16, 0, 9])" by code_simp+
  have t: "take 12 (addr_bitstring [10, 15, 0, 9]) = take 12 (addr_bitstring [10, 1, 2, 3])"
    "take 12 (addr_bitstring [10, 16, 0, 9]) \<noteq> take 12 (addr_bitstring [10, 1, 2, 3])" by code_simp+
  show ?thesis using cidr_entry_matches_prefix [OF h _ p n] x t by simp
qed

text \<open>
  A bare address in a list stands for exactly that address: an IPv4 entry, or an IPv6 entry that
  is not an IPv4-mapped one, contains a client address if and only if both parse to the same address.
\<close>

theorem bare_entry_matches_itself:
  assumes "trim_space s = s" and "s \<noteq> []" and "CHR ''/'' \<notin> set s"
    and "parse_addr s = Some a" and "addr_zone a = []"
    and "\<forall>b. a = Addr6 b [] \<longrightarrow> to4 b = None"
  shows "net_contains (parse_cidrs [s]) ip \<longleftrightarrow> parse_ip ip = parse_ip s"
proof (cases a)
  case (Addr4 b)
  have b: "length b = 4" using parse_addr_length [OF assms(4)] Addr4 by auto
  have eq: "(\<exists>q. to4 x = Some q \<and> take 32 (addr_bitstring q) = take 32 (addr_bitstring b)) \<longleftrightarrow>
      x = v4_in_v6_prefix @ b" if "length x = 16" for x
    using b addr_bitstring_inj [of _ b] by (auto simp: to4_Some_iff [OF that])
  have "parse_ip s = Some (v4_in_v6_prefix @ b)" using assms(4,5) Addr4 by (simp add: parse_ip_def)
  then show ?thesis
    using assms(1,2) parse_cidr_bare4 [OF assms(3)] assms(4) Addr4 contains_block_v4 [OF b] eq
      parse_ip_length [of ip]
    by (auto simp: net_contains_def split: option.splits)
next
  case (Addr6 b z)
  then have a: "a = Addr6 b []" "to4 b = None" "length b = 16"
    using assms(5,6) parse_addr_length [OF assms(4)] by auto
  have "parse_ip s = Some b" using assms(4) a by (simp add: parse_ip_def)
  then show ?thesis
    using assms(1,2) parse_cidr_bare6 [OF assms(3) _ a(2)] assms(4) a
      contains_block_v6 [OF a(3,2)] addr_bitstring_inj [of _ b] parse_ip_length [of ip]
    by (auto simp: net_contains_def split: option.splits)
qed

theorem bare_entry_matches_itself_witness:
  "net_contains (parse_cidrs [''::1'']) ''0:0:0:0:0:0:0:1'' \<and>
   \<not> net_contains (parse_cidrs [''::1'']) ''10.0.0.1''"
proof -
  have h: "trim_space ''::1'' = ''::1''" by code_simp
  have p: "parse_addr ''::1'' = Some (Addr6 (replicate 15 0 @ [1]) [])" by code_simp
  have n: "to4 (replicate 15 0 @ [1]) = None" by code_simp
  have x: "parse_ip ''0:0:0:0:0:0:0:1'' = parse_ip ''::1''" "parse_ip ''10.0.0.1'' \<noteq> parse_ip ''::1''"
    by code_simp+
  show ?thesis using bare_entry_matches_itself [OF h _ _ p] n x by simp
qed

text \<open>
  An IPv4-mapped entry is misread: \<open>::ffff:1.2.3.4\<close> in an allowlist or denylist does not contain
  \<open>1.2.3.4\<close>, in either spelling, and does contain the IPv6 loopback address \<open>::1\<close>. The code appends
  \<open>/32\<close> because \<open>To4\<close> succeeds, and \<open>ParseCIDR\<close> applies the 32 bits to the 128-bit address.
\<close>

theorem mapped_entry_misread:
  "\<not> net_contains (parse_cidrs [''::ffff:1.2.3.4'']) ''1.2.3.4'' \<and>
   \<not> net_contains (parse_cidrs [''::ffff:1.2.3.4'']) ''::ffff:1.2.3.4'' \<and>
   net_contains (parse_cidrs [''::ffff:1.2.3.4'']) ''::1''"
proof (intro conjI)
  show "\<not> net_contains (parse_cidrs [''::ffff:1.2.3.4'']) ''1.2.3.4''" by code_simp
  show "\<not> net_contains (parse_cidrs [''::ffff:1.2.3.4'']) ''::ffff:1.2.3.4''" by code_simp
  show "net_contains (parse_cidrs [''::ffff:1.2.3.4'']) ''::1''" by code_simp
qed

text \<open>
  C12. A client that does not connect through a trusted proxy cannot choose its address: whatever
  headers, cookies and paths two requests carry, if they come from the same untrusted peer they
  resolve to the same address, the peer's.
\<close>

theorem untrusted_peer_cannot_choose_ip:
  assumes "\<not> net_contains trusted (peer_of (rq_remote_addr r))"
    and "rq_remote_addr r' = rq_remote_addr r"
  shows "client_ip r' trusted = client_ip r trusted \<and> client_ip r trusted = peer_of (rq_remote_addr r)"
  using assms by (simp add: client_ip_def)

theorem untrusted_peer_cannot_choose_ip_witness:
  "client_ip (blank_request\<lparr>rq_remote_addr := ''203.0.113.9:4711'', rq_header := (\<lambda>_. ''10.0.0.1'')\<rparr>)
     (parse_cidrs [''127.0.0.1'']) = ''203.0.113.9''"
proof -
  let ?r = "blank_request\<lparr>rq_remote_addr := ''203.0.113.9:4711''\<rparr>"
  have p: "peer_of ''203.0.113.9:4711'' = ''203.0.113.9''" by code_simp
  have h: "\<not> net_contains (parse_cidrs [''127.0.0.1'']) (peer_of (rq_remote_addr ?r))" by code_simp
  show ?thesis
    using untrusted_peer_cannot_choose_ip [OF h, of "?r\<lparr>rq_header := (\<lambda>_. ''10.0.0.1'')\<rparr>"] p
    by (simp add: blank_request_def)
qed

text \<open>
  Behind a trusted proxy the left-most entry of \<open>X-Forwarded-For\<close> decides, so a client whose
  proxy appends to the header still chooses its address: if the client sent the header \<open>v\<close>, a valid
  address, and the proxy appended the true address, the request resolves to \<open>v\<close>.
\<close>

theorem trusted_xff_leftmost_wins:
  assumes "net_contains trusted (peer_of (rq_remote_addr r))"
    and "rq_header r ''X-Forwarded-For'' = v @ CHR '','' # appended"
    and "CHR '','' \<notin> set v" and "parse_ip (trim_space v) \<noteq> None"
  shows "client_ip r trusted = trim_space v"
proof -
  have "trusted \<noteq> []" using assms(1) by auto
  then show ?thesis using assms by (simp add: client_ip_def split_on_append Let_def)
qed

theorem trusted_xff_leftmost_wins_witness:
  "client_ip (blank_request\<lparr>rq_remote_addr := ''127.0.0.1:9'',
       rq_header := (\<lambda>_. ''10.9.9.9, 203.0.113.9'')\<rparr>) (parse_cidrs [''127.0.0.1'']) = ''10.9.9.9''"
proof -
  let ?r = "blank_request\<lparr>rq_remote_addr := ''127.0.0.1:9'', rq_header := (\<lambda>_. ''10.9.9.9, 203.0.113.9'')\<rparr>"
  have h: "net_contains (parse_cidrs [''127.0.0.1'']) (peer_of (rq_remote_addr ?r))" by code_simp
  have x: "rq_header ?r ''X-Forwarded-For'' = ''10.9.9.9'' @ CHR '','' # '' 203.0.113.9''"
    by (simp add: blank_request_def)
  have p: "parse_ip (trim_space ''10.9.9.9'') \<noteq> None" and t: "trim_space ''10.9.9.9'' = ''10.9.9.9''"
    by code_simp+
  show ?thesis using trusted_xff_leftmost_wins [OF h x _ p] t by simp
qed

text \<open>The resolved address is the peer or a valid address.\<close>

lemma client_ip_peer_or_valid:
  "client_ip r trusted = peer_of (rq_remote_addr r) \<or> parse_ip (client_ip r trusted) \<noteq> None"
  by (auto simp: client_ip_def Let_def)

end
