(* ===== verification/Go_Float.thy ===== *)
theory Go_Float
  imports Complex_Main "HOL-Library.Log_Nat"
begin

text \<open>
  float64 arithmetic. A finite float64 value is a real number; every arithmetic operation of the
  program is the exact operation followed by \<open>fl\<close>, rounding to the nearest number with a 53-bit
  significand, ties to even, as IEEE 754 and the Go specification ask. The exponent is not
  bounded: overflow to infinity, subnormal numbers and NaN are not modelled.
\<close>

subsection \<open>Rounding to an integer, ties to even\<close>

definition rne :: "real \<Rightarrow> int" where
  "rne x = (let f = \<lfloor>x\<rfloor>; d = x - of_int f in
     if d < 1/2 then f else if 1/2 < d then f + 1 else if even f then f else f + 1)"

lemma rne_of_int [simp]: "rne (of_int n) = n"
  by (simp add: rne_def)

lemma rne_bounds: "\<lfloor>x\<rfloor> \<le> rne x \<and> rne x \<le> \<lfloor>x\<rfloor> + 1"
  by (auto simp: rne_def Let_def)

lemma rne_error: "\<bar>of_int (rne x) - x\<bar> \<le> 1/2"
  unfolding rne_def Let_def by (auto simp: abs_if) linarith+

lemma rne_mono: "x \<le> y \<Longrightarrow> rne x \<le> rne y"
proof -
  assume le: "x \<le> y"
  show "rne x \<le> rne y"
  proof (cases "\<lfloor>x\<rfloor> = \<lfloor>y\<rfloor>")
    case True
    with le show ?thesis by (auto simp: rne_def Let_def)
  next
    case False
    with le have "\<lfloor>x\<rfloor> + 1 \<le> \<lfloor>y\<rfloor>" using floor_mono [OF le] by linarith
    then show ?thesis using rne_bounds [of x] rne_bounds [of y] by linarith
  qed
qed

lemma rne_minus: "rne (- x) = - rne x"
proof (cases "x = of_int \<lfloor>x\<rfloor>")
  case True
  then obtain n where "x = of_int n" by blast
  then show ?thesis using rne_of_int [of "- n"] by simp
next
  case False
  have fl: "\<lfloor>- x\<rfloor> = - \<lfloor>x\<rfloor> - 1"
  proof (rule floor_unique)
    show "real_of_int (- \<lfloor>x\<rfloor> - 1) \<le> - x" by simp linarith
    show "- x < real_of_int (- \<lfloor>x\<rfloor> - 1) + 1" using False by simp linarith
  qed
  show ?thesis unfolding rne_def Let_def fl by (auto simp: field_simps)
qed

subsection \<open>Rounding to 53 bits\<close>

definition fexp :: "real \<Rightarrow> int" where
  "fexp x = \<lfloor>log 2 \<bar>x\<bar>\<rfloor> - 52"

definition fl :: "real \<Rightarrow> real" where
  "fl x = (if x = 0 then 0 else of_int (rne (x / 2 powi fexp x)) * 2 powi fexp x)"

lemma fl_0 [simp]: "fl 0 = 0"
  by (simp add: fl_def)

lemma fl_minus: "fl (- x) = - fl x"
  by (simp add: fl_def fexp_def rne_minus)

text \<open>The scaled significand of a positive number lies in the 53-bit range.\<close>

lemma fexp_range:
  assumes "0 < x"
  shows "2 ^ 52 \<le> x / 2 powi fexp x" and "x / 2 powi fexp x < 2 ^ 53"
proof -
  let ?e = "\<lfloor>log 2 x\<rfloor>"
  have lo: "2 powr of_int ?e \<le> x"
    using assms by (metis le_log_iff of_int_floor_le one_less_numeral_iff semiring_norm(76))
  have hi: "x < 2 powr (of_int ?e + 1)"
    using assms by (metis floor_correct less_log_iff log_less_iff one_less_numeral_iff semiring_norm(76) of_int_add of_int_1)
  have e: "(2::real) powi fexp x = 2 powr of_int ?e / 2 ^ 52"
    using assms by (simp add: fexp_def power_int_diff powr_real_of_int' )
  show "2 ^ 52 \<le> x / 2 powi fexp x" using lo assms by (simp add: e field_simps)
  show "x / 2 powi fexp x < 2 ^ 53" using hi by (simp add: e field_simps powr_add)
qed


lemma fl_pos_form:
  assumes "0 < x"
  shows "fl x = of_int (rne (x / 2 powi fexp x)) * 2 powi fexp x"
    and "2 ^ 52 \<le> rne (x / 2 powi fexp x)" and "rne (x / 2 powi fexp x) \<le> 2 ^ 53"
proof -
  show "fl x = of_int (rne (x / 2 powi fexp x)) * 2 powi fexp x"
    using assms by (simp add: fl_def)
  have "rne (of_int (2 ^ 52)) \<le> rne (x / 2 powi fexp x)"
    by (rule rne_mono) (use fexp_range(1) [OF assms] in simp)
  then show "2 ^ 52 \<le> rne (x / 2 powi fexp x)" by (simp only: rne_of_int)
  have "rne (x / 2 powi fexp x) \<le> rne (of_int (2 ^ 53))"
    by (rule rne_mono) (use fexp_range(2) [OF assms] in simp)
  then show "rne (x / 2 powi fexp x) \<le> 2 ^ 53" by (simp only: rne_of_int)
qed

lemma fl_pos: "0 < x \<Longrightarrow> 0 < fl x"
  using fl_pos_form(1,2) [of x] by (auto intro!: mult_pos_pos)

lemma fl_nonneg: "0 \<le> x \<Longrightarrow> 0 \<le> fl x"
  using fl_pos [of x] by (cases "x = 0") auto

lemma fl_eq_0_iff [simp]: "fl x = 0 \<longleftrightarrow> x = 0"
proof -
  have "x < 0 \<Longrightarrow> fl x < 0" using fl_pos [of "- x"] by (simp add: fl_minus)
  then show ?thesis using fl_pos [of x] by (cases x "0::real" rule: linorder_cases) auto
qed

lemma fl_mono_pos:
  assumes "0 < x" "x \<le> y"
  shows "fl x \<le> fl y"
proof -
  have y: "0 < y" using assms by simp
  have "fexp x \<le> fexp y"
    using assms y by (auto simp: fexp_def intro!: floor_mono)
  then consider "fexp x = fexp y" | "fexp x + 1 \<le> fexp y" by linarith
  then show ?thesis
  proof cases
    case 1
    have "rne (x / 2 powi fexp x) \<le> rne (y / 2 powi fexp x)"
      by (rule rne_mono) (use assms in \<open>simp add: divide_right_mono\<close>)
    then show ?thesis
      using fl_pos_form(1) [OF assms(1)] fl_pos_form(1) [OF y] 1
      by (simp add: mult_right_mono)
  next
    case 2
    have "real_of_int (rne (x / 2 powi fexp x)) \<le> real_of_int (2 ^ 53)"
      using fl_pos_form(3) [OF assms(1)] by linarith
    then have "fl x \<le> 2 ^ 53 * 2 powi fexp x"
      by (simp add: fl_pos_form(1) [OF assms(1)] mult_right_mono)
    also have "\<dots> = 2 ^ 52 * 2 powi (fexp x + 1)"
      by (simp add: power_int_add)
    also have "\<dots> \<le> 2 ^ 52 * 2 powi fexp y"
      using 2 by (intro mult_left_mono power_int_increasing) auto
    also have "\<dots> \<le> of_int (rne (y / 2 powi fexp y)) * 2 powi fexp y"
    proof (rule mult_right_mono)
      have "real_of_int (2 ^ 52) \<le> real_of_int (rne (y / 2 powi fexp y))"
        using fl_pos_form(2) [OF y] by linarith
      then show "2 ^ 52 \<le> real_of_int (rne (y / 2 powi fexp y))" by simp
    qed simp
    finally show ?thesis by (simp add: fl_pos_form(1) [OF y])
  qed
qed

lemma fl_mono: "x \<le> y \<Longrightarrow> fl x \<le> fl y"
proof -
  assume le: "x \<le> y"
  consider "0 < x" | "x \<le> 0" "0 \<le> y" | "y < 0" by linarith
  then show "fl x \<le> fl y"
  proof cases
    case 1 then show ?thesis using le by (rule fl_mono_pos)
  next
    case 2
    have "fl x \<le> 0" using fl_nonneg [of "- x"] 2 by (simp add: fl_minus)
    also have "0 \<le> fl y" using 2 by (simp add: fl_nonneg)
    finally show ?thesis .
  next
    case 3
    then show ?thesis using fl_mono_pos [of "- y" "- x"] le by (simp add: fl_minus)
  qed
qed

text \<open>The rounding error is half a unit in the last place: relatively \<open>2\<^sup>-\<^sup>5\<^sup>3\<close> at most.\<close>

lemma fl_error_pos: "0 < x \<Longrightarrow> \<bar>fl x - x\<bar> \<le> 2 powi fexp x / 2"
proof -
  assume x: "0 < x"
  let ?p = "2 powi fexp x :: real"
  have "fl x - x = (of_int (rne (x / ?p)) - x / ?p) * ?p"
    by (simp add: fl_pos_form(1) [OF x] field_simps)
  then have "\<bar>fl x - x\<bar> = \<bar>of_int (rne (x / ?p)) - x / ?p\<bar> * ?p"
    by (simp add: abs_mult)
  also have "\<dots> \<le> 1/2 * ?p" by (intro mult_right_mono rne_error) simp
  finally show ?thesis by simp
qed

lemma fl_error: "\<bar>fl x - x\<bar> \<le> \<bar>x\<bar> / 2 ^ 53"
proof -
  have *: "\<bar>fl y - y\<bar> \<le> y / 2 ^ 53" if y: "0 < y" for y
  proof -
    have "2 powi fexp y * 2 ^ 52 \<le> y"
      using fexp_range(1) [OF y] by (simp add: field_simps)
    then have "2 powi fexp y / 2 \<le> y / 2 ^ 53" by simp
    then show ?thesis using fl_error_pos [OF y] by linarith
  qed
  show ?thesis
    using * [of x] * [of "- x"] by (cases x "0::real" rule: linorder_cases) (auto simp: fl_minus abs_if split: if_splits)
qed

text \<open>Integers of at most 53 bits are float64 values, so integer operations are exact.\<close>

lemma fl_upper: "0 \<le> x \<Longrightarrow> fl x \<le> (1 + 1 / 2 ^ 53) * x"
  using fl_error [of x] by (simp add: algebra_simps abs_if split: if_splits)

lemma fl_of_int [simp]:
  assumes "\<bar>n\<bar> \<le> 2 ^ 53"
  shows "fl (of_int n) = of_int n"
proof -
  have *: "fl (of_int m) = of_int m" if m: "0 < m" "m \<le> 2 ^ 53" for m
  proof (cases "m = 2 ^ 53")
    case True
    have "log 2 ((2::real) powr 53) = 53" by (subst log_powr_cancel) auto
    then have "log 2 ((2::real) ^ 53) = 53" by (simp only: powr_numeral)
    then have f: "fexp (2 ^ 53) = 1" by (simp add: fexp_def)
    have "rne (2 ^ 52) = 2 ^ 52" using rne_of_int [of "2 ^ 52"] by simp
    then show ?thesis using True f by (simp add: fl_def)
  next
    case False
    have "real_of_int m < 2 ^ 53" using False m(2) by (metis less_le of_int_less_iff of_int_numeral of_int_power)
    then have "log 2 (of_int m) < 53"
      using m by (simp add: log_less_iff powr_realpow)
    then have "\<lfloor>log 2 (of_int m :: real)\<rfloor> < 53" by linarith
    then have e: "fexp (of_int m) \<le> 0" using m by (simp add: fexp_def)
    then obtain k where k: "fexp (of_int m) = - int k" by (metis nonpos_int_cases)
    have "of_int m / 2 powi fexp (of_int m) = real_of_int (m * 2 ^ k)"
      by (simp add: k power_int_minus field_simps)
    then have "rne (of_int m / 2 powi fexp (of_int m)) = m * 2 ^ k" by (simp only: rne_of_int)
    then show ?thesis using m by (simp add: fl_def k power_int_minus field_simps)
  qed
  show ?thesis
    using * [of n] * [of "- n"] assms
    by (cases n "0::int" rule: linorder_cases) (auto simp: fl_minus abs_if split: if_splits)
qed

lemma fl_of_nat [simp]: "n \<le> 2 ^ 53 \<Longrightarrow> fl (of_nat n) = of_nat n"
  using fl_of_int [of "int n"] by simp

lemma fl_1 [simp]: "fl 1 = 1"
  using fl_of_int [of 1] by simp

lemma fl_numeral [simp]: "(numeral n :: int) \<le> 2 ^ 53 \<Longrightarrow> fl (numeral n) = numeral n"
  using fl_of_int [of "numeral n"] by simp

text \<open>Rounding twice is rounding once.\<close>

lemma fl_fl [simp]: "fl (fl x) = fl x"
proof -
  have *: "fl (fl y) = fl y" if y: "0 < y" for y
  proof -
    let ?n = "rne (y / 2 powi fexp y)" and ?p = "2 powi fexp y :: real"
    note F = fl_pos_form [OF y]
    consider "?n = 2 ^ 53" | "?n < 2 ^ 53" using F(3) by linarith
    then show ?thesis
    proof cases
      case 1
      have f: "fl y = 2 powi (fexp y + 53)" by (simp add: F(1) 1 power_int_add)
      have e: "fexp (fl y) = fexp y + 1"
        unfolding f by (simp add: fexp_def powr_real_of_int' [symmetric])
      have q: "fl y / 2 powi fexp (fl y) = real_of_int (2 ^ 52)"
        unfolding e by (simp add: f power_int_add)
      have r: "rne (fl y / 2 powi fexp (fl y)) = 2 ^ 52" by (simp only: q rne_of_int)
      have "fl (fl y) = of_int (rne (fl y / 2 powi fexp (fl y))) * 2 powi fexp (fl y)"
        using fl_pos [OF y] y by (simp add: fl_def [of "fl y"])
      then have "fl (fl y) = of_int (2 ^ 52) * 2 powi fexp (fl y)" unfolding r .
      then have "fl (fl y) = real_of_int (2 ^ 52) * 2 powi (fexp y + 1)" unfolding e .
      then show ?thesis by (simp add: f power_int_add)
    next
      case 2
      have lo: "(2::real) ^ 52 \<le> of_int ?n" and hi: "of_int ?n < (2::real) ^ 53"
        using F(2) 2 by (metis of_int_le_iff of_int_numeral of_int_power,
                         metis of_int_less_iff of_int_numeral of_int_power)
      have "\<lfloor>log 2 (fl y)\<rfloor> = fexp y + 52"
      proof (rule floor_unique)
        have n: "0 < real_of_int ?n" by (rule less_le_trans [OF _ lo]) simp
        have l: "log 2 (fl y) = log 2 (of_int ?n) + fexp y"
          using n by (simp add: F(1) log_mult powr_real_of_int' [symmetric])
        have "52 \<le> log 2 (of_int ?n)" using lo n by (simp add: le_log_iff powr_realpow)
        then show "real_of_int (fexp y + 52) \<le> log 2 (fl y)" using l by simp
        have "log 2 (of_int ?n) < 53" using hi n by (simp add: log_less_iff powr_realpow)
        then show "log 2 (fl y) < real_of_int (fexp y + 52) + 1" using l by simp
      qed
      then have e: "fexp (fl y) = fexp y" using fl_pos [OF y] by (simp add: fexp_def)
      have "fl y / ?p = of_int ?n" by (simp add: F(1))
      then have "rne (fl y / ?p) = ?n" by (simp only: rne_of_int)
      then have "rne (fl y / 2 powi fexp (fl y)) = ?n" unfolding e .
      then have "fl (fl y) = of_int ?n * 2 powi fexp (fl y)"
        using fl_pos [OF y] y by (simp add: fl_def [of "fl y"])
      then have "fl (fl y) = of_int ?n * 2 powi fexp y" unfolding e .
      then show ?thesis by (simp only: F(1) [symmetric])
    qed
  qed
  show ?thesis
    using * [of x] * [of "- x"] by (cases x "0::real" rule: linorder_cases) (auto simp: fl_minus)
qed


subsection \<open>Execution\<close>

lemma bitlen_pos: "0 < n \<Longrightarrow> 0 < bitlen n"
  using bitlen_nonneg [of n] bitlen_eq_zero_iff [of n] by linarith

lemma floor_log2_ge_1:
  assumes "1 \<le> a"
  shows "\<lfloor>log 2 a\<rfloor> = bitlen \<lfloor>a\<rfloor> - 1"
proof -
  let ?n = "\<lfloor>a\<rfloor>"
  have n: "0 < ?n" using assms by simp
  have b: "2 ^ nat (bitlen ?n - 1) \<le> ?n" "?n < 2 ^ nat (bitlen ?n)"
    using bitlen_bounds [OF n] by auto
  have pos: "0 < bitlen ?n" using n by (rule bitlen_pos)
  have k: "int (nat (bitlen ?n - 1)) = bitlen ?n - 1" using pos by linarith
  have "real_of_int (2 ^ nat (bitlen ?n - 1)) \<le> a" using b(1) by (simp only: le_floor_iff)
  then have lo: "2 powr (bitlen ?n - 1) \<le> a"
    using k by (metis of_int_numeral of_int_of_nat_eq of_int_power powr_realpow zero_less_numeral)
  have "a < real_of_int (2 ^ nat (bitlen ?n))" using b(2) by (simp only: floor_less_iff)
  then have hi: "a < 2 powr (bitlen ?n)"
    using pos by (metis int_nat_eq less_imp_le of_int_numeral of_int_of_nat_eq of_int_power powr_realpow zero_less_numeral)
  show ?thesis
    using lo hi assms by (intro floor_unique) (auto simp: le_log_iff log_less_iff)
qed

lemma fexp_code [code]:
  "fexp x = (let a = \<bar>x\<bar> in
     if 1 \<le> a then bitlen \<lfloor>a\<rfloor> - 53
     else if 0 < a then - bitlen (\<lceil>1 / a\<rceil> - 1) - 52 else - 52)"
proof -
  let ?a = "\<bar>x\<bar>"
  consider "1 \<le> ?a" | "0 < ?a" "?a < 1" | "x = 0" by linarith
  then show ?thesis
  proof cases
    case 1 then show ?thesis by (simp add: fexp_def floor_log2_ge_1)
  next
    case 2
    let ?m = "\<lceil>1 / ?a\<rceil> - 1"
    have m: "0 < ?m" using 2 by (simp add: less_ceiling_iff field_simps)
    have b: "2 ^ nat (bitlen ?m - 1) \<le> ?m" "?m < 2 ^ nat (bitlen ?m)"
      using bitlen_bounds [OF m] by auto
    have pos: "0 < bitlen ?m" using m by (rule bitlen_pos)
    have k: "int (nat (bitlen ?m - 1)) = bitlen ?m - 1" using pos by linarith
    have "real_of_int (2 ^ nat (bitlen ?m - 1)) < 1 / ?a"
      using b(1) by (simp only: less_ceiling_iff [symmetric]) 
    then have lo: "2 powr (bitlen ?m - 1) < 1 / ?a"
      using k by (metis of_int_numeral of_int_of_nat_eq of_int_power powr_realpow zero_less_numeral)
    have "1 / ?a \<le> real_of_int (2 ^ nat (bitlen ?m))" using b(2) by (simp only: ceiling_le_iff [symmetric])
    then have hi: "1 / ?a \<le> 2 powr (bitlen ?m)"
      using pos by (metis int_nat_eq less_imp_le of_int_numeral of_int_of_nat_eq of_int_power powr_realpow zero_less_numeral)
    have l: "log 2 (1 / ?a) = - log 2 ?a" using 2 by (simp add: log_divide)
    have "bitlen ?m - 1 < - log 2 ?a" "- log 2 ?a \<le> bitlen ?m"
      using lo hi 2 l [symmetric] by (simp_all add: less_log_iff log_le_iff)
    then have "\<lfloor>log 2 ?a\<rfloor> = - bitlen ?m"
      by (intro floor_unique) simp_all
    then show ?thesis using 2 by (simp add: fexp_def)
  next
    case 3 then show ?thesis by (simp add: fexp_def log_def)
  qed
qed

subsection \<open>Conversions\<close>

text \<open>
  \<open>int64(x)\<close> discards the fraction. A value outside int64 has an implementation-dependent
  result (the Go specification), which is the parameter \<open>oor\<close>.
\<close>

definition trunc :: "real \<Rightarrow> int" where
  "trunc x = (if 0 \<le> x then \<lfloor>x\<rfloor> else \<lceil>x\<rceil>)"

definition f2i64 :: "int \<Rightarrow> real \<Rightarrow> int" where
  "f2i64 oor x = (let n = trunc x in if - (2 ^ 63) \<le> n \<and> n < 2 ^ 63 then n else oor)"

text \<open>
  \<open>math.Pow(x, y)\<close> for an integral \<open>y\<close>, by the square-and-multiply loop of the Go library. The library
  keeps mantissa and exponent apart; with an unbounded exponent that is rounding each product with
  \<open>fl\<close>.
\<close>

fun pow_loop :: "real \<Rightarrow> real \<Rightarrow> nat \<Rightarrow> real" where
  "pow_loop a x i =
     (if i = 0 then a else pow_loop (if odd i then fl (a * x) else a) (fl (x * x)) (i div 2))"

declare pow_loop.simps [simp del]

definition go_pow :: "real \<Rightarrow> int \<Rightarrow> real" where
  "go_pow x n = (if 0 \<le> n then pow_loop 1 x (nat n) else fl (1 / pow_loop 1 x (nat (- n))))"

lemma pow_loop_0 [simp]: "pow_loop a x 0 = a"
  by (simp add: pow_loop.simps)

lemma pow_loop_mono: "0 \<le> x \<Longrightarrow> a \<le> b \<Longrightarrow> pow_loop a x i \<le> pow_loop b x i"
proof (induction a x i arbitrary: b rule: pow_loop.induct)
  case (1 a x i)
  show ?case
  proof (cases "i = 0")
    case False
    have "fl (a * x) \<le> fl (b * x)" using 1(2,3) by (intro fl_mono mult_right_mono)
    moreover have "0 \<le> fl (x * x)" by (intro fl_nonneg) simp
    ultimately show ?thesis
      using False 1(1) [OF False, of "if odd i then fl (b * x) else b"] 1(3)
      by (simp add: pow_loop.simps [of _ x i])
  qed (simp add: 1)
qed

lemma fl_square_ge:
  assumes "1 \<le> x" "fl x = x"
  shows "x \<le> fl (x * x)"
proof -
  have "fl x \<le> fl (x * x)" using assms(1) by (intro fl_mono) simp
  then show ?thesis using assms(2) by simp
qed

lemma pow_loop_carry:
  assumes "1 \<le> x" "fl x = x" "0 \<le> c" "c \<le> x"
  shows "pow_loop c x i \<le> pow_loop 1 x (Suc i)"
  using assms
proof (induction i arbitrary: c x rule: less_induct)
  case (less i)
  have sq: "x \<le> fl (x * x)" using less.prems(1,2) by (rule fl_square_ge)
  show ?case
  proof (cases "even i")
    case True
    have "pow_loop c x i = pow_loop c (fl (x * x)) (i div 2)"
      using True by (cases "i = 0") (simp_all add: pow_loop.simps [of _ x i])
    also have "\<dots> \<le> pow_loop x (fl (x * x)) (i div 2)"
      using less.prems sq by (intro pow_loop_mono) simp_all
    also have "\<dots> = pow_loop 1 x (Suc i)"
      using True less.prems(2) by (simp add: pow_loop.simps [of _ x "Suc i"])
    finally show ?thesis .
  next
    case False
    then have i: "i \<noteq> 0" "i div 2 < i" "Suc i div 2 = Suc (i div 2)" by (auto elim: oddE)
    have c: "fl (c * x) \<le> fl (x * x)" using less.prems by (intro fl_mono mult_right_mono) simp_all
    have "pow_loop c x i = pow_loop (fl (c * x)) (fl (x * x)) (i div 2)"
      using False i(1) by (simp add: pow_loop.simps [of _ x i])
    also have "\<dots> \<le> pow_loop 1 (fl (x * x)) (Suc (i div 2))"
      using less.prems sq c by (intro less.IH i(2) fl_nonneg) simp_all
    also have "\<dots> = pow_loop 1 x (Suc i)"
      using False i(3) by (simp add: pow_loop.simps [of _ x "Suc i"])
    finally show ?thesis .
  qed
qed

text \<open>A factor of at least one does not make the power smaller, whatever the rounding does.\<close>

lemma go_pow_mono:
  assumes "1 \<le> x" "fl x = x" "0 \<le> m" "m \<le> n"
  shows "go_pow x m \<le> go_pow x n"
proof -
  have "pow_loop 1 x i \<le> pow_loop 1 x (i + k)" for i k
  proof (induction k)
    case (Suc k)
    also have "pow_loop 1 x (i + k) \<le> pow_loop 1 x (Suc (i + k))"
      using assms(1,2) by (intro pow_loop_carry) simp_all
    finally show ?case by simp
  qed simp
  from this [of "nat m" "nat n - nat m"] assms(3,4) show ?thesis by (simp add: go_pow_def)
qed

lemma go_pow_0 [simp]: "go_pow x 0 = 1"
  by (simp add: go_pow_def)

lemma go_pow_ge_1: "1 \<le> x \<Longrightarrow> fl x = x \<Longrightarrow> 0 \<le> n \<Longrightarrow> 1 \<le> go_pow x n"
  using go_pow_mono [of x 0 n] by simp

lemma trunc_of_int [simp]: "trunc (of_int n) = n"
  by (simp add: trunc_def)

lemma trunc_mono: "x \<le> y \<Longrightarrow> trunc x \<le> trunc y"
proof (cases "x < 0 \<and> 0 \<le> y")
  case True
  then have "\<lceil>x\<rceil> \<le> 0" "0 \<le> \<lfloor>y\<rfloor>" by auto
  then have "\<lceil>x\<rceil> \<le> \<lfloor>y\<rfloor>" by (rule order_trans)
  then show ?thesis using True by (simp add: trunc_def)
qed (auto simp: trunc_def intro: floor_mono ceiling_mono)

end
