(* ===== verification/Go_Time.thy ===== *)
theory Go_Time
  imports Go_Float "HOL-Library.Signed_Division"
begin

text \<open>
  \<open>time.Time\<close> is an instant in nanoseconds since the Unix epoch; \<open>time.Duration\<close> is a number of
  nanoseconds, an int64 in Go. Durations of the program stay far inside int64 (292 years); the one
  place where the code can leave the range, \<open>Time.Sub\<close>, saturates as Go's does.
\<close>

type_synonym time = int
type_synonym duration = int

definition second :: duration where "second = 1000000000"
definition minute :: duration where "minute = 60 * second"
definition hour :: duration where "hour = 60 * minute"

definition max_duration :: duration where "max_duration = 2 ^ 63 - 1"
definition min_duration :: duration where "min_duration = - (2 ^ 63)"

text \<open>The zero \<open>Time\<close>: 1 January of year 1, UTC.\<close>

definition zero_time :: time where "zero_time = - 62135596800 * 1000000000"

text \<open>\<open>t.Sub(u)\<close>.\<close>

definition time_sub :: "time \<Rightarrow> time \<Rightarrow> duration" where
  "time_sub t u = max min_duration (min max_duration (t - u))"

text \<open>\<open>d.Seconds()\<close>: \<open>float64(d / Second) + float64(d % Second) / 1e9\<close>.\<close>

definition dur_seconds :: "duration \<Rightarrow> real" where
  "dur_seconds d = fl (fl (of_int (d sdiv second)) + fl (fl (of_int (d smod second)) / 1000000000))"

text \<open>\<open>time.Unix(s, 0)\<close> and \<open>t.Unix()\<close>.\<close>

definition of_unix :: "int \<Rightarrow> time" where "of_unix s = s * second"
definition to_unix :: "time \<Rightarrow> int" where "to_unix t = t div second"

lemma second_pos [simp]: "0 < second" by (simp add: second_def)

lemma time_sub_exact [simp]:
  "min_duration \<le> t - u \<Longrightarrow> t - u \<le> max_duration \<Longrightarrow> time_sub t u = t - u"
  by (simp add: time_sub_def)

lemma time_sub_self [simp]: "time_sub t t = 0"
  by (simp add: time_sub_def max_duration_def min_duration_def)

lemma time_sub_pos_iff [simp]: "0 < time_sub t u \<longleftrightarrow> u < t"
  by (auto simp: time_sub_def max_duration_def min_duration_def)

lemma sdiv_smod_nonneg: "0 \<le> d \<Longrightarrow> d sdiv second = d div second \<and> d smod second = d mod second"
  by (cases "d = 0") (simp_all add: signed_divide_int_def signed_modulo_int_def second_def)

lemma dur_seconds_nonneg:
  assumes "0 \<le> d"
  shows "0 \<le> dur_seconds d"
proof -
  have "0 \<le> d sdiv second" "0 \<le> d smod second"
    using assms sdiv_smod_nonneg [OF assms] by (simp_all add: second_def pos_imp_zdiv_nonneg_iff)
  then show ?thesis
    unfolding dur_seconds_def by (intro fl_nonneg add_nonneg_nonneg divide_nonneg_nonneg) simp_all
qed

text \<open>A whole number of seconds converts exactly.\<close>

lemma dur_seconds_whole:
  assumes "0 \<le> s" "s \<le> 2 ^ 53"
  shows "dur_seconds (s * second) = of_int s"
proof -
  have "(s * second) sdiv second = s" "(s * second) smod second = 0"
    using sdiv_smod_nonneg [of "s * second"] assms(1) by (simp_all add: second_def)
  then show ?thesis using assms by (simp add: dur_seconds_def)
qed

lemma unix_roundtrip [simp]: "to_unix (of_unix s) = s"
  by (simp add: to_unix_def of_unix_def second_def)

end
