(* ===== verification/Ratelimit.thy ===== *)
theory Ratelimit
  imports Go_Prelude Go_Time
begin

text \<open>
  \<^verbatim>\<open>internal/ratelimit/ratelimit.go\<close>: the token buckets. \<open>bucket\<close> with \<open>refill\<close>, the per-IP limiter
  (\<open>per_ip\<close>: \<open>per_ip_allow\<close>, \<open>per_ip_gc\<close>, \<open>evict_lru\<close>) and the global limiter (\<open>global_allow\<close>,
  \<open>global_remaining\<close>). Token counts are float64 values: every operation rounds with \<open>fl\<close>. The
  argument \<open>now\<close> of an operation is what its call of \<open>time.Now\<close> returned, \<open>ord\<close> the order in which
  the map is ranged over.
\<close>

section \<open>The code\<close>

record bucket =
  bk_tokens :: real
  bk_last :: time

definition refill :: "bucket \<Rightarrow> time \<Rightarrow> real \<Rightarrow> real \<Rightarrow> bucket" where
  "refill b now rps burst =
     (let elapsed = dur_seconds (time_sub now (bk_last b)) in
      if 0 < elapsed then
        (let t = fl (bk_tokens b + fl (elapsed * rps))
         in b\<lparr>bk_tokens := (if burst < t then burst else t), bk_last := now\<rparr>)
      else b)"

text \<open>\<open>if b.tokens >= 1 { b.tokens--; return true }; return false\<close>.\<close>

definition take_token :: "bucket \<Rightarrow> bool \<times> bucket" where
  "take_token b = (if 1 \<le> bk_tokens b then (True, b\<lparr>bk_tokens := fl (bk_tokens b - 1)\<rparr>) else (False, b))"

record per_ip =
  pl_buckets :: "(string, bucket) fmap"
  pl_rps :: real
  pl_burst :: real
  pl_max_keys :: int
  pl_stopped :: bool

definition new_per_ip :: "real \<Rightarrow> real \<Rightarrow> int \<Rightarrow> per_ip" where
  "new_per_ip rps burst max_keys =
     \<lparr>pl_buckets = fmempty, pl_rps = rps, pl_burst = burst, pl_max_keys = max_keys, pl_stopped = False\<rparr>"

text \<open>The loop of \<open>evictLocked\<close>: \<open>oldest\<close>, \<open>victim\<close> and \<open>first\<close> are its variables.\<close>

fun lru_scan :: "(string, bucket) fmap \<Rightarrow> string list \<Rightarrow> time \<Rightarrow> string \<Rightarrow> bool \<Rightarrow> string" where
  "lru_scan m [] oldest victim first = victim"
| "lru_scan m (k # ks) oldest victim first =
     (case fmlookup m k of
        None \<Rightarrow> lru_scan m ks oldest victim first
      | Some b \<Rightarrow>
          if first \<or> bk_last b < oldest then lru_scan m ks (bk_last b) k False
          else lru_scan m ks oldest victim first)"

definition evict_lru :: "string list \<Rightarrow> time \<Rightarrow> (string, bucket) fmap \<Rightarrow> (string, bucket) fmap" where
  "evict_lru ord now m =
     (let victim = lru_scan m ord zero_time [] True in if victim \<noteq> [] then fmdrop victim m else m)"

definition per_ip_allow :: "string list \<Rightarrow> time \<Rightarrow> string \<Rightarrow> per_ip \<Rightarrow> bool \<times> per_ip" where
  "per_ip_allow ord now key p =
     (let m = pl_buckets p;
          (m', b) = (case fmlookup m key of
              Some b \<Rightarrow> (m, b)
            | None \<Rightarrow>
                (if 0 < pl_max_keys p \<and> pl_max_keys p \<le> int (gm_len m) then evict_lru ord now m else m,
                 \<lparr>bk_tokens = pl_burst p, bk_last = now\<rparr>));
          (ok, b') = take_token (refill b now (pl_rps p) (pl_burst p))
      in (ok, p\<lparr>pl_buckets := fmupd key b' m'\<rparr>))"

definition per_ip_gc :: "duration \<Rightarrow> time \<Rightarrow> per_ip \<Rightarrow> per_ip" where
  "per_ip_gc idle now p =
     (let cutoff = now - idle in
      p\<lparr>pl_buckets := fmfilter (\<lambda>k. case fmlookup (pl_buckets p) k of
           None \<Rightarrow> True
         | Some b \<Rightarrow> \<not> (bk_last b < cutoff \<and> pl_burst p \<le> bk_tokens b)) (pl_buckets p)\<rparr>)"

definition per_ip_close :: "per_ip \<Rightarrow> per_ip" where
  "per_ip_close p = p\<lparr>pl_stopped := True\<rparr>"

record global_limiter =
  gl_b :: bucket
  gl_rps :: real
  gl_cap :: real

definition new_global :: "time \<Rightarrow> real \<Rightarrow> real \<Rightarrow> global_limiter" where
  "new_global now rps burst = \<lparr>gl_b = \<lparr>bk_tokens = burst, bk_last = now\<rparr>, gl_rps = rps, gl_cap = burst\<rparr>"

definition global_allow :: "time \<Rightarrow> global_limiter \<Rightarrow> bool \<times> global_limiter" where
  "global_allow now g =
     (let (ok, b) = take_token (refill (gl_b g) now (gl_rps g) (gl_cap g)) in (ok, g\<lparr>gl_b := b\<rparr>))"

definition global_remaining :: "time \<Rightarrow> global_limiter \<Rightarrow> real \<times> global_limiter" where
  "global_remaining now g =
     (let b = refill (gl_b g) now (gl_rps g) (gl_cap g)
      in (if gl_cap g \<le> 0 then 1 else fl (bk_tokens b / gl_cap g), g\<lparr>gl_b := b\<rparr>))"

section \<open>One bucket\<close>

text \<open>Elapsed time in seconds: positive exactly when the clock moved.\<close>

lemma dur_seconds_pos: "0 < d \<Longrightarrow> 0 < dur_seconds d"
proof -
  assume d: "0 < d"
  have s: "d sdiv second = d div second" "d smod second = d mod second"
    using sdiv_smod_nonneg [of d] d by simp_all
  have nn: "0 \<le> d div second" "0 \<le> d mod second"
    using d by (simp_all add: second_def pos_imp_zdiv_nonneg_iff)
  have "0 < d div second \<or> 0 < d mod second"
    using d nn by (metis add.right_neutral less_le mult_zero_right mult_div_mod_eq)
  then have "0 < fl (of_int (d div second)) + fl (fl (of_int (d mod second)) / 1000000000)"
  proof
    assume "0 < d div second"
    then show ?thesis using nn by (intro add_pos_nonneg fl_pos fl_nonneg divide_nonneg_nonneg) simp_all
  next
    assume "0 < d mod second"
    then show ?thesis using nn by (intro add_nonneg_pos fl_pos fl_nonneg divide_pos_pos) simp_all
  qed
  then show ?thesis unfolding dur_seconds_def s by (rule fl_pos)
qed

lemma elapsed_pos_iff: "0 < dur_seconds (time_sub t u) \<longleftrightarrow> u < t"
proof (cases "u < t")
  case True
  then show ?thesis by (simp add: dur_seconds_pos)
next
  case False
  define d where "d = time_sub t u"
  have d: "d \<le> 0" using False unfolding d_def by (metis not_less time_sub_pos_iff)
  have s: "d sdiv second = - ((- d) div second)" "d smod second = - ((- d) mod second)"
    using d by (cases "d = 0"; simp add: signed_divide_int_def signed_modulo_int_def second_def; fail)+
  define q r where "q = (- d) div second" and "r = (- d) mod second"
  have q: "fl (of_int (d sdiv second)) = - fl (of_int q)" and r: "fl (of_int (d smod second)) = - fl (of_int r)"
    unfolding s q_def r_def by (simp_all add: fl_minus)
  have "fl (- fl (of_int r) / 1000000000) = - fl (fl (of_int r) / 1000000000)"
    using fl_minus [of "fl (of_int r) / 1000000000"] by simp
  then have "dur_seconds d = fl (- (fl (of_int q) + fl (fl (of_int r) / 1000000000)))"
    unfolding dur_seconds_def q r by simp
  then have "dur_seconds d = - fl (fl (of_int q) + fl (fl (of_int r) / 1000000000))"
    by (simp only: fl_minus)
  moreover have "0 \<le> q" "0 \<le> r"
    using d unfolding q_def r_def by (simp_all add: second_def pos_imp_zdiv_nonneg_iff)
  moreover have "0 \<le> fl (fl (of_int q) + fl (fl (of_int r) / 1000000000))"
    using \<open>0 \<le> q\<close> \<open>0 \<le> r\<close> by (intro fl_nonneg add_nonneg_nonneg divide_nonneg_nonneg) simp_all
  ultimately have "dur_seconds d \<le> 0" by simp
  then show ?thesis using False by (simp add: d_def)
qed

lemma refill_now [simp]: "bk_last b = now \<Longrightarrow> refill b now rps burst = b"
  using elapsed_pos_iff [of now "bk_last b"] by (simp only: refill_def Let_def) simp

definition bucket_ok :: "real \<Rightarrow> bucket \<Rightarrow> bool" where
  "bucket_ok burst b \<longleftrightarrow> 0 \<le> bk_tokens b \<and> bk_tokens b \<le> burst"

lemma refill_ok [go_inv]:
  "bucket_ok burst b \<Longrightarrow> 0 \<le> rps \<Longrightarrow> bucket_ok burst (refill b now rps burst)"
  unfolding bucket_ok_def refill_def Let_def
  by (auto intro!: fl_nonneg add_nonneg_nonneg)

lemma take_token_ok [go_inv]:
  assumes "bucket_ok burst b" "fl burst = burst"
  shows "bucket_ok burst (snd (take_token b))"
proof -
  have "fl (bk_tokens b - 1) \<le> fl burst"
    by (rule fl_mono) (use assms(1) in \<open>simp add: bucket_ok_def\<close>)
  then show ?thesis using assms by (auto simp: bucket_ok_def take_token_def intro: fl_nonneg)
qed

text \<open>After a call of \<open>Allow\<close> a bucket is never full, for bursts a float64 counts exactly.\<close>

lemma fl_pred_less:
  assumes "1 \<le> x" "x \<le> 2 ^ 53"
  shows "fl (x - 1) < x"
proof -
  have "\<bar>fl (x - 1) - (x - 1)\<bar> \<le> \<bar>x - 1\<bar> / 2 ^ 53" by (rule fl_error)
  also have "\<dots> \<le> (2 ^ 53 - 1) / 2 ^ 53" using assms by (intro divide_right_mono) auto
  also have "\<dots> < 1" by simp
  finally show ?thesis by linarith
qed

lemma take_token_not_full:
  assumes "bucket_ok burst b" "1 \<le> burst" "burst \<le> 2 ^ 53"
  shows "bk_tokens (snd (take_token b)) < burst"
proof (cases "1 \<le> bk_tokens b")
  case True
  have "fl (bk_tokens b - 1) \<le> fl (burst - 1)"
    using assms(1) by (intro fl_mono) (simp add: bucket_ok_def)
  also have "\<dots> < burst" using assms(2,3) by (rule fl_pred_less)
  finally show ?thesis using True by (simp add: take_token_def)
next
  case False
  then show ?thesis using assms(2) by (simp add: take_token_def)
qed


section \<open>Eviction\<close>

text \<open>What the scan returns: the running victim, or a key whose bucket is older than everything seen.\<close>

lemma lru_scan_spec:
  "(lru_scan m ks oldest v first = v \<and> (\<forall>k\<in>set ks. \<forall>b. fmlookup m k = Some b \<longrightarrow> \<not> first \<and> oldest \<le> bk_last b)) \<or>
   (\<exists>b. lru_scan m ks oldest v first \<in> set ks \<and> fmlookup m (lru_scan m ks oldest v first) = Some b \<and>
      (first \<or> bk_last b < oldest) \<and>
      (\<forall>k\<in>set ks. \<forall>b'. fmlookup m k = Some b' \<longrightarrow> bk_last b \<le> bk_last b'))"
proof (induction m ks oldest v first rule: lru_scan.induct)
  case (1 m oldest v first)
  then show ?case by simp
next
  case (2 m k ks oldest v first)
  show ?case
  proof (cases "fmlookup m k")
    case None
    then show ?thesis using 2(1) by auto
  next
    case (Some b)
    show ?thesis
    proof (cases "first \<or> bk_last b < oldest")
      case True
      have eq: "lru_scan m (k # ks) oldest v first = lru_scan m ks (bk_last b) k False"
        using Some True by simp
      show ?thesis using 2(2) [OF Some True]
      proof (rule disjE)
        assume "lru_scan m ks (bk_last b) k False = k \<and>
          (\<forall>k\<in>set ks. \<forall>b'. fmlookup m k = Some b' \<longrightarrow> \<not> False \<and> bk_last b \<le> bk_last b')"
        then show ?thesis using Some True by (intro disjI2 exI [of _ b]) auto
      next
        assume "\<exists>b'. lru_scan m ks (bk_last b) k False \<in> set ks \<and>
          fmlookup m (lru_scan m ks (bk_last b) k False) = Some b' \<and> (False \<or> bk_last b' < bk_last b) \<and>
          (\<forall>k\<in>set ks. \<forall>c. fmlookup m k = Some c \<longrightarrow> bk_last b' \<le> bk_last c)"
        then obtain b' where "lru_scan m ks (bk_last b) k False \<in> set ks"
          "fmlookup m (lru_scan m ks (bk_last b) k False) = Some b'" "bk_last b' < bk_last b"
          "\<forall>k\<in>set ks. \<forall>c. fmlookup m k = Some c \<longrightarrow> bk_last b' \<le> bk_last c" by auto
        then show ?thesis using Some True by (intro disjI2 exI [of _ b']) auto
      qed
    next
      case False
      then have eq: "lru_scan m (k # ks) oldest v first = lru_scan m ks oldest v first" and
        o: "\<not> first" "oldest \<le> bk_last b" using Some by auto
      show ?thesis using 2(3) [OF Some False]
      proof (rule disjE)
        assume "lru_scan m ks oldest v first = v \<and>
          (\<forall>k\<in>set ks. \<forall>b. fmlookup m k = Some b \<longrightarrow> \<not> first \<and> oldest \<le> bk_last b)"
        then show ?thesis using Some o by (intro disjI1) auto
      next
        assume "\<exists>b. lru_scan m ks oldest v first \<in> set ks \<and>
          fmlookup m (lru_scan m ks oldest v first) = Some b \<and> (first \<or> bk_last b < oldest) \<and>
          (\<forall>k\<in>set ks. \<forall>c. fmlookup m k = Some c \<longrightarrow> bk_last b \<le> bk_last c)"
        then obtain b' where "lru_scan m ks oldest v first \<in> set ks"
          "fmlookup m (lru_scan m ks oldest v first) = Some b'" "bk_last b' < oldest"
          "\<forall>k\<in>set ks. \<forall>c. fmlookup m k = Some c \<longrightarrow> bk_last b' \<le> bk_last c" using o(1) by auto
        then show ?thesis using Some o by (intro disjI2 exI [of _ b']) auto
      qed
    qed
  qed
qed

lemma lru_scan_victim:
  assumes "enumerates ks m" and "m \<noteq> fmempty"
  shows "\<exists>b. fmlookup m (lru_scan m ks t v True) = Some b \<and>
    (\<forall>k b'. fmlookup m k = Some b' \<longrightarrow> bk_last b \<le> bk_last b')"
proof -
  have s: "k \<in> set ks" if "fmlookup m k = Some b" for k b
    using that enumerates_set [OF assms(1)] by (simp add: fmdom'I)
  from assms(2) obtain k b where "fmlookup m k = Some b"
    by (metis fmap_ext fmempty_lookup option.exhaust)
  then show ?thesis using lru_scan_spec [of m ks t v True] s by meson
qed

interpretation lru: evicting evict_lru
proof
  fix ks :: "string list" and now :: int and m :: "(string, bucket) fmap" and k b
  show "fmlookup m k = Some b" if "fmlookup (evict_lru ks now m) k = Some b"
    using that by (auto simp: evict_lru_def Let_def split: if_splits)
  show "gm_len m \<le> Suc (gm_len (evict_lru ks now m))"
    by (simp add: evict_lru_def Let_def gm_len_drop; linarith)
  show "gm_len (evict_lru ks now m) < gm_len m"
    if m: "enumerates ks m" "m \<noteq> fmempty" "fmlookup m [] = None"
  proof -
    obtain b where b: "fmlookup m (lru_scan m ks zero_time [] True) = Some b"
      using lru_scan_victim [OF m(1,2), of zero_time "[]"] by (elim exE conjE)
    then have "lru_scan m ks zero_time [] True \<noteq> []" using m(3) by auto
    then show ?thesis using b gm_len_pos [OF b] by (simp add: evict_lru_def gm_len_drop)
  qed
qed

section \<open>The per-IP table\<close>

definition served :: "time \<Rightarrow> string \<Rightarrow> per_ip \<Rightarrow> bool \<times> bucket" where
  "served now key p = take_token (refill
     (case fmlookup (pl_buckets p) key of Some b \<Rightarrow> b | None \<Rightarrow> \<lparr>bk_tokens = pl_burst p, bk_last = now\<rparr>)
     now (pl_rps p) (pl_burst p))"

lemma per_ip_allow_eq:
  "per_ip_allow ord now key p =
     (fst (served now key p),
      p\<lparr>pl_buckets := fmupd key (snd (served now key p))
        (if 0 < pl_max_keys p then lru.room (pl_max_keys p) ord now key (pl_buckets p) else pl_buckets p)\<rparr>)"
  by (auto simp: per_ip_allow_def served_def lru.room_def Let_def split: option.splits prod.splits)

definition per_ip_inv :: "real \<Rightarrow> real \<Rightarrow> int \<Rightarrow> per_ip \<Rightarrow> bool" where
  "per_ip_inv rps burst cap p \<longleftrightarrow>
     0 \<le> rps \<and> 0 \<le> burst \<and> fl burst = burst \<and> 1 \<le> cap \<and> pl_rps p = rps \<and> pl_burst p = burst \<and> pl_max_keys p = cap \<and>
     int (gm_len (pl_buckets p)) \<le> cap \<and> fmlookup (pl_buckets p) [] = None \<and>
     fmpred (\<lambda>_ b. bucket_ok burst b \<and> (1 \<le> burst \<and> burst \<le> 2 ^ 53 \<longrightarrow> bk_tokens b < burst)) (pl_buckets p)"

datatype per_ip_call =
  PAllow "string list" time string
| PGc duration time
| PClose

fun per_ip_step :: "per_ip_call \<Rightarrow> per_ip \<Rightarrow> per_ip" where
  "per_ip_step (PAllow ord now key) p = snd (per_ip_allow ord now key p)"
| "per_ip_step (PGc idle now) p = per_ip_gc idle now p"
| "per_ip_step PClose p = per_ip_close p"

text \<open>Callers pass an address, never the empty string; the range visits every key once.\<close>

fun per_ip_legal :: "per_ip \<Rightarrow> per_ip_call \<Rightarrow> bool" where
  "per_ip_legal p (PAllow ord now key) \<longleftrightarrow> enumerates ord (pl_buckets p) \<and> key \<noteq> []"
| "per_ip_legal p c \<longleftrightarrow> True"

lemma served_ok:
  assumes "per_ip_inv rps burst cap p"
  shows "bucket_ok burst (snd (served now key p))"
    and "1 \<le> burst \<Longrightarrow> burst \<le> 2 ^ 53 \<Longrightarrow> bk_tokens (snd (served now key p)) < burst"
proof -
  let ?b = "case fmlookup (pl_buckets p) key of Some b \<Rightarrow> b | None \<Rightarrow> \<lparr>bk_tokens = pl_burst p, bk_last = now\<rparr>"
  have "bucket_ok burst ?b"
    using assms by (auto simp: per_ip_inv_def bucket_ok_def dest: fmpredD split: option.splits)
  moreover have p: "0 \<le> rps" "fl burst = burst" using assms by (simp_all add: per_ip_inv_def)
  ultimately have r: "bucket_ok burst (refill ?b now rps burst)" by (intro refill_ok)
  have s: "served now key p = take_token (refill ?b now rps burst)"
    using assms by (simp add: served_def per_ip_inv_def)
  show "bucket_ok burst (snd (served now key p))" unfolding s using r p(2) by (rule take_token_ok)
  show "bk_tokens (snd (served now key p)) < burst" if "1 \<le> burst" "burst \<le> 2 ^ 53"
    unfolding s using r that by (rule take_token_not_full)
qed

lemma per_ip_step_inv [go_inv]:
  assumes inv: "per_ip_inv rps burst cap p" and legal: "per_ip_legal p c"
  shows "per_ip_inv rps burst cap (per_ip_step c p)"
proof (cases c)
  case (PAllow ord now key)
  let ?m = "lru.room cap ord now key (pl_buckets p)"
  have e: "enumerates ord (pl_buckets p)" "key \<noteq> []" using legal PAllow by auto
  have cap: "pl_max_keys p = cap" using inv by (simp add: per_ip_inv_def)
  have bound: "int (gm_len (fmupd key (snd (served now key p)) ?m)) \<le> cap"
    using inv e by (intro lru.room_insert_bound) (auto simp: per_ip_inv_def)
  have no_empty: "fmlookup ?m [] = None"
  proof (cases "fmlookup ?m []")
    case (Some b)
    then have "fmlookup (pl_buckets p) [] = Some b" by (rule lru.room_lookup)
    then show ?thesis using inv by (simp add: per_ip_inv_def)
  qed
  have "fmpred (\<lambda>_ b. bucket_ok burst b \<and> (1 \<le> burst \<and> burst \<le> 2 ^ 53 \<longrightarrow> bk_tokens b < burst)) ?m"
  proof (rule fmpred_iff [THEN iffD2], intro allI impI)
    fix k b
    assume "fmlookup ?m k = Some b"
    then have "fmlookup (pl_buckets p) k = Some b" by (rule lru.room_lookup)
    then show "bucket_ok burst b \<and> (1 \<le> burst \<and> burst \<le> 2 ^ 53 \<longrightarrow> bk_tokens b < burst)"
      using inv unfolding per_ip_inv_def by (blast dest: fmpredD)
  qed
  then show ?thesis using inv served_ok [OF inv] bound no_empty e
    by (auto simp: PAllow per_ip_allow_eq cap per_ip_inv_def)
next
  case (PGc idle now)
  have "gm_len (pl_buckets (per_ip_gc idle now p)) \<le> gm_len (pl_buckets p)"
    by (simp add: per_ip_gc_def gm_len_filter)
  then show ?thesis using inv by (auto simp: PGc per_ip_inv_def per_ip_gc_def fmpred_iff)
next
  case PClose
  then show ?thesis using inv by (simp add: per_ip_inv_def per_ip_close_def)
qed

interpretation pip: invariant per_ip_step per_ip_legal "per_ip_inv rps burst cap" for rps burst cap
  by unfold_locales (rule per_ip_step_inv)

lemma new_per_ip_inv:
  "0 \<le> rps \<Longrightarrow> 0 \<le> burst \<Longrightarrow> fl burst = burst \<Longrightarrow> 1 \<le> cap \<Longrightarrow>
   per_ip_inv rps burst cap (new_per_ip rps burst cap)"
  by (simp add: per_ip_inv_def new_per_ip_def)

lemma gc_keeps_unfilled:
  assumes "per_ip_inv rps burst cap p" "1 \<le> burst" "burst \<le> 2 ^ 53"
  shows "per_ip_gc idle now p = p"
proof -
  have "\<not> (bk_last b < now - idle \<and> pl_burst p \<le> bk_tokens b)" if "fmlookup (pl_buckets p) k = Some b" for k b
    using assms that by (auto simp: per_ip_inv_def)
  then have "fmfilter (\<lambda>k. case fmlookup (pl_buckets p) k of None \<Rightarrow> True
      | Some b \<Rightarrow> \<not> (bk_last b < now - idle \<and> pl_burst p \<le> bk_tokens b)) (pl_buckets p) = pl_buckets p"
    by (intro fmap_ext) (auto split: option.splits)
  then show ?thesis by (simp add: per_ip_gc_def Let_def)
qed

section \<open>Properties\<close>

text \<open>
  Whatever sequence of \<open>Allow\<close>, \<open>gc\<close> and \<open>Close\<close> calls a per-IP limiter serves, its table never
  holds more than \<open>maxKeys\<close> buckets, so a flood of distinct source addresses cannot grow it, and every
  bucket holds between 0 and \<open>burst\<close> tokens.
\<close>

theorem per_ip_bounded:
  assumes "0 \<le> rps" and "0 \<le> burst" and "fl burst = burst" and "1 \<le> cap"
    and "legal_run per_ip_legal per_ip_step cs (new_per_ip rps burst cap)"
  shows "int (gm_len (pl_buckets (go_run per_ip_step cs (new_per_ip rps burst cap)))) \<le> cap \<and>
    fmpred (\<lambda>_ b. 0 \<le> bk_tokens b \<and> bk_tokens b \<le> burst)
      (pl_buckets (go_run per_ip_step cs (new_per_ip rps burst cap)))"
proof -
  have "per_ip_inv rps burst cap (go_run per_ip_step cs (new_per_ip rps burst cap))"
    using assms by (intro pip.run_keeps new_per_ip_inv)
  then show ?thesis by (auto simp: per_ip_inv_def bucket_ok_def fmpred_iff)
qed

theorem per_ip_bounded_witness:
  "int (gm_len (pl_buckets (go_run per_ip_step
      [PAllow [] 0 ''a'', PAllow [''a''] second ''b'', PGc 0 minute] (new_per_ip 2 1 1)))) \<le> 1"
  by (rule per_ip_bounded [THEN conjunct1])
    (simp_all add: new_per_ip_def per_ip_allow_def refill_def take_token_def)

text \<open>
  The idle collection reclaims nothing: after any history of calls, with a burst of at least one
  token, \<open>gc\<close> leaves the table as it is, however long the clients have been silent. A bucket is only
  topped up by the next request of its client, so a stored bucket is never full when \<open>gc\<close> looks.
\<close>

theorem gc_reclaims_nothing:
  assumes "0 \<le> rps" and "1 \<le> burst" and "burst \<le> 2 ^ 53" and "fl burst = burst" and "1 \<le> cap"
    and "legal_run per_ip_legal per_ip_step cs (new_per_ip rps burst cap)"
  shows "per_ip_gc idle now (go_run per_ip_step cs (new_per_ip rps burst cap)) =
    go_run per_ip_step cs (new_per_ip rps burst cap)"
  by (rule gc_keeps_unfilled, rule pip.run_keeps [OF new_per_ip_inv]) (use assms in auto)

theorem gc_reclaims_nothing_witness:
  "per_ip_gc minute (1000 * hour) (go_run per_ip_step [PAllow [] 0 ''1.2.3.4''] (new_per_ip 20 40 200000)) =
    go_run per_ip_step [PAllow [] 0 ''1.2.3.4''] (new_per_ip 20 40 200000)"
  by (rule gc_reclaims_nothing) (simp_all add: new_per_ip_def)

text \<open>
  The evicted bucket is a least recently used one: for a new client at a full table \<open>Allow\<close>
  deletes exactly one other bucket, one whose last refill is not later than that of any other, and
  keeps the rest as they are.
\<close>

theorem eviction_is_lru:
  assumes "enumerates ord (pl_buckets p)" and "fmlookup (pl_buckets p) [] = None"
    and "fmlookup (pl_buckets p) key = None"
    and "1 \<le> pl_max_keys p" and "pl_max_keys p \<le> int (gm_len (pl_buckets p))"
  shows "\<exists>v b. fmlookup (pl_buckets p) v = Some b \<and>
    (\<forall>k b'. fmlookup (pl_buckets p) k = Some b' \<longrightarrow> bk_last b \<le> bk_last b') \<and>
    (\<forall>k. fmlookup (pl_buckets (snd (per_ip_allow ord now key p))) k =
      (if k = key then Some (snd (served now key p)) else if k = v then None else fmlookup (pl_buckets p) k))"
proof -
  have "pl_buckets p \<noteq> fmempty" using assms(4,5) by auto
  from lru_scan_victim [OF assms(1) this, of zero_time "[]"] obtain b where
    b: "fmlookup (pl_buckets p) (lru_scan (pl_buckets p) ord zero_time [] True) = Some b"
    "\<forall>k b'. fmlookup (pl_buckets p) k = Some b' \<longrightarrow> bk_last b \<le> bk_last b'" by (elim exE conjE)
  moreover have "lru_scan (pl_buckets p) ord zero_time [] True \<noteq> []" using b(1) assms(2) by auto
  ultimately show ?thesis using assms
    by (intro exI [of _ "lru_scan (pl_buckets p) ord zero_time [] True"] exI [of _ b])
      (auto simp: per_ip_allow_eq lru.room_def evict_lru_def)
qed

theorem eviction_is_lru_witness:
  "fmlookup (pl_buckets (snd (per_ip_allow [''a''] minute ''b''
     \<lparr>pl_buckets = fmupd ''a'' \<lparr>bk_tokens = 1, bk_last = 0\<rparr> fmempty, pl_rps = 1, pl_burst = 1,
       pl_max_keys = 1, pl_stopped = False\<rparr>))) ''a'' = None"
proof -
  let ?p = "\<lparr>pl_buckets = fmupd ''a'' \<lparr>bk_tokens = 1, bk_last = 0\<rparr> fmempty, pl_rps = 1, pl_burst = 1,
       pl_max_keys = 1, pl_stopped = False\<rparr>"
  have "\<exists>v b. fmlookup (pl_buckets ?p) v = Some b \<and>
    (\<forall>k b'. fmlookup (pl_buckets ?p) k = Some b' \<longrightarrow> bk_last b \<le> bk_last b') \<and>
    (\<forall>k. fmlookup (pl_buckets (snd (per_ip_allow [''a''] minute ''b'' ?p))) k =
      (if k = ''b'' then Some (snd (served minute ''b'' ?p)) else if k = v then None else fmlookup (pl_buckets ?p) k))"
    by (rule eviction_is_lru) (simp_all add: gm_len_upd)
  then show ?thesis by (auto split: if_splits)
qed

section \<open>Throughput\<close>

text \<open>The verdicts of one bucket, of a limiter and of the global limiter, over a list of calls.\<close>

fun bucket_trace :: "real \<Rightarrow> real \<Rightarrow> bucket option \<Rightarrow> time list \<Rightarrow> bool list" where
  "bucket_trace rps burst ob [] = []"
| "bucket_trace rps burst ob (now # ts) =
     (let (ok, b) = take_token (refill (case ob of Some b \<Rightarrow> b | None \<Rightarrow> \<lparr>bk_tokens = burst, bk_last = now\<rparr>)
        now rps burst)
      in ok # bucket_trace rps burst (Some b) ts)"

fun allow_trace :: "(string list \<times> time \<times> string) list \<Rightarrow> per_ip \<Rightarrow> (string \<times> bool) list" where
  "allow_trace [] p = []"
| "allow_trace ((ord, now, key) # cs) p =
     (let (ok, p') = per_ip_allow ord now key p in (key, ok) # allow_trace cs p')"

fun global_trace :: "time list \<Rightarrow> global_limiter \<Rightarrow> bool list" where
  "global_trace [] g = []"
| "global_trace (now # ts) g = (let (ok, g') = global_allow now g in ok # global_trace ts g')"

lemma global_trace_bucket:
  "global_trace ts g = bucket_trace (gl_rps g) (gl_cap g) (Some (gl_b g)) ts"
  by (induction ts arbitrary: g) (simp_all add: global_allow_def split: prod.split)

lemma dur_seconds_upper:
  assumes "0 \<le> d"
  shows "dur_seconds d \<le> (1 + 1 / 2 ^ 53) ^ 3 * (of_int d / of_int second)"
proof -
  define u :: real where "u = 1 + 1 / 2 ^ 53"
  have up: "fl x \<le> u * x" if "0 \<le> x" for x
    unfolding u_def using that by (rule fl_upper)
  have u1: "1 \<le> u" by (simp add: u_def)
  define q r where "q = d div second" and "r = d mod second"
  have q: "0 \<le> q" and r: "0 \<le> r"
    using assms unfolding q_def r_def by (simp_all add: second_def pos_imp_zdiv_nonneg_iff)
  have s: "d sdiv second = q" "d smod second = r"
    using sdiv_smod_nonneg [OF assms] by (simp_all add: q_def r_def)
  have a: "fl (of_int q) \<le> u * of_int q" using q by (intro up) simp
  have "fl (of_int r) \<le> u * of_int r" using r by (intro up) simp
  then have "fl (of_int r) / 1000000000 \<le> u * of_int r / 1000000000" by (intro divide_right_mono) simp_all
  moreover have "fl (fl (of_int r) / 1000000000) \<le> u * (fl (of_int r) / 1000000000)"
    using r by (intro up divide_nonneg_nonneg fl_nonneg) simp_all
  ultimately have b: "fl (fl (of_int r) / 1000000000) \<le> u * (u * of_int r / 1000000000)"
    using u1 by (meson mult_left_mono order_trans zero_le_one)
  have c: "u * of_int q \<le> u * (u * of_int q)"
    using u1 q by (intro mult_left_mono) (simp_all add: mult_le_cancel_right1)
  have "dur_seconds d = fl (fl (of_int q) + fl (fl (of_int r) / 1000000000))"
    unfolding dur_seconds_def s ..
  also have "\<dots> \<le> u * (fl (of_int q) + fl (fl (of_int r) / 1000000000))"
    using q r by (intro up add_nonneg_nonneg fl_nonneg divide_nonneg_nonneg) simp_all
  also have "\<dots> \<le> u * (u * (u * of_int q) + u * (u * of_int r / 1000000000))"
    using a b c u1 by (intro mult_left_mono add_mono) linarith+
  also have "\<dots> = u ^ 3 * (of_int q + of_int r / 1000000000)"
    by (simp add: power3_eq_cube algebra_simps)
  also have "of_int q + of_int r / 1000000000 = (of_int (q * second + r) :: real) / of_int second"
    by (simp add: second_def field_simps)
  also have "q * second + r = d" by (simp add: q_def r_def)
  finally show ?thesis by (simp add: u_def)
qed

lemma refill_upper:
  assumes "bucket_ok burst b" "0 \<le> rps" "bk_last b \<le> now"
  shows "bk_tokens (refill b now rps burst) \<le>
    bk_tokens b + rps * (1 + 1 / 2 ^ 50) * (of_int (now - bk_last b) / of_int second) + 2 * burst / 2 ^ 53"
proof (cases "bk_last b < now")
  case True
  define d where "d = time_sub now (bk_last b)"
  have d: "0 \<le> d" "d \<le> now - bk_last b"
    using True by (auto simp: d_def time_sub_def max_duration_def min_duration_def)
  define e where "e = dur_seconds d"
  have e0: "0 \<le> e" using d by (simp add: e_def dur_seconds_nonneg)
  have "e \<le> (1 + 1 / 2 ^ 53) ^ 3 * (of_int d / of_int second)" unfolding e_def using d(1) by (rule dur_seconds_upper)
  also have "\<dots> \<le> (1 + 1 / 2 ^ 53) ^ 3 * (of_int (now - bk_last b) / of_int second)"
    using d(2) by (intro mult_left_mono divide_right_mono) (simp_all add: second_def)
  finally have e1: "e \<le> (1 + 1 / 2 ^ 53) ^ 3 * (of_int (now - bk_last b) / of_int second)" .
  define g where "g = fl (e * rps)"
  have "g \<le> (1 + 1 / 2 ^ 53) * (e * rps)"
    unfolding g_def using e0 assms(2) by (intro fl_upper mult_nonneg_nonneg)
  also have "\<dots> \<le> (1 + 1 / 2 ^ 53) * (((1 + 1 / 2 ^ 53) ^ 3 * (of_int (now - bk_last b) / of_int second)) * rps)"
    using e1 assms(2) by (intro mult_left_mono mult_right_mono) simp_all
  also have "\<dots> = (1 + 1 / 2 ^ 53) ^ 4 * (rps * (of_int (now - bk_last b) / of_int second))"
    by (simp add: power_def)
  also have "\<dots> \<le> (1 + 1 / 2 ^ 50) * (rps * (of_int (now - bk_last b) / of_int second))"
    using assms(2,3)
    by (intro mult_right_mono mult_nonneg_nonneg divide_nonneg_nonneg) (simp_all add: second_def power4_eq_xxxx)
  finally have g: "g \<le> rps * (1 + 1 / 2 ^ 50) * (of_int (now - bk_last b) / of_int second)"
    by (simp add: algebra_simps)
  have g0: "0 \<le> g" using e0 assms(2) by (simp add: g_def fl_nonneg)
  define x where "x = bk_tokens b + g"
  have x0: "0 \<le> x" using g0 assms(1) by (simp add: x_def bucket_ok_def)
  have "bk_tokens (refill b now rps burst) = (if burst < fl x then burst else fl x)"
    using True by (simp add: refill_def elapsed_pos_iff x_def g_def e_def d_def)
  also have "\<dots> \<le> x + 2 * burst / 2 ^ 53"
  proof (cases "x \<le> 2 * burst")
    case True
    have "fl x - x \<le> x / 2 ^ 53" using fl_error [of x] x0 by linarith
    also have "\<dots> \<le> 2 * burst / 2 ^ 53" using True by (intro divide_right_mono) simp_all
    finally show ?thesis by auto
  next
    case False
    have "0 \<le> burst" using assms(1) by (auto simp: bucket_ok_def)
    then show ?thesis using False by auto
  qed
  finally show ?thesis using g by (simp add: x_def)
next
  case False
  then have "\<not> bk_last b < now" "now = bk_last b" using assms(3) by auto
  moreover have "0 \<le> burst" using assms(1) by (auto simp: bucket_ok_def)
  moreover have "refill b now rps burst = b"
    using \<open>\<not> bk_last b < now\<close> by (simp only: refill_def elapsed_pos_iff Let_def if_False)
  ultimately show ?thesis by simp
qed

lemma take_token_upper:
  assumes "bucket_ok burst b"
  shows "bk_tokens (snd (take_token b)) + (if fst (take_token b) then 1 else 0) \<le> bk_tokens b + burst / 2 ^ 53"
proof (cases "1 \<le> bk_tokens b")
  case True
  have "fl (bk_tokens b - 1) \<le> (1 + 1 / 2 ^ 53) * (bk_tokens b - 1)" using True by (intro fl_upper) simp
  also have "\<dots> = bk_tokens b - 1 + (bk_tokens b - 1) / 2 ^ 53" by (simp add: field_simps)
  also have "\<dots> \<le> bk_tokens b - 1 + burst / 2 ^ 53"
    using assms by (intro add_left_mono divide_right_mono) (simp_all add: bucket_ok_def)
  finally show ?thesis using True by (simp add: take_token_def)
next
  case False
  then show ?thesis using assms by (simp add: take_token_def bucket_ok_def)
qed

lemma refill_last: "bk_last b \<le> now \<Longrightarrow> bk_last (refill b now rps burst) = now"
  by (auto simp: refill_def elapsed_pos_iff Let_def)

lemma take_token_last [simp]: "bk_last (snd (take_token b)) = bk_last b"
  by (simp add: take_token_def)

lemma bucket_throughput:
  assumes "bucket_ok burst b" "fl burst = burst" "0 \<le> rps" "sorted (bk_last b # ts)"
  shows "of_nat (count_list (bucket_trace rps burst (Some b) ts) True) \<le>
    bk_tokens b + rps * (1 + 1 / 2 ^ 50) * (of_int (last (bk_last b # ts) - bk_last b) / of_int second)
      + of_nat (length ts) * (3 * burst / 2 ^ 53)"
  using assms
proof (induction ts arbitrary: b)
  case Nil
  then show ?case by (simp add: bucket_ok_def)
next
  case (Cons now ts)
  define r where "r = refill b now rps burst"
  define c where "c = snd (take_token r)"
  define ok where "ok = fst (take_token r)"
  have le: "bk_last b \<le> now" "sorted (now # ts)" using Cons.prems(4) by auto
  have r: "bucket_ok burst r" unfolding r_def using Cons.prems(1,3) by (rule refill_ok)
  have c: "bucket_ok burst c" unfolding c_def using r Cons.prems(2) by (rule take_token_ok)
  have last: "bk_last c = now" unfolding c_def r_def using le(1) by (simp add: refill_last)
  have ih: "of_nat (count_list (bucket_trace rps burst (Some c) ts) True) \<le>
    bk_tokens c + rps * (1 + 1 / 2 ^ 50) * (of_int (last (now # ts) - now) / of_int second)
      + of_nat (length ts) * (3 * burst / 2 ^ 53)"
    using Cons.IH [OF c Cons.prems(2,3)] le(2) unfolding last by blast
  have "bucket_trace rps burst (Some b) (now # ts) = ok # bucket_trace rps burst (Some c) ts"
    by (simp add: ok_def c_def r_def split: prod.split)
  then have count: "of_nat (count_list (bucket_trace rps burst (Some b) (now # ts)) True) =
    (if ok then 1 else 0 :: real) + of_nat (count_list (bucket_trace rps burst (Some c) ts) True)" by simp
  have take: "bk_tokens c + (if ok then 1 else 0) \<le> bk_tokens r + burst / 2 ^ 53"
    unfolding c_def ok_def using r by (rule take_token_upper)
  have up: "bk_tokens r \<le> bk_tokens b + rps * (1 + 1 / 2 ^ 50) * (of_int (now - bk_last b) / of_int second)
      + 2 * burst / 2 ^ 53"
    unfolding r_def using Cons.prems(1,3) le(1) by (rule refill_upper)
  have split: "rps * (1 + 1 / 2 ^ 50) * (of_int (last (bk_last b # now # ts) - bk_last b) / of_int second) =
    rps * (1 + 1 / 2 ^ 50) * (of_int (now - bk_last b) / of_int second) +
    rps * (1 + 1 / 2 ^ 50) * (of_int (last (now # ts) - now) / of_int second)"
    by (simp add: diff_divide_distrib algebra_simps)
  show ?case unfolding count split using ih take up by (simp add: algebra_simps add_divide_distrib)
qed

text \<open>
  C11. The aggregate ceiling holds: however many clients call, a fresh global limiter admits at most
  \<open>burst + rps * T\<close> requests within \<open>T\<close> seconds of clock readings that do not go backwards, up to the
  rounding of float64: a relative \<open>2^-50\<close> on the refilled amount and \<open>3 * burst * 2^-53\<close> for each call.
\<close>

theorem global_throughput_bound:
  assumes "0 \<le> rps" and "0 \<le> burst" and "fl burst = burst" and "sorted (t0 # ts)"
  shows "of_nat (count_list (global_trace ts (new_global t0 rps burst)) True) \<le>
    burst + rps * (1 + 1 / 2 ^ 50) * (of_int (last (t0 # ts) - t0) / of_int second)
      + of_nat (length ts) * (3 * burst / 2 ^ 53)"
proof -
  have "bucket_ok burst \<lparr>bk_tokens = burst, bk_last = t0\<rparr>" using assms(2) by (simp add: bucket_ok_def)
  from bucket_throughput [OF this assms(3,1)] assms(4) show ?thesis
    by (simp add: global_trace_bucket new_global_def)
qed

theorem global_throughput_bound_witness:
  "of_nat (count_list (global_trace [0, 0, 0, second] (new_global 0 1 2)) True) \<le>
     2 + (1 :: real) * (1 + 1 / 2 ^ 50) * (of_int second / of_int second) + 4 * (3 * 2 / 2 ^ 53)"
  using global_throughput_bound [of 1 2 0 "[0, 0, 0, second]"] by (simp add: second_def)

lemma allow_trace_isolated:
  assumes "pl_max_keys p \<le> 0 \<or> int (card (fmdom' (pl_buckets p) \<union> (\<lambda>c. snd (snd c)) ` set cs)) \<le> pl_max_keys p"
  shows "map snd (filter (\<lambda>v. fst v = key) (allow_trace cs p)) =
    bucket_trace (pl_rps p) (pl_burst p) (fmlookup (pl_buckets p) key)
      (map (\<lambda>c. fst (snd c)) (filter (\<lambda>c. snd (snd c) = key) cs))"
  using assms
proof (induction cs arbitrary: p)
  case Nil
  then show ?case by simp
next
  case (Cons c cs)
  obtain ord now k where c: "c = (ord, now, k)" by (cases c)
  define p' where "p' = snd (per_ip_allow ord now k p)"
  have len: "gm_len (pl_buckets p) = card (fmdom' (pl_buckets p))"
    by (simp only: gm_len_def fcard.rep_eq fmdom'_alt_def)
  have no_evict: "(if 0 < pl_max_keys p then lru.room (pl_max_keys p) ord now k (pl_buckets p) else pl_buckets p) = pl_buckets p"
  proof (cases "0 < pl_max_keys p \<and> fmlookup (pl_buckets p) k = None")
    case True
    then have "k \<notin> fmdom' (pl_buckets p)" by (simp add: fmdom'_notI)
    then have "card (insert k (fmdom' (pl_buckets p))) = Suc (gm_len (pl_buckets p))" by (simp add: len)
    moreover have "card (insert k (fmdom' (pl_buckets p))) \<le> card (fmdom' (pl_buckets p) \<union> (\<lambda>c. snd (snd c)) ` set (c # cs))"
      by (intro card_mono) (auto simp: c)
    ultimately have "int (gm_len (pl_buckets p)) < pl_max_keys p" using Cons.prems True by linarith
    then show ?thesis by (simp add: lru.room_def)
  next
    case False
    then show ?thesis by (auto simp: lru.room_def)
  qed
  have p': "p' = p\<lparr>pl_buckets := fmupd k (snd (served now k p)) (pl_buckets p)\<rparr>"
    by (simp add: p'_def per_ip_allow_eq no_evict)
  have step: "allow_trace (c # cs) p = (k, fst (served now k p)) # allow_trace cs p'"
    by (simp add: c p'_def per_ip_allow_eq)
  have "fmdom' (pl_buckets p') \<union> (\<lambda>c. snd (snd c)) ` set cs = fmdom' (pl_buckets p) \<union> (\<lambda>c. snd (snd c)) ` set (c # cs)"
    by (auto simp: p' c)
  then have ih: "map snd (filter (\<lambda>v. fst v = key) (allow_trace cs p')) =
    bucket_trace (pl_rps p') (pl_burst p') (fmlookup (pl_buckets p') key)
      (map (\<lambda>c. fst (snd c)) (filter (\<lambda>c. snd (snd c) = key) cs))"
    using Cons.prems by (intro Cons.IH) (simp add: p')
  show ?case
  proof (cases "k = key")
    case True
    then show ?thesis using ih unfolding step
      by (simp add: c p' served_def case_prod_beta Let_def)
  next
    case False
    then show ?thesis using ih unfolding step by (simp add: c p')
  qed
qed

text \<open>
  C14. Clients do not throttle one another: as long as the calls involve at most \<open>maxKeys\<close> clients, the
  verdicts one client sees are those of a token bucket of its own, fed with the instants of its own
  calls only.
\<close>

theorem clients_are_isolated:
  assumes "cap \<le> 0 \<or> int (card ((\<lambda>c. snd (snd c)) ` set cs)) \<le> cap"
  shows "map snd (filter (\<lambda>v. fst v = key) (allow_trace cs (new_per_ip rps burst cap))) =
    bucket_trace rps burst None (map (\<lambda>c. fst (snd c)) (filter (\<lambda>c. snd (snd c) = key) cs))"
  using allow_trace_isolated [of "new_per_ip rps burst cap" cs key] assms
  by (simp add: new_per_ip_def)

theorem clients_are_isolated_witness:
  "map snd (filter (\<lambda>v. fst v = ''a'')
     (allow_trace [([], 0, ''a''), ([''a''], 0, ''b''), ([''a'', ''b''], 0, ''a'')] (new_per_ip 1 1 2))) =
   bucket_trace 1 1 None [0, 0]"
  using clients_are_isolated
    [of 2 "[([], 0, ''a''), ([''a''], 0, ''b''), ([''a'', ''b''], 0, ''a'')]" "''a''" 1 1]
  by (simp del: allow_trace.simps bucket_trace.simps add: insert_commute card_insert_if)

lemma count_list_key: "count_list xs (k, b) = count_list (map snd (filter (\<lambda>v. fst v = k) xs)) b"
  by (induction xs) auto

lemma fresh_client_throughput:
  assumes "0 \<le> rps" "0 \<le> burst" "fl burst = burst" "pl_rps p = rps" "pl_burst p = burst" "fmlookup (pl_buckets p) key = None"
    and "pl_max_keys p \<le> 0 \<or> int (card (fmdom' (pl_buckets p) \<union> (\<lambda>c. snd (snd c)) ` set cs)) \<le> pl_max_keys p"
    and "map (\<lambda>c. fst (snd c)) (filter (\<lambda>c. snd (snd c) = key) cs) = t0 # ts" "sorted (t0 # ts)"
  shows "of_nat (count_list (allow_trace cs p) (key, True)) \<le>
    burst + rps * (1 + 1 / 2 ^ 50) * (of_int (last (t0 # ts) - t0) / of_int second)
      + of_nat (Suc (length ts)) * (3 * burst / 2 ^ 53)"
proof -
  define full where "full = \<lparr>bk_tokens = burst, bk_last = t0\<rparr>"
  have "map snd (filter (\<lambda>v. fst v = key) (allow_trace cs p)) = bucket_trace rps burst (Some full) (t0 # ts)"
    using allow_trace_isolated [OF assms(7), of key] assms(4-6,8) by (simp add: full_def)
  moreover have "bucket_ok burst full" using assms(2) by (simp add: full_def bucket_ok_def)
  ultimately show ?thesis
    using bucket_throughput [of burst full rps "t0 # ts"] assms(1,3,9) by (simp add: count_list_key full_def)
qed

text \<open>
  C13. The ceiling per client holds in the middle of a flood: as long as at most \<open>maxKeys\<close> clients call, each
  of them is admitted at most \<open>burst + rps * T\<close> times within the \<open>T\<close> seconds from its first to its last call,
  whatever the others send in between, up to the rounding of float64.
\<close>

theorem client_throughput_bound:
  assumes "0 \<le> rps" and "0 \<le> burst" and "fl burst = burst"
    and "cap \<le> 0 \<or> int (card ((\<lambda>c. snd (snd c)) ` set cs)) \<le> cap"
    and "map (\<lambda>c. fst (snd c)) (filter (\<lambda>c. snd (snd c) = key) cs) = t0 # ts" and "sorted (t0 # ts)"
  shows "of_nat (count_list (allow_trace cs (new_per_ip rps burst cap)) (key, True)) \<le>
    burst + rps * (1 + 1 / 2 ^ 50) * (of_int (last (t0 # ts) - t0) / of_int second)
      + of_nat (Suc (length ts)) * (3 * burst / 2 ^ 53)"
  by (rule fresh_client_throughput) (use assms in \<open>simp_all add: new_per_ip_def\<close>)

theorem client_throughput_bound_witness:
  "of_nat (count_list (allow_trace [([], 0, ''a''), ([''a''], 7, ''b''), ([''a'', ''b''], second, ''a'')] (new_per_ip 1 2 2))
     (''a'', True)) \<le> (2 :: real) + 1 * (1 + 1 / 2 ^ 50) * (of_int (last [0, second] - 0) / of_int second)
       + of_nat (Suc (length [second])) * (3 * 2 / 2 ^ 53)"
  by (rule client_throughput_bound) (simp_all add: second_def insert_commute card_insert_if)

text \<open>
  No permanent lock-out: whatever happened before, once the clock has advanced by so much that the
  refill \<open>elapsed * rps\<close> reaches one token, the next call is admitted, provided the bucket may hold one
  token.
\<close>

theorem bucket_recovers:
  assumes "0 \<le> bk_tokens (gl_b g)" and "1 \<le> gl_cap g"
    and "1 \<le> dur_seconds (time_sub now (bk_last (gl_b g))) * gl_rps g"
    and "bk_last (gl_b g) < now"
  shows "fst (global_allow now g)"
proof -
  let ?x = "fl (dur_seconds (time_sub now (bk_last (gl_b g))) * gl_rps g)"
  have "fl 1 \<le> ?x" by (rule fl_mono [OF assms(3)])
  then have "fl 1 \<le> fl (bk_tokens (gl_b g) + ?x)" using assms(1) by (intro fl_mono) simp
  then show ?thesis using assms
    by (simp add: global_allow_def refill_def take_token_def elapsed_pos_iff Let_def split: prod.split)
qed

theorem bucket_recovers_witness:
  "fst (global_allow second \<lparr>gl_b = \<lparr>bk_tokens = 0, bk_last = 0\<rparr>, gl_rps = 1, gl_cap = 1\<rparr>)"
proof (rule bucket_recovers)
  have "dur_seconds (1 * second) = of_int 1" by (rule dur_seconds_whole) simp_all
  then show "1 \<le> dur_seconds (time_sub second (bk_last (gl_b \<lparr>gl_b = \<lparr>bk_tokens = 0, bk_last = 0\<rparr>, gl_rps = 1, gl_cap = 1\<rparr>))) *
      gl_rps \<lparr>gl_b = \<lparr>bk_tokens = 0, bk_last = 0\<rparr>, gl_rps = 1, gl_cap = 1\<rparr>"
    by (simp add: second_def time_sub_def max_duration_def min_duration_def)
qed (simp_all add: second_def)

text \<open>\<open>Remaining\<close> is a fraction.\<close>

lemma global_remaining_range:
  assumes "bucket_ok (gl_cap g) (gl_b g)" "0 \<le> gl_rps g"
  shows "0 \<le> fst (global_remaining now g) \<and> fst (global_remaining now g) \<le> 1"
proof -
  let ?b = "refill (gl_b g) now (gl_rps g) (gl_cap g)"
  have b: "bucket_ok (gl_cap g) ?b" using assms by (rule refill_ok)
  have "fl (bk_tokens ?b / gl_cap g) \<le> fl 1" if "0 < gl_cap g"
    using b that by (intro fl_mono) (simp add: bucket_ok_def)
  moreover have "0 \<le> fl (bk_tokens ?b / gl_cap g)" if "0 < gl_cap g"
    using b that by (intro fl_nonneg) (simp add: bucket_ok_def)
  ultimately show ?thesis by (auto simp: global_remaining_def Let_def)
qed

end
