(* ===== verification/Go_Format.thy ===== *)
theory Go_Format
  imports Go_Time Go_Strings
begin

text \<open>
  What the pages of the program print: calendar dates of \<open>Time.Format\<close> in UTC, \<open>Duration.String\<close> and
  \<open>Duration.Round(time.Second)\<close>, and the format \<open>%.1f\<close>. A text is \<open>plain\<close> when it holds no character that
  means something to a reader of HTML; everything printed here is.
\<close>

section \<open>Durations\<close>

text \<open>\<open>Round\<close> stops at the largest and the smallest \<open>Duration\<close> when the rounded value does not fit.\<close>

definition round_second :: "duration \<Rightarrow> duration" where
  "round_second d =
     (let r = d smod second
      in if d < 0 then (if - r + - r < second then d - r else max min_duration (d - second - r))
         else (if r + r < second then d - r else min max_duration (d + second - r)))"

definition zero_padded :: "nat \<Rightarrow> string \<Rightarrow> string" where
  "zero_padded w s = replicate (w - length s) (CHR ''0'') @ s"

text \<open>\<open>fmtFrac\<close>: \<open>n\<close> in units of \<open>10^-p\<close>, without the zeros at the end.\<close>

definition decimal_part :: "int \<Rightarrow> nat \<Rightarrow> string" where
  "decimal_part n p =
     (let ds = trim_right (CHR ''0'') (zero_padded p (itoa (n mod 10 ^ p))) in if ds = [] then [] else CHR ''.'' # ds)"

definition clock_string :: "int \<Rightarrow> string" where
  "clock_string u =
     (let s = u div second; m = s div 60; h = m div 60
      in (if 0 < h then itoa h @ ''h'' else []) @ (if 0 < m then itoa (m mod 60) @ ''m'' else []) @
         itoa (s mod 60) @ decimal_part u 9 @ ''s'')"

definition duration_string :: "duration \<Rightarrow> string" where
  "duration_string d =
     (let u = \<bar>d\<bar>;
          body = (if u = 0 then ''0s''
            else if u < 1000 then itoa u @ ''ns''
            else if u < 1000000 then itoa (u div 1000) @ decimal_part u 3 @ [CHR 0xC2, CHR 0xB5, CHR ''s'']
            else if u < second then itoa (u div 1000000) @ decimal_part u 6 @ ''ms''
            else clock_string u)
      in if d < 0 then ''-'' @ body else body)"

section \<open>Dates\<close>

text \<open>
  The year, counted from 1, and the day in it, for a number of days since 1 January of the year 1: cycles of
  400, 100, 4 and 1 years, the last of each kind of cycle being one day longer.
\<close>

definition year_day :: "int \<Rightarrow> int \<times> int" where
  "year_day d =
     (let n400 = d div 146097; d = d mod 146097;
          n100 = min 3 (d div 36524); d = d - 36524 * n100;
          n4 = d div 1461; d = d mod 1461;
          n1 = min 3 (d div 365); d = d - 365 * n1
      in (400 * n400 + 100 * n100 + 4 * n4 + n1 + 1, d))"

definition leap_year :: "int \<Rightarrow> bool" where
  "leap_year y \<longleftrightarrow> y mod 4 = 0 \<and> (y mod 100 \<noteq> 0 \<or> y mod 400 = 0)"

definition month_lengths :: "bool \<Rightarrow> int list" where
  "month_lengths leap = [31, if leap then 29 else 28, 31, 30, 31, 30, 31, 31, 30, 31, 30, 31]"

fun month_day :: "int list \<Rightarrow> nat \<Rightarrow> int \<Rightarrow> nat \<times> int" where
  "month_day [] m d = (m, d)"
| "month_day (l # ls) m d = (if d < l then (m, d) else month_day ls (Suc m) (d - l))"

record date =
  da_year :: int
  da_month :: nat
  da_day :: int
  da_weekday :: nat

text \<open>Months count from 0, days of the month from 1; 1 January of the year 1 was a Monday.\<close>

definition date_of :: "time \<Rightarrow> date" where
  "date_of t =
     (let days = to_unix t div 86400 + 719162;
          (y, yd) = year_day days;
          (m, d) = month_day (month_lengths (leap_year y)) 0 yd
      in \<lparr>da_year = y, da_month = m, da_day = d + 1, da_weekday = nat (days mod 7)\<rparr>)"

definition two_digits :: "int \<Rightarrow> string" where "two_digits n = zero_padded 2 (itoa n)"

definition four_digits :: "int \<Rightarrow> string" where
  "four_digits n = (if n < 0 then ''-'' @ zero_padded 4 (itoa (- n)) else zero_padded 4 (itoa n))"

text \<open>The layouts \<open>15:04:05\<close>, \<open>2006-01-02 15:04:05\<close> and \<open>time.RFC1123\<close> of a time in UTC.\<close>

definition format_clock :: "time \<Rightarrow> string" where
  "format_clock t =
     (let s = to_unix t mod 86400
      in two_digits (s div 3600) @ '':'' @ two_digits (s div 60 mod 60) @ '':'' @ two_digits (s mod 60))"

definition format_date_time :: "time \<Rightarrow> string" where
  "format_date_time t =
     (let d = date_of t
      in four_digits (da_year d) @ ''-'' @ two_digits (int (da_month d) + 1) @ ''-'' @ two_digits (da_day d) @ '' '' @ format_clock t)"

definition weekday_names :: "string list" where
  "weekday_names = [''Mon'', ''Tue'', ''Wed'', ''Thu'', ''Fri'', ''Sat'', ''Sun'']"

definition month_names :: "string list" where
  "month_names = [''Jan'', ''Feb'', ''Mar'', ''Apr'', ''May'', ''Jun'', ''Jul'', ''Aug'', ''Sep'', ''Oct'', ''Nov'', ''Dec'']"

definition format_rfc1123 :: "time \<Rightarrow> string" where
  "format_rfc1123 t =
     (let d = date_of t
      in weekday_names ! da_weekday d @ '', '' @ two_digits (da_day d) @ '' '' @ month_names ! da_month d @ '' '' @
         four_digits (da_year d) @ '' '' @ format_clock t @ '' UTC'')"

section \<open>Fixed-point numbers\<close>

text \<open>\<open>%.1f\<close> of a float64: the exact value, rounded to one decimal, ties to even.\<close>

definition fixed1 :: "real \<Rightarrow> string" where
  "fixed1 x =
     (let n = rne (\<bar>x\<bar> * 10) in (if x < 0 then ''-'' else []) @ itoa (n div 10) @ ''.'' @ itoa (n mod 10))"

section \<open>Plain text\<close>

definition plain_char :: "char \<Rightarrow> bool" where
  "plain_char c \<longleftrightarrow> c \<noteq> CHR ''<'' \<and> c \<noteq> CHR ''>'' \<and> c \<noteq> CHR 0x22 \<and> c \<noteq> CHR 0x27"

definition plain :: "string \<Rightarrow> bool" where "plain s \<longleftrightarrow> list_all plain_char s"

lemma plain_Nil [simp]: "plain []"
  and plain_Cons [simp]: "plain (c # s) \<longleftrightarrow> plain_char c \<and> plain s"
  and plain_append [simp]: "plain (s @ t) \<longleftrightarrow> plain s \<and> plain t"
  by (simp_all add: plain_def)

lemma plain_digit: "is_digit c \<Longrightarrow> plain_char c"
  by (auto simp: is_digit_def plain_char_def)

lemma plain_signs [simp]:
  "plain_char (CHR ''-'')" "plain_char (CHR ''.'')" "plain_char (CHR '':'')" "plain_char (CHR '' '')" "plain_char (CHR '','')"
  "plain_char (CHR ''0'')" "plain_char (CHR ''h'')" "plain_char (CHR ''m'')" "plain_char (CHR ''s'')" "plain_char (CHR ''n'')"
  "plain_char (CHR 0xC2)" "plain_char (CHR 0xB5)" "plain_char (CHR ''U'')" "plain_char (CHR ''T'')" "plain_char (CHR ''C'')"
  by (simp_all add: plain_char_def)

lemma plain_itoa [simp]: "plain (itoa n)"
  using itoa_pos_digits [of n] itoa_pos_digits [of "- n"]
  by (cases "0 \<le> n") (auto simp: itoa_def plain_def list_all_iff plain_digit)

lemma plain_subset: "set s \<subseteq> set t \<Longrightarrow> plain t \<Longrightarrow> plain s"
  by (auto simp: plain_def list_all_iff)

lemma plain_zero_padded [simp]: "plain s \<Longrightarrow> plain (zero_padded w s)"
  by (simp add: zero_padded_def) (simp add: plain_def list_all_iff)

lemma plain_trim_right [simp]: "plain s \<Longrightarrow> plain (trim_right c s)"
  by (rule plain_subset) (auto simp: trim_right_def dest: set_dropWhileD)

lemma plain_trim_space: "plain s \<Longrightarrow> plain (trim_space s)"
  by (rule plain_subset) (auto simp: trim_space_def trim_left_def dest!: set_dropWhileD)

lemma plain_decimal_part [simp]: "plain (decimal_part n p)"
  by (auto simp: decimal_part_def Let_def)

lemma plain_duration_string [simp]: "plain (duration_string d)"
  by (auto simp: duration_string_def clock_string_def Let_def)

lemma plain_two_digits [simp]: "plain (two_digits n)" and plain_four_digits [simp]: "plain (four_digits n)"
  by (simp_all add: two_digits_def four_digits_def)

lemma plain_format_clock [simp]: "plain (format_clock t)"
  by (simp add: format_clock_def Let_def)

lemma plain_format_date_time [simp]: "plain (format_date_time t)"
  by (simp add: format_date_time_def Let_def)

lemma plain_fixed1 [simp]: "plain (fixed1 x)"
  by (simp add: fixed1_def Let_def)

lemma month_day_index: "0 \<le> d \<Longrightarrow> d < sum_list ls \<Longrightarrow> fst (month_day ls m d) < m + length ls"
proof (induction ls arbitrary: m d)
  case (Cons l ls)
  then show ?case using Cons.IH [of "d - l" "Suc m"] by auto
qed simp

lemma capped_quotient:
  assumes "0 \<le> r" "0 < k" "q = min 3 (r div (k :: int))"
  shows "0 \<le> q" "q \<le> 3" "0 \<le> r - k * q" "r - k * q < k \<or> q = 3"
proof -
  define m t where "m = r div k" and "t = r mod k"
  have r: "r = k * m + t" "0 \<le> t" "t < k" "0 \<le> m" using assms(1,2) by (simp_all add: m_def t_def pos_imp_zdiv_nonneg_iff)
  have big: "k * 3 \<le> k * m" if "3 < m" using that assms(2) by (intro mult_left_mono) simp_all
  have "0 \<le> q \<and> q \<le> 3 \<and> 0 \<le> r - k * q \<and> (r - k * q < k \<or> q = 3)"
  proof (cases "3 < m")
    case True
    then have "q = 3" using assms(3) by (simp add: m_def)
    moreover have "0 \<le> r - k * 3" using big [OF True] r(1,2) by linarith
    ultimately show ?thesis by simp
  next
    case False
    then have q: "q = m" using assms(3) by (simp add: m_def)
    then have "r - k * q = t" using r(1) by simp
    then show ?thesis using False r by (simp add: q)
  qed
  then show "0 \<le> q" "q \<le> 3" "0 \<le> r - k * q" "r - k * q < k \<or> q = 3" by blast+
qed

text \<open>The day of a year is one of its 365 or 366 days, so the name of the month exists.\<close>

lemma year_day_range:
  assumes "year_day d = (y, yd)"
  shows "0 \<le> yd" "yd < (if leap_year y then 366 else 365)"
    and "365 * (y - 1) + (y - 1) div 4 - (y - 1) div 100 + (y - 1) div 400 + yd = d"
proof -
  define a r where "a = d div 146097" and "r = d mod 146097"
  define b where "b = min 3 (r div 36524)"
  define s where "s = r - 36524 * b"
  define c u where "c = s div 1461" and "u = s mod 1461"
  define e where "e = min 3 (u div 365)"
  have d: "d = 146097 * a + r" "0 \<le> r" "r < 146097" by (simp_all add: a_def r_def)
  have b: "0 \<le> b" "b \<le> 3" "0 \<le> s" "s < 36524 \<or> s = 36524 \<and> b = 3"
    using capped_quotient [OF d(2) _ b_def] d(3) by (auto simp: s_def)
  have c: "s = 1461 * c + u" "0 \<le> u" "u < 1461" by (simp_all add: c_def u_def)
  have c24: "0 \<le> c" "c \<le> 24" using c b(3,4) by linarith+
  have e: "0 \<le> e" "e \<le> 3" "0 \<le> u - 365 * e" "u - 365 * e < 365 \<or> u = 1460 \<and> e = 3" 
    using capped_quotient [OF c(2) _ e_def] c(3) by auto
  have y: "y = 400 * a + 100 * b + 4 * c + e + 1" "yd = u - 365 * e"
    using assms unfolding year_day_def Let_def a_def [symmetric] r_def [symmetric] b_def [symmetric] s_def [symmetric]
      c_def [symmetric] u_def [symmetric] e_def [symmetric] by simp_all
  have div_eq: "(k * q + x) div k = q" if "0 \<le> x" "x < k" for x k q :: int
    using that by (simp add: div_pos_pos_trivial)
  have "y - 1 = 4 * (100 * a + 25 * b + c) + e" "y - 1 = 100 * (4 * a + b) + (4 * c + e)"
    "y - 1 = 400 * a + (100 * b + 4 * c + e)" by (simp_all add: y(1))
  then have q: "(y - 1) div 4 = 100 * a + 25 * b + c" "(y - 1) div 100 = 4 * a + b" "(y - 1) div 400 = a"
    using div_eq [of e 4 "100 * a + 25 * b + c"] div_eq [of "4 * c + e" 100 "4 * a + b"] div_eq [of "100 * b + 4 * c + e" 400 a]
      b(1,2) c24 e(1,2) by simp_all
  show "0 \<le> yd" using e(3) y(2) by simp
  show "365 * (y - 1) + (y - 1) div 4 - (y - 1) div 100 + (y - 1) div 400 + yd = d"
    unfolding q using y d(1) c(1) by (simp add: s_def)
  show "yd < (if leap_year y then 366 else 365)"
  proof (cases "u - 365 * e < 365")
    case False
    then have last: "u = 1460" "e = 3" using e(4) by auto
    have "leap_year y"
    proof (cases "c = 24")
      case True
      then have "b = 3" using b(4) c(1) last by linarith
      then have "y = (a + 1) * 400" using True last by (simp add: y(1))
      then show ?thesis by (simp add: leap_year_def mod_mult_right_eq)
    next
      case False
      have "y = 4 * (100 * a + 25 * b + c + 1)" "y = 100 * (4 * a + b) + (4 * c + 4)" by (simp_all add: y(1) last)
      moreover have "(4 * c + 4) mod 100 = 4 * c + 4" using False c24 by (intro mod_pos_pos_trivial) linarith+
      ultimately have "y mod 4 = 0" "y mod 100 = 4 * c + 4" by (metis mod_mult_self1_is_0, metis mod_mult_self4)
      then show ?thesis using c24 by (simp add: leap_year_def)
    qed
    then show ?thesis using last by (simp add: y(2))
  qed (simp add: y(2))
qed

lemma plain_format_rfc1123 [simp]: "plain (format_rfc1123 t)"
proof -
  define days where "days = to_unix t div 86400 + 719162"
  obtain y yd where y: "year_day days = (y, yd)" by (cases "year_day days")
  obtain m d where m: "month_day (month_lengths (leap_year y)) 0 yd = (m, d)" by (cases "month_day (month_lengths (leap_year y)) 0 yd")
  have "yd < sum_list (month_lengths (leap_year y))"
    using year_day_range(2) [OF y] by (simp add: month_lengths_def split: if_splits)
  then have "m < 12" using year_day_range(1) [OF y] month_day_index [of yd "month_lengths (leap_year y)" 0] m by (simp add: month_lengths_def)
  moreover have "nat (days mod 7) < 7" by simp
  moreover have "list_all plain month_names" "list_all plain weekday_names"
    by (simp_all add: month_names_def weekday_names_def plain_char_def)
  ultimately have "plain (weekday_names ! nat (days mod 7))" "plain (month_names ! m)"
    by (simp_all add: list_all_length month_names_def weekday_names_def)
  then show ?thesis by (simp add: format_rfc1123_def date_of_def days_def [symmetric] y m Let_def)
qed

end
