(* ===== verification/Banlist.thy ===== *)
theory Banlist
  imports Netutil Go_Format
begin

text \<open>
  \<^verbatim>\<open>internal/banlist/banlist.go\<close>: the ban table with its expiries, the escalation of repeat offenders,
  the capacity bound with eviction, the buffer of bans to report to the control plane and the
  snapshot on disk. \<open>now\<close> is the clock reading of a call, \<open>ord\<close> the order of its range over the map,
  \<open>oor\<close> the result of an out-of-range float64 to int64 conversion.
\<close>

section \<open>The code\<close>

definition recent_cap :: nat where "recent_cap = 1024"

record entry =
  en_expires :: time
  en_offenses :: int

record store =
  bl_banned :: "(string, entry) fmap"
  bl_allow_nets :: "ipnet list option"
  bl_base :: duration
  bl_max :: duration
  bl_escalation :: real
  bl_max_entries :: int
  bl_forget :: duration
  bl_recent :: "string list"
  bl_persist_path :: string
  bl_stopped :: bool

definition set_allowlist :: "string list \<Rightarrow> store \<Rightarrow> store" where
  "set_allowlist cidrs s = s\<lparr>bl_allow_nets := Some (parse_cidrs cidrs)\<rparr>"

definition new_store :: "duration \<Rightarrow> duration \<Rightarrow> real \<Rightarrow> int \<Rightarrow> string list \<Rightarrow> store" where
  "new_store base maxd escalation max_entries allowlist =
     set_allowlist allowlist
       \<lparr>bl_banned = fmempty, bl_allow_nets = None, bl_base = base, bl_max = maxd,
        bl_escalation = escalation, bl_max_entries = max_entries, bl_forget = maxd,
        bl_recent = [], bl_persist_path = [], bl_stopped = False\<rparr>"

definition is_allowed :: "store \<Rightarrow> string \<Rightarrow> bool" where
  "is_allowed s ip = (case bl_allow_nets s of Some nets \<Rightarrow> net_contains nets ip | None \<Rightarrow> False)"

definition set_params :: "duration \<Rightarrow> duration \<Rightarrow> real \<Rightarrow> int \<Rightarrow> store \<Rightarrow> store" where
  "set_params base maxd escalation max_entries s =
     s\<lparr>bl_base := base, bl_max := maxd, bl_escalation := escalation, bl_max_entries := max_entries,
       bl_forget := maxd\<rparr>"

definition unban :: "string \<Rightarrow> store \<Rightarrow> bool \<times> store" where
  "unban ip s =
     (case fmlookup (bl_banned s) ip of
        Some e \<Rightarrow> (True, s\<lparr>bl_banned := fmdrop ip (bl_banned s)\<rparr>)
      | None \<Rightarrow> (False, s))"

text \<open>
  The loop of \<open>evictLocked\<close>: the first expired entry it meets is deleted at once; otherwise it keeps
  the entry that expires soonest. The result is the key that gets deleted.
\<close>

fun evict_scan :: "(string, entry) fmap \<Rightarrow> string list \<Rightarrow> time \<Rightarrow> time \<Rightarrow> string \<Rightarrow> bool \<Rightarrow> string option" where
  "evict_scan m [] now soonest victim first = (if victim \<noteq> [] then Some victim else None)"
| "evict_scan m (ip # ips) now soonest victim first =
     (case fmlookup m ip of
        None \<Rightarrow> evict_scan m ips now soonest victim first
      | Some e \<Rightarrow>
          if en_expires e < now then Some ip
          else if first \<or> en_expires e < soonest then evict_scan m ips now (en_expires e) ip False
          else evict_scan m ips now soonest victim first)"

definition evict_soonest :: "string list \<Rightarrow> time \<Rightarrow> (string, entry) fmap \<Rightarrow> (string, entry) fmap" where
  "evict_soonest ord now m =
     (case evict_scan m ord now zero_time [] True of Some ip \<Rightarrow> fmdrop ip m | None \<Rightarrow> m)"

text \<open>
  The lines \<open>Ban\<close>, \<open>BanFor\<close> and \<open>BanFleet\<close> share: the entry of the address, or a fresh one after making
  room. The result is the map and the entry that is about to be updated and stored.
\<close>

definition entry_for :: "string list \<Rightarrow> time \<Rightarrow> string \<Rightarrow> store \<Rightarrow> (string, entry) fmap \<times> entry" where
  "entry_for ord now ip s =
     (case fmlookup (bl_banned s) ip of
        Some e \<Rightarrow> (bl_banned s, e)
      | None \<Rightarrow>
          (if bl_max_entries s \<le> int (gm_len (bl_banned s)) then evict_soonest ord now (bl_banned s)
           else bl_banned s,
           \<lparr>en_expires = zero_time, en_offenses = 0\<rparr>))"

definition record_recent :: "string \<Rightarrow> string list \<Rightarrow> string list" where
  "record_recent ip recent =
     (if recent_cap \<le> length recent then drop (recent_cap div 2) recent else recent) @ [ip]"

definition ban_for :: "string list \<Rightarrow> time \<Rightarrow> string \<Rightarrow> duration \<Rightarrow> store \<Rightarrow> bool \<times> store" where
  "ban_for ord now ip d s =
     (if is_allowed s ip then (False, s)
      else
        let (m, e) = entry_for ord now ip s;
            e = e\<lparr>en_offenses := en_offenses e + 1\<rparr>;
            e = e\<lparr>en_expires := now + d\<rparr>
        in (True, s\<lparr>bl_banned := fmupd ip e m, bl_recent := record_recent ip (bl_recent s)\<rparr>))"

text \<open>The duration of the \<open>n\<close>-th offence: \<open>base * escalation^(n-1)\<close>, capped at \<open>max\<close>.\<close>

definition ban_duration :: "int \<Rightarrow> duration \<Rightarrow> duration \<Rightarrow> real \<Rightarrow> int \<Rightarrow> duration" where
  "ban_duration oor base maxd escalation offenses =
     (let d = f2i64 oor (fl (fl (of_int base) * go_pow escalation (offenses - 1)))
      in if maxd < d \<or> d \<le> 0 then maxd else d)"

definition ban :: "int \<Rightarrow> string list \<Rightarrow> time \<Rightarrow> string \<Rightarrow> store \<Rightarrow> duration \<times> store" where
  "ban oor ord now ip s =
     (if is_allowed s ip then (0, s)
      else
        let (m, e) = entry_for ord now ip s;
            e = e\<lparr>en_offenses := en_offenses e + 1\<rparr>;
            d = ban_duration oor (bl_base s) (bl_max s) (bl_escalation s) (en_offenses e);
            e = e\<lparr>en_expires := now + d\<rparr>
        in (d, s\<lparr>bl_banned := fmupd ip e m, bl_recent := record_recent ip (bl_recent s)\<rparr>))"

definition ban_fleet :: "string list \<Rightarrow> time \<Rightarrow> string \<Rightarrow> duration \<Rightarrow> store \<Rightarrow> store" where
  "ban_fleet ord now ip d s =
     (if is_allowed s ip then s
      else
        let (m, e) = entry_for ord now ip s;
            e = (if en_expires e < now + d then e\<lparr>en_expires := now + d\<rparr> else e)
        in s\<lparr>bl_banned := fmupd ip e m\<rparr>)"

definition is_banned :: "store \<Rightarrow> string \<Rightarrow> time \<Rightarrow> bool" where
  "is_banned s ip now =
     (if is_allowed s ip then False
      else case fmlookup (bl_banned s) ip of None \<Rightarrow> False | Some e \<Rightarrow> now < en_expires e)"

text \<open>
  \<open>List\<close>: one record for each active ban, in the order of the range.
\<close>

record ban_info =
  bi_ip :: string
  bi_expires_in :: string
  bi_offenses :: int

fun ban_infos :: "(string, entry) fmap \<Rightarrow> string list \<Rightarrow> time \<Rightarrow> ban_info list" where
  "ban_infos m [] now = []"
| "ban_infos m (ip # ips) now =
     (case fmlookup m ip of
        None \<Rightarrow> ban_infos m ips now
      | Some e \<Rightarrow>
          if now < en_expires e
          then \<lparr>bi_ip = ip, bi_expires_in = duration_string (round_second (time_sub (en_expires e) now)), bi_offenses = en_offenses e\<rparr>
               # ban_infos m ips now
          else ban_infos m ips now)"

definition list_bans :: "string list \<Rightarrow> time \<Rightarrow> store \<Rightarrow> ban_info list" where
  "list_bans ord now s = ban_infos (bl_banned s) ord now"

text \<open>The loop of \<open>DrainRecent\<close>: \<open>seen\<close> and \<open>out\<close> are its variables.\<close>

fun drain_loop :: "string list \<Rightarrow> string set \<Rightarrow> string list \<Rightarrow> string list" where
  "drain_loop [] seen out = out"
| "drain_loop (ip # ips) seen out =
     (if ip \<in> seen then drain_loop ips seen out else drain_loop ips (insert ip seen) (out @ [ip]))"

definition drain_recent :: "store \<Rightarrow> string list \<times> store" where
  "drain_recent s =
     (if length (bl_recent s) = 0 then ([], s)
      else (drain_loop (bl_recent s) {} [], s\<lparr>bl_recent := []\<rparr>))"

definition count_entries :: "store \<Rightarrow> int" where
  "count_entries s = int (gm_len (bl_banned s))"

text \<open>\<open>close(s.stop)\<close>: closing twice panics.\<close>

definition close_store :: "store \<Rightarrow> store option" where
  "close_store s = (if bl_stopped s then None else Some (s\<lparr>bl_stopped := True\<rparr>))"

definition sweep :: "time \<Rightarrow> store \<Rightarrow> store" where
  "sweep cutoff s =
     s\<lparr>bl_banned := fmfilter (\<lambda>ip. case fmlookup (bl_banned s) ip of
          None \<Rightarrow> True
        | Some e \<Rightarrow> \<not> en_expires e + bl_forget s < cutoff) (bl_banned s)\<rparr>"

subsection \<open>The snapshot on disk\<close>

text \<open>
  \<open>json.MarshalIndent\<close> and \<open>json.Unmarshal\<close> carry the records unchanged (RFC 3339 with nanoseconds, and
  integers); the model starts after decoding. \<open>file_read\<close> is the outcome of reading the file.
\<close>

record persist_record =
  pr_expires :: time
  pr_offenses :: int

datatype file_read =
  NotExist
| ReadError
| BadJson
| Records "(string, persist_record) fmap"

fun load_loop :: "(string, persist_record) fmap \<Rightarrow> string list \<Rightarrow> time \<Rightarrow> store \<Rightarrow> store" where
  "load_loop recs [] now s = s"
| "load_loop recs (ip # ips) now s =
     (case fmlookup recs ip of
        None \<Rightarrow> load_loop recs ips now s
      | Some r \<Rightarrow>
          if now < pr_expires r \<and> int (gm_len (bl_banned s)) < bl_max_entries s
          then load_loop recs ips now
                 (s\<lparr>bl_banned := fmupd ip \<lparr>en_expires = pr_expires r, en_offenses = pr_offenses r\<rparr> (bl_banned s)\<rparr>)
          else load_loop recs ips now s)"

text \<open>The Boolean is \<open>err == nil\<close>.\<close>

definition load :: "string list \<Rightarrow> time \<Rightarrow> file_read \<Rightarrow> store \<Rightarrow> bool \<times> store" where
  "load ord now f s =
     (case f of
        NotExist \<Rightarrow> (True, s)
      | ReadError \<Rightarrow> (False, s)
      | BadJson \<Rightarrow> (False, s)
      | Records recs \<Rightarrow> (True, load_loop recs ord now s))"

definition enable_persistence :: "string \<Rightarrow> string list \<Rightarrow> time \<Rightarrow> file_read \<Rightarrow> store \<Rightarrow> bool \<times> store" where
  "enable_persistence path ord now f s = load ord now f (s\<lparr>bl_persist_path := path\<rparr>)"

definition snapshot :: "time \<Rightarrow> store \<Rightarrow> (string, persist_record) fmap" where
  "snapshot now s =
     fmmap (\<lambda>e. \<lparr>pr_expires = en_expires e, pr_offenses = en_offenses e\<rparr>)
       (fmfilter (\<lambda>ip. case fmlookup (bl_banned s) ip of Some e \<Rightarrow> now < en_expires e | None \<Rightarrow> False)
         (bl_banned s))"

section \<open>Eviction\<close>

lemma evict_scan_lookup:
  "evict_scan m ips now soonest v first = Some ip \<Longrightarrow> (v \<noteq> [] \<Longrightarrow> fmlookup m v \<noteq> None) \<Longrightarrow> fmlookup m ip \<noteq> None"
  by (induction m ips now soonest v first rule: evict_scan.induct)
    (auto split: option.splits if_splits)

text \<open>An expired entry in the range is found; the scan stops at one.\<close>

lemma evict_scan_expired:
  assumes "ip \<in> set ips" "fmlookup m ip = Some e" "en_expires e < now"
  shows "\<exists>k d. evict_scan m ips now soonest v first = Some k \<and> fmlookup m k = Some d \<and> en_expires d < now"
  using assms
  by (induction m ips now soonest v first rule: evict_scan.induct) (auto split: option.splits)

text \<open>Without one, the scan ends at an entry that expires no later than the others.\<close>

lemma evict_scan_soonest:
  assumes "\<And>k e. k \<in> set ips \<Longrightarrow> fmlookup m k = Some e \<Longrightarrow> now \<le> en_expires e"
    and "fmlookup m [] = None"
    and "\<not> first \<Longrightarrow> v \<noteq> [] \<and> (\<exists>e. fmlookup m v = Some e \<and> en_expires e = soonest)"
    and "\<not> first \<or> (\<exists>k\<in>set ips. fmlookup m k \<noteq> None)"
  shows "\<exists>k d. evict_scan m ips now soonest v first = Some k \<and> fmlookup m k = Some d \<and>
    (\<not> first \<longrightarrow> en_expires d \<le> soonest) \<and>
    (\<forall>j\<in>set ips. \<forall>e. fmlookup m j = Some e \<longrightarrow> en_expires d \<le> en_expires e)"
  using assms
proof (induction m ips now soonest v first rule: evict_scan.induct)
  case (1 m now soonest v first)
  then show ?case by auto
next
  case (2 m ip ips now soonest v first)
  show ?case
  proof (cases "fmlookup m ip")
    case None
    have "\<exists>k d. evict_scan m ips now soonest v first = Some k \<and> fmlookup m k = Some d \<and>
      (\<not> first \<longrightarrow> en_expires d \<le> soonest) \<and>
      (\<forall>j\<in>set ips. \<forall>e. fmlookup m j = Some e \<longrightarrow> en_expires d \<le> en_expires e)"
      using 2(5-7) None by (intro 2(1) None) (auto intro: 2(4))
    then show ?thesis using None by auto
  next
    case (Some e)
    then have live: "\<not> en_expires e < now" using 2(4) [of ip e] by simp
    have ne: "ip \<noteq> []" using Some 2(5) by auto
    show ?thesis
    proof (cases "first \<or> en_expires e < soonest")
      case True
      have "\<exists>k d. evict_scan m ips now (en_expires e) ip False = Some k \<and> fmlookup m k = Some d \<and>
        (\<not> False \<longrightarrow> en_expires d \<le> en_expires e) \<and>
        (\<forall>j\<in>set ips. \<forall>e. fmlookup m j = Some e \<longrightarrow> en_expires d \<le> en_expires e)"
        using Some ne 2(5) by (intro 2(2) [OF Some live True]) (auto intro: 2(4))
      then show ?thesis using Some live True by fastforce
    next
      case False
      have "\<exists>k d. evict_scan m ips now soonest v first = Some k \<and> fmlookup m k = Some d \<and>
        (\<not> first \<longrightarrow> en_expires d \<le> soonest) \<and>
        (\<forall>j\<in>set ips. \<forall>e. fmlookup m j = Some e \<longrightarrow> en_expires d \<le> en_expires e)"
        using 2(5,6) False by (intro 2(3) [OF Some live False]) (auto intro: 2(4))
      then show ?thesis using Some live False by fastforce
    qed
  qed
qed

lemma fmap_nonempty: "m \<noteq> fmempty \<Longrightarrow> \<exists>k v. fmlookup m k = Some v"
  by (metis fmap_ext fmempty_lookup option.exhaust)

lemma evict_soonest_victim:
  assumes "enumerates ord m" "m \<noteq> fmempty" "fmlookup m [] = None"
  shows "\<exists>v d. fmlookup m v = Some d \<and> evict_soonest ord now m = fmdrop v m \<and>
    (en_expires d < now \<or> (\<forall>k e. fmlookup m k = Some e \<longrightarrow> now \<le> en_expires e \<and> en_expires d \<le> en_expires e))"
proof -
  have mem: "k \<in> set ord" if "fmlookup m k = Some e" for k e
    using that enumerates_set [OF assms(1)] by (simp add: fmdom'I)
  show ?thesis
  proof (cases "\<exists>k e. fmlookup m k = Some e \<and> en_expires e < now")
    case True
    then obtain k e where "k \<in> set ord" "fmlookup m k = Some e" "en_expires e < now" using mem by blast
    from evict_scan_expired [OF this, of zero_time "[]" True] obtain v d where
      "evict_scan m ord now zero_time [] True = Some v" "fmlookup m v = Some d" "en_expires d < now" by auto
    then show ?thesis by (intro exI [of _ v] exI [of _ d]) (simp add: evict_soonest_def)
  next
    case False
    then have live: "\<And>k e. fmlookup m k = Some e \<Longrightarrow> now \<le> en_expires e" by (meson not_less)
    have "\<exists>k\<in>set ord. fmlookup m k \<noteq> None" using fmap_nonempty [OF assms(2)] mem by auto
    then have "\<exists>k d. evict_scan m ord now zero_time [] True = Some k \<and> fmlookup m k = Some d \<and>
      (\<not> True \<longrightarrow> en_expires d \<le> zero_time) \<and>
      (\<forall>j\<in>set ord. \<forall>e. fmlookup m j = Some e \<longrightarrow> en_expires d \<le> en_expires e)"
      using live assms(3) by (intro evict_scan_soonest) auto
    then obtain v d where v: "evict_scan m ord now zero_time [] True = Some v" "fmlookup m v = Some d"
      "\<forall>j\<in>set ord. \<forall>e. fmlookup m j = Some e \<longrightarrow> en_expires d \<le> en_expires e" by auto
    then show ?thesis using live mem by (intro exI [of _ v] exI [of _ d]) (auto simp: evict_soonest_def)
  qed
qed

interpretation soonest: evicting evict_soonest
proof
  fix ks :: "string list" and now :: int and m :: "(string, entry) fmap" and k e
  show "fmlookup m k = Some e" if "fmlookup (evict_soonest ks now m) k = Some e"
    using that by (auto simp: evict_soonest_def split: option.splits if_splits)
  show "gm_len m \<le> Suc (gm_len (evict_soonest ks now m))"
    by (auto simp: evict_soonest_def gm_len_drop split: option.splits)
  show "gm_len (evict_soonest ks now m) < gm_len m"
    if m: "enumerates ks m" "m \<noteq> fmempty" "fmlookup m [] = None"
  proof -
    obtain v d where "fmlookup m v = Some d" "evict_soonest ks now m = fmdrop v m"
      using evict_soonest_victim [OF m, of now] by blast
    then show ?thesis using gm_len_pos [of m v d] by (simp add: gm_len_drop)
  qed
qed

lemma entry_for_eq:
  "entry_for ord now ip s =
     (soonest.room (bl_max_entries s) ord now ip (bl_banned s),
      case fmlookup (bl_banned s) ip of Some e \<Rightarrow> e | None \<Rightarrow> \<lparr>en_expires = zero_time, en_offenses = 0\<rparr>)"
  by (auto simp: entry_for_def soonest.room_def split: option.splits)

section \<open>Durations\<close>

lemma ban_duration_pos: "0 < maxd \<Longrightarrow> 0 < ban_duration oor base maxd esc n"
  by (auto simp: ban_duration_def Let_def)

lemma ban_duration_le: "ban_duration oor base maxd esc n \<le> maxd"
  by (auto simp: ban_duration_def Let_def)

lemma ban_duration_clamp:
  assumes "oor \<le> 0 \<or> maxd < oor" "1 \<le> maxd"
    and "1 \<le> fl (fl (of_int base) * go_pow esc (n - 1))"
    and "maxd < 2 ^ 63"
  shows "ban_duration oor base maxd esc n = min maxd (trunc (fl (fl (of_int base) * go_pow esc (n - 1))))"
proof -
  let ?t = "trunc (fl (fl (of_int base) * go_pow esc (n - 1)))"
  have "trunc (of_int 1) \<le> ?t" using assms(3) by (intro trunc_mono) simp
  then have "1 \<le> ?t" by (simp only: trunc_of_int)
  then show ?thesis using assms(1,2,4) by (auto simp: ban_duration_def f2i64_def Let_def)
qed

lemma escalated_ge_1:
  assumes "1 \<le> base" "1 \<le> esc" "fl esc = esc" "1 \<le> n"
  shows "1 \<le> fl (fl (of_int base) * go_pow esc (n - 1))"
proof -
  have "fl 1 \<le> fl (of_int base)" using assms(1) by (intro fl_mono) simp
  moreover have "1 \<le> go_pow esc (n - 1)" using assms by (intro go_pow_ge_1) simp_all
  ultimately have "1 * 1 \<le> fl (of_int base) * go_pow esc (n - 1)" by (intro mult_mono) simp_all
  then have "fl 1 \<le> fl (fl (of_int base) * go_pow esc (n - 1))" by (intro fl_mono) simp
  then show ?thesis by simp
qed

section \<open>The table\<close>

lemma entry_build:
  "(e :: entry)\<lparr>en_offenses := n, en_expires := x\<rparr> = \<lparr>en_expires = x, en_offenses = n\<rparr>"
  "(e :: entry)\<lparr>en_expires := x\<rparr> = \<lparr>en_expires = x, en_offenses = en_offenses e\<rparr>"
  "\<lparr>en_expires = en_expires e, en_offenses = en_offenses e\<rparr> = (e :: entry)"
  by (cases e; simp)+

lemma ban_eq:
  "\<not> is_allowed s ip \<Longrightarrow> ban oor ord now ip s =
    (let e = snd (entry_for ord now ip s);
         d = ban_duration oor (bl_base s) (bl_max s) (bl_escalation s) (en_offenses e + 1)
     in (d, s\<lparr>bl_banned := fmupd ip \<lparr>en_expires = now + d, en_offenses = en_offenses e + 1\<rparr>
              (soonest.room (bl_max_entries s) ord now ip (bl_banned s)),
            bl_recent := record_recent ip (bl_recent s)\<rparr>))"
  by (simp add: ban_def entry_for_eq Let_def entry_build)

lemma ban_for_eq:
  "\<not> is_allowed s ip \<Longrightarrow> ban_for ord now ip d s =
    (True, s\<lparr>bl_banned := fmupd ip \<lparr>en_expires = now + d, en_offenses = en_offenses (snd (entry_for ord now ip s)) + 1\<rparr>
              (soonest.room (bl_max_entries s) ord now ip (bl_banned s)),
            bl_recent := record_recent ip (bl_recent s)\<rparr>)"
  by (simp add: ban_for_def entry_for_eq Let_def entry_build)

lemma ban_fleet_eq:
  "\<not> is_allowed s ip \<Longrightarrow> ban_fleet ord now ip d s =
    s\<lparr>bl_banned := fmupd ip
        (let e = snd (entry_for ord now ip s) in \<lparr>en_expires = max (en_expires e) (now + d), en_offenses = en_offenses e\<rparr>)
        (soonest.room (bl_max_entries s) ord now ip (bl_banned s))\<rparr>"
  by (auto simp: ban_fleet_def entry_for_eq Let_def max_def entry_build)

lemma banlist_allowed [simp]:
  "is_allowed s ip \<Longrightarrow> ban oor ord now ip s = (0, s)"
  "is_allowed s ip \<Longrightarrow> ban_for ord now ip d s = (False, s)"
  "is_allowed s ip \<Longrightarrow> ban_fleet ord now ip d s = s"
  by (simp_all add: ban_def ban_for_def ban_fleet_def)

text \<open>The calls a ban table serves.\<close>

datatype ban_call =
  CBan int "string list" time string
| CBanFor "string list" time string duration
| CBanFleet "string list" time string duration
| CUnban string
| CSweep time
| CDrain
| CSetAllow "string list"
| CSetParams duration duration real int
| CLoad "string list" time file_read

fun ban_step :: "ban_call \<Rightarrow> store \<Rightarrow> store" where
  "ban_step (CBan oor ord now ip) s = snd (ban oor ord now ip s)"
| "ban_step (CBanFor ord now ip d) s = snd (ban_for ord now ip d s)"
| "ban_step (CBanFleet ord now ip d) s = ban_fleet ord now ip d s"
| "ban_step (CUnban ip) s = snd (unban ip s)"
| "ban_step (CSweep now) s = sweep now s"
| "ban_step CDrain s = snd (drain_recent s)"
| "ban_step (CSetAllow cidrs) s = set_allowlist cidrs s"
| "ban_step (CSetParams b m e n) s = set_params b m e n s"
| "ban_step (CLoad ord now f) s = snd (load ord now f s)"

text \<open>
  \<open>bound\<close> is the largest \<open>maxEntries\<close> configured during the run. Addresses are not the empty string,
  which the code reserves for "no victim".
\<close>

fun ban_legal :: "int \<Rightarrow> store \<Rightarrow> ban_call \<Rightarrow> bool" where
  "ban_legal bound s (CBan oor ord now ip) \<longleftrightarrow> enumerates ord (bl_banned s) \<and> ip \<noteq> []"
| "ban_legal bound s (CBanFor ord now ip d) \<longleftrightarrow> enumerates ord (bl_banned s) \<and> ip \<noteq> []"
| "ban_legal bound s (CBanFleet ord now ip d) \<longleftrightarrow> enumerates ord (bl_banned s) \<and> ip \<noteq> []"
| "ban_legal bound s (CSetParams b m e n) \<longleftrightarrow> n \<le> bound"
| "ban_legal bound s (CLoad ord now f) \<longleftrightarrow> (\<forall>recs. f = Records recs \<longrightarrow> enumerates ord recs \<and> fmlookup recs [] = None)"
| "ban_legal bound s c \<longleftrightarrow> True"

definition table_ok :: "int \<Rightarrow> store \<Rightarrow> bool" where
  "table_ok bound s \<longleftrightarrow> 1 \<le> bound \<and> bl_max_entries s \<le> bound \<and>
     int (gm_len (bl_banned s)) \<le> bound \<and> fmlookup (bl_banned s) [] = None"

lemma room_no_empty:
  "fmlookup m [] = None \<Longrightarrow> fmlookup (soonest.room cap ord now ip m) [] = None"
  using soonest.room_lookup [of cap ord now ip m "[]"] by (cases "fmlookup (soonest.room cap ord now ip m) []") auto

lemma table_ok_insert [go_inv]:
  assumes "table_ok bound s" "enumerates ord (bl_banned s)" "ip \<noteq> []"
  shows "table_ok bound (s\<lparr>bl_banned := fmupd ip e (soonest.room (bl_max_entries s) ord now ip (bl_banned s)), bl_recent := r\<rparr>)"
  using assms soonest.room_insert_bound [of ord "bl_banned s" bound "bl_max_entries s" ip e now] room_no_empty
  by (simp add: table_ok_def)

lemma table_ok_filter [go_inv]: "table_ok bound s \<Longrightarrow> table_ok bound (s\<lparr>bl_banned := fmfilter P (bl_banned s)\<rparr>)"
  using gm_len_filter [of P "bl_banned s"] by (simp add: table_ok_def)

lemma table_ok_load_loop [go_inv]:
  "table_ok bound s \<Longrightarrow> fmlookup recs [] = None \<Longrightarrow> table_ok bound (load_loop recs ord now s)"
proof (induction recs ord now s rule: load_loop.induct)
  case (2 recs ip ips now s)
  show ?case
  proof (cases "fmlookup recs ip")
    case None
    then show ?thesis using 2 by simp
  next
    case (Some r)
    then have "ip \<noteq> []" using 2(5) by auto
    have "table_ok bound (s\<lparr>bl_banned := fmupd ip \<lparr>en_expires = pr_expires r, en_offenses = pr_offenses r\<rparr> (bl_banned s)\<rparr>)"
      if "int (gm_len (bl_banned s)) < bl_max_entries s"
      using that 2(4) \<open>ip \<noteq> []\<close> by (simp add: table_ok_def gm_len_upd)
    then show ?thesis using 2 Some by simp
  qed
qed simp

lemma ban_step_ok [go_inv]:
  assumes "table_ok bound s" "ban_legal bound s c"
  shows "table_ok bound (ban_step c s)"
proof (cases c)
  case (CBan oor ord now ip)
  then show ?thesis using assms
    by (cases "is_allowed s ip") (simp_all add: ban_eq Let_def table_ok_insert)
next
  case (CBanFor ord now ip d)
  then show ?thesis using assms
    by (cases "is_allowed s ip") (simp_all add: ban_for_eq table_ok_insert)
next
  case (CBanFleet ord now ip d)
  then show ?thesis using assms table_ok_insert [where s = s and r = "bl_recent s" and now = now and ord = ord and ip = ip and bound = bound]
    by (cases "is_allowed s ip") (simp_all add: ban_fleet_eq)
next
  case (CUnban ip)
  then show ?thesis using assms
    by (auto simp: unban_def table_ok_def gm_len_drop split: option.split)
next
  case (CSweep now)
  then show ?thesis using assms by (simp add: sweep_def table_ok_filter)
next
  case CDrain
  then show ?thesis using assms by (simp add: drain_recent_def table_ok_def)
next
  case (CLoad ord now f)
  then show ?thesis using assms by (auto simp: load_def table_ok_load_loop split: file_read.split)
qed (use assms in \<open>simp_all add: table_ok_def set_allowlist_def set_params_def\<close>)

interpretation bans: invariant ban_step "ban_legal bound" "table_ok bound" for bound
  by unfold_locales (rule ban_step_ok)

lemma new_store_ok: "1 \<le> bound \<Longrightarrow> n \<le> bound \<Longrightarrow> table_ok bound (new_store b m e n allow)"
  by (simp add: new_store_def set_allowlist_def table_ok_def)

section \<open>The report buffer\<close>

text \<open>
  What the run has banned locally, in order; drains empty the buffer and are left out here. The buffer
  is a suffix of that issued, all of it as long as it has at most 1024 entries.
\<close>

fun local_bans :: "ban_call list \<Rightarrow> store \<Rightarrow> string list" where
  "local_bans [] s = []"
| "local_bans (c # cs) s =
     (case c of
        CBan oor ord now ip \<Rightarrow> if is_allowed s ip then [] else [ip]
      | CBanFor ord now ip d \<Rightarrow> if is_allowed s ip then [] else [ip]
      | _ \<Rightarrow> []) @ local_bans cs (ban_step c s)"

definition buffers :: "string list \<Rightarrow> string list \<Rightarrow> bool" where
  "buffers issued r \<longleftrightarrow> (\<exists>lost. issued = lost @ r \<and> (lost \<noteq> [] \<longrightarrow> 1024 < length issued \<and> 512 < length r)) \<and> length r \<le> 1024"

lemma buffers_append: "buffers issued r \<Longrightarrow> buffers (issued @ [ip]) (record_recent ip r)"
proof -
  assume "buffers issued r"
  then obtain lost where l: "issued = lost @ r" "lost \<noteq> [] \<longrightarrow> 1024 < length issued \<and> 512 < length r" "length r \<le> 1024"
    by (auto simp: buffers_def)
  show ?thesis
  proof (cases "1024 \<le> length r")
    case True
    then have "issued @ [ip] = (lost @ take 512 r) @ record_recent ip r"
      using l(1) by (simp add: record_recent_def recent_cap_def)
    moreover have "length (record_recent ip r) = 513" "1024 < length (issued @ [ip])"
      using True l by (simp_all add: record_recent_def recent_cap_def)
    ultimately show ?thesis unfolding buffers_def by (intro conjI exI [of _ "lost @ take 512 r"]) simp_all
  next
    case False
    then show ?thesis using l by (auto simp: buffers_def record_recent_def recent_cap_def)
  qed
qed

lemma load_loop_fields [simp]:
  "bl_recent (load_loop recs ord now s) = bl_recent s"
  "bl_allow_nets (load_loop recs ord now s) = bl_allow_nets s"
  by (induction recs ord now s rule: load_loop.induct) (auto split: option.split)

lemma ban_step_recent:
  "c \<noteq> CDrain \<Longrightarrow> buffers issued (bl_recent s) \<Longrightarrow> buffers (issued @ local_bans [c] s) (bl_recent (ban_step c s))"
  by (cases c; cases "is_allowed s (case c of CBan _ _ _ ip \<Rightarrow> ip | CBanFor _ _ ip _ \<Rightarrow> ip | CBanFleet _ _ ip _ \<Rightarrow> ip)")
    (auto simp: ban_eq ban_for_eq ban_fleet_eq Let_def buffers_append unban_def sweep_def
      set_allowlist_def set_params_def load_def split: option.split file_read.split)

lemma run_recent:
  "CDrain \<notin> set cs \<Longrightarrow> buffers issued (bl_recent s) \<Longrightarrow> buffers (issued @ local_bans cs s) (bl_recent (go_run ban_step cs s))"
proof (induction cs arbitrary: issued s)
  case (Cons c cs)
  have "buffers (issued @ local_bans [c] s) (bl_recent (ban_step c s))"
    using Cons.prems by (intro ban_step_recent) auto
  from Cons.IH [OF _ this] Cons.prems show ?case by simp
qed simp

lemma drain_loop_spec:
  "set out = seen \<Longrightarrow> distinct out \<Longrightarrow>
   distinct (drain_loop ips seen out) \<and> set (drain_loop ips seen out) = set out \<union> set ips"
  by (induction ips seen out rule: drain_loop.induct) auto

lemma drain_recent_spec:
  "distinct (fst (drain_recent s)) \<and> set (fst (drain_recent s)) = set (bl_recent s) \<and>
   bl_recent (snd (drain_recent s)) = []"
  using drain_loop_spec [of "[]" "{}" "bl_recent s"] by (simp add: drain_recent_def)

section \<open>What the clients of the table rely on\<close>

lemma ban_lasts:
  assumes "\<not> is_allowed b ip" and "0 < bl_max b"
  shows "0 < fst (ban oor ord now ip b) \<and> fst (ban oor ord now ip b) \<le> bl_max b \<and>
    (\<forall>t. is_banned (snd (ban oor ord now ip b)) ip t = (t < now + fst (ban oor ord now ip b)))"
  using assms by (simp add: ban_eq Let_def ban_duration_pos ban_duration_le is_banned_def is_allowed_def)

lemma ban_for_lasts: "\<not> is_allowed b ip \<Longrightarrow> is_banned (snd (ban_for ord now ip d b)) ip t \<longleftrightarrow> t < now + d"
  by (simp add: ban_for_eq is_banned_def is_allowed_def)

lemma ban_fleet_lasts: "\<not> is_allowed b ip \<Longrightarrow> t < now + d \<Longrightarrow> is_banned (ban_fleet ord now ip d b) ip t"
  by (simp add: ban_fleet_eq is_banned_def is_allowed_def Let_def)

text \<open>
  A place that admits clients by the ban table: \<open>bans\<close> is the table in its state, an event \<open>e\<close> comes from the address
  \<open>who e s\<close> and is checked at the instant \<open>checked e\<close>, and a banned address is not served unless the event is exempt.
  Whatever ban the table takes, the place is then closed to the address for its duration.
\<close>

locale ban_client =
  fixes bans :: "'s \<Rightarrow> store"
    and who :: "'e \<Rightarrow> 's \<Rightarrow> string"
    and checked :: "'e \<Rightarrow> time"
    and exempt :: "'e \<Rightarrow> 's \<Rightarrow> bool"
    and serves :: "'e \<Rightarrow> 's \<Rightarrow> bool"
  assumes keeps_out: "is_banned (bans s) (who e s) (checked e) \<Longrightarrow> \<not> exempt e s \<Longrightarrow> \<not> serves e s"
begin

lemma closed_after_ban:
  "\<not> is_allowed b ip \<Longrightarrow> 0 < bl_max b \<Longrightarrow> bans s = snd (ban oor ord now ip b) \<Longrightarrow> who e s = ip \<Longrightarrow>
   checked e < now + fst (ban oor ord now ip b) \<Longrightarrow> \<not> exempt e s \<Longrightarrow> \<not> serves e s"
  using ban_lasts [of b ip oor ord now] keeps_out by metis

lemma closed_after_manual_ban:
  "\<not> is_allowed b ip \<Longrightarrow> bans s = snd (ban_for ord now ip d b) \<Longrightarrow> who e s = ip \<Longrightarrow> checked e < now + d \<Longrightarrow>
   \<not> exempt e s \<Longrightarrow> \<not> serves e s"
  using ban_for_lasts [of b ip ord now d "checked e"] keeps_out by metis

lemma closed_after_fleet_ban:
  "\<not> is_allowed b ip \<Longrightarrow> bans s = ban_fleet ord now ip d b \<Longrightarrow> who e s = ip \<Longrightarrow> checked e < now + d \<Longrightarrow>
   \<not> exempt e s \<Longrightarrow> \<not> serves e s"
  using ban_fleet_lasts [of b ip "checked e" now d ord] keeps_out by metis

end

section \<open>Properties\<close>

text \<open>
  C17. A ban takes effect at once, lasts exactly as long as \<open>Ban\<close> reports and then lifts itself: for an
  address that is not allowlisted the duration is positive and at most \<open>max\<close>, whatever the offence
  count and however the float conversion overflows, and the address is banned from then on until
  \<open>now + d\<close> and not afterwards.
\<close>

theorem ban_lasts_its_duration:
  assumes "\<not> is_allowed s ip" and "0 < bl_max s"
  shows "0 < fst (ban oor ord now ip s) \<and> fst (ban oor ord now ip s) \<le> bl_max s \<and>
    (\<forall>t. is_banned (snd (ban oor ord now ip s)) ip t = (t < now + fst (ban oor ord now ip s)))"
  using assms by (rule ban_lasts)

theorem ban_lasts_its_duration_witness:
  "0 < fst (ban 0 [] 7 ''203.0.113.7'' (new_store minute hour 2 100 [''127.0.0.1'']))"
proof -
  have "\<not> is_allowed (new_store minute hour 2 100 [''127.0.0.1'']) ''203.0.113.7''" by code_simp
  moreover have "0 < bl_max (new_store minute hour 2 100 [''127.0.0.1''])" by code_simp
  ultimately show ?thesis using ban_lasts_its_duration by blast
qed

text \<open>
  Repeat offenders are never banned for less: with an escalation factor of at least one the
  duration of a later offence is not below that of an earlier one, through every rounding of float64
  and past the overflow of int64, and the first offence gets \<open>base\<close>. The out-of-range conversion is
  the platform's: negative (amd64) or saturated above \<open>max\<close> (arm64).
\<close>

theorem escalation_is_monotone:
  assumes "1 \<le> base" and "base \<le> maxd" and "maxd < 2 ^ 63" and "1 \<le> esc" and "fl esc = esc"
    and "oor \<le> 0 \<or> maxd < oor" and "1 \<le> m" and "m \<le> n"
  shows "ban_duration oor base maxd esc m \<le> ban_duration oor base maxd esc n \<and>
    (base \<le> 2 ^ 53 \<longrightarrow> ban_duration oor base maxd esc 1 = base)"
proof
  let ?x = "\<lambda>n. fl (fl (of_int base) * go_pow esc (n - 1))"
  have "go_pow esc (m - 1) \<le> go_pow esc (n - 1)" using assms by (intro go_pow_mono) simp_all
  then have "?x m \<le> ?x n"
    using assms(1) by (intro fl_mono mult_left_mono fl_nonneg) simp_all
  then have "trunc (?x m) \<le> trunc (?x n)" by (rule trunc_mono)
  moreover have "ban_duration oor base maxd esc k = min maxd (trunc (?x k))" if "1 \<le> k" for k
    using assms that by (intro ban_duration_clamp escalated_ge_1) simp_all
  ultimately show "ban_duration oor base maxd esc m \<le> ban_duration oor base maxd esc n"
    using assms(7,8) by (simp add: min_le_iff_disj)
  show "base \<le> 2 ^ 53 \<longrightarrow> ban_duration oor base maxd esc 1 = base"
  proof
    assume b: "base \<le> 2 ^ 53"
    then have "fl (of_int base) = of_int base" using assms(1) by simp
    then show "ban_duration oor base maxd esc 1 = base"
      using assms b by (simp add: ban_duration_def f2i64_def Let_def)
  qed
qed

theorem escalation_is_monotone_witness:
  "ban_duration (- (2 ^ 63)) (60 * second) (24 * 3600 * second) 2 3 \<le>
   ban_duration (- (2 ^ 63)) (60 * second) (24 * 3600 * second) 2 2000"
  by (rule escalation_is_monotone [THEN conjunct1]) (simp_all add: second_def)

text \<open>
  The ban table cannot be made to grow: over any sequence of calls (bans of the guard, of the
  operator and of the fleet, unbans, sweeps, drains, reloads of the configuration and of the snapshot)
  it holds at most as many entries as the largest \<open>maxEntries\<close> configured.
\<close>

theorem ban_table_bounded:
  assumes "1 \<le> bound" and "n \<le> bound"
    and "legal_run (ban_legal bound) ban_step cs (new_store b m e n allow)"
  shows "count_entries (go_run ban_step cs (new_store b m e n allow)) \<le> bound"
proof -
  have "table_ok bound (go_run ban_step cs (new_store b m e n allow))"
    using assms by (intro bans.run_keeps new_store_ok)
  then show ?thesis by (simp add: table_ok_def count_entries_def)
qed

theorem ban_table_bounded_witness:
  "count_entries (go_run ban_step [CBanFleet [] 0 ''a'' 5, CBanFleet [''a''] 0 ''b'' 5, CSweep 9]
     (new_store 1 1 1 1 [])) \<le> 1"
  by (rule ban_table_bounded)
    (simp_all add: new_store_def set_allowlist_def ban_fleet_eq is_allowed_def soonest.room_def enumerates_def)

text \<open>
  The empty address breaks the bound: an entry under the empty string cannot be evicted, because the
  code takes an empty victim for none, so one more entry than \<open>maxEntries\<close> fits.
\<close>

theorem empty_address_exceeds_bound:
  "count_entries (go_run ban_step [CBanFleet [] 0 [] 5, CBanFleet [[]] 0 ''a'' 5] (new_store 1 1 1 1 [])) = 2"
  by (simp add: new_store_def set_allowlist_def ban_fleet_eq is_allowed_def soonest.room_def
      evict_soonest_def count_entries_def gm_len_upd entry_for_eq Let_def zero_time_def)

text \<open>
  Who is displaced by a ban at a full table: exactly one entry goes, and it is an expired one, or,
  when no ban has expired, one that would have expired soonest. An active ban never yields to a new one
  while a dead entry is there.
\<close>

theorem displaced_ban_is_least_valuable:
  assumes "enumerates ord (bl_banned s)" and "fmlookup (bl_banned s) [] = None" and "\<not> is_allowed s ip"
    and "fmlookup (bl_banned s) ip = None" and "1 \<le> bl_max_entries s" and "bl_max_entries s \<le> count_entries s"
  shows "\<exists>v d. fmlookup (bl_banned s) v = Some d \<and>
    (en_expires d < now \<or>
      (\<forall>k e. fmlookup (bl_banned s) k = Some e \<longrightarrow> now \<le> en_expires e \<and> en_expires d \<le> en_expires e)) \<and>
    (\<forall>k. k \<noteq> ip \<longrightarrow> fmlookup (bl_banned (snd (ban oor ord now ip s))) k =
      (if k = v then None else fmlookup (bl_banned s) k))"
proof -
  have "bl_banned s \<noteq> fmempty" using assms(5,6) by (auto simp: count_entries_def)
  from evict_soonest_victim [OF assms(1) this assms(2), of now] obtain v d where
    v: "fmlookup (bl_banned s) v = Some d" "evict_soonest ord now (bl_banned s) = fmdrop v (bl_banned s)"
    "en_expires d < now \<or> (\<forall>k e. fmlookup (bl_banned s) k = Some e \<longrightarrow> now \<le> en_expires e \<and> en_expires d \<le> en_expires e)"
    by blast
  have "bl_banned (snd (ban oor ord now ip s)) =
    fmupd ip \<lparr>en_expires = now + fst (ban oor ord now ip s), en_offenses = 1\<rparr> (fmdrop v (bl_banned s))"
    using assms v(2) by (simp add: ban_eq Let_def entry_for_eq soonest.room_def count_entries_def)
  then show ?thesis using v by (intro exI [of _ v] exI [of _ d]) simp
qed

theorem displaced_ban_is_least_valuable_witness:
  "fmlookup (bl_banned (snd (ban 0 [''a''] 9 ''b''
     (new_store 1 1 1 1 []\<lparr>bl_banned := fmupd ''a'' \<lparr>en_expires = 5, en_offenses = 1\<rparr> fmempty\<rparr>)))) ''a'' = None"
proof -
  let ?s = "new_store 1 1 1 1 []\<lparr>bl_banned := fmupd ''a'' \<lparr>en_expires = 5, en_offenses = 1\<rparr> fmempty\<rparr>"
  have "\<exists>v d. fmlookup (bl_banned ?s) v = Some d \<and>
    (en_expires d < 9 \<or> (\<forall>k e. fmlookup (bl_banned ?s) k = Some e \<longrightarrow> 9 \<le> en_expires e \<and> en_expires d \<le> en_expires e)) \<and>
    (\<forall>k. k \<noteq> ''b'' \<longrightarrow> fmlookup (bl_banned (snd (ban 0 [''a''] 9 ''b'' ?s))) k =
      (if k = v then None else fmlookup (bl_banned ?s) k))"
    by (rule displaced_ban_is_least_valuable)
      (simp_all add: enumerates_def new_store_def set_allowlist_def is_allowed_def count_entries_def gm_len_upd)
  then show ?thesis by (auto split: if_splits)
qed

text \<open>
  What the agent reports to the fleet: a drain returns every address that was banned locally since
  the last one, each once and none else, as long as there were at most 1024 of those bans; beyond that
  it keeps a suffix of more than 512 of them. Bans the fleet pushed are never reported back.
\<close>

theorem drain_reports_local_bans:
  assumes "bl_recent s = []" and "CDrain \<notin> set cs"
  shows "distinct (fst (drain_recent (go_run ban_step cs s))) \<and>
    (\<exists>lost kept. local_bans cs s = lost @ kept \<and> set (fst (drain_recent (go_run ban_step cs s))) = set kept \<and>
      (lost \<noteq> [] \<longrightarrow> 1024 < length (local_bans cs s) \<and> 512 < length kept))"
proof -
  have "buffers ([] @ local_bans cs s) (bl_recent (go_run ban_step cs s))"
    using assms by (intro run_recent) (simp_all add: buffers_def)
  then obtain lost where "local_bans cs s = lost @ bl_recent (go_run ban_step cs s)"
    "lost \<noteq> [] \<longrightarrow> 1024 < length (local_bans cs s) \<and> 512 < length (bl_recent (go_run ban_step cs s))"
    by (auto simp: buffers_def)
  then show ?thesis using drain_recent_spec by blast
qed

theorem drain_reports_local_bans_witness:
  "distinct (fst (drain_recent (go_run ban_step
     [CBanFor [] 0 ''a'' 5, CBanFleet [''a''] 0 ''b'' 5, CBanFor [''a'', ''b''] 1 ''a'' 5] (new_store 1 1 1 9 []))))"
  by (rule drain_reports_local_bans [THEN conjunct1]) (simp_all add: new_store_def set_allowlist_def)

text \<open>
  A fleet ban never shortens a ban, never touches the offence count and never enters the report
  buffer; the address is banned at least until \<open>now + d\<close>.
\<close>

theorem fleet_ban_only_extends:
  assumes "\<not> is_allowed s ip" and "fmlookup (bl_banned s) ip = Some e"
  shows "(\<forall>t. is_banned (ban_fleet ord now ip d s) ip t = (is_banned s ip t \<or> t < now + d)) \<and>
    map_option en_offenses (fmlookup (bl_banned (ban_fleet ord now ip d s)) ip) = Some (en_offenses e) \<and>
    bl_recent (ban_fleet ord now ip d s) = bl_recent s"
  using assms
  by (auto simp: ban_fleet_eq is_banned_def is_allowed_def entry_for_eq Let_def less_max_iff_disj)

theorem fleet_ban_only_extends_witness:
  "bl_recent (ban_fleet [''a''] 0 ''a'' 3
     (new_store 1 1 1 1 []\<lparr>bl_banned := fmupd ''a'' \<lparr>en_expires = 5, en_offenses = 1\<rparr> fmempty\<rparr>)) = []"
  using fleet_ban_only_extends
    [of "new_store 1 1 1 1 []\<lparr>bl_banned := fmupd ''a'' \<lparr>en_expires = 5, en_offenses = 1\<rparr> fmempty\<rparr>"
      "''a''" "\<lparr>en_expires = 5, en_offenses = 1\<rparr>" "[''a'']" 0 3]
  by (simp add: new_store_def set_allowlist_def is_allowed_def)

section \<open>Restart\<close>

lemma snapshot_lookup:
  "fmlookup (snapshot now s) ip =
     (case fmlookup (bl_banned s) ip of
        Some e \<Rightarrow> if now < en_expires e then Some \<lparr>pr_expires = en_expires e, pr_offenses = en_offenses e\<rparr> else None
      | None \<Rightarrow> None)"
  by (auto simp: snapshot_def split: option.split)

lemma gm_len_snapshot: "gm_len (snapshot now s) \<le> gm_len (bl_banned s)"
  by (simp add: snapshot_def gm_len_filter)

text \<open>Loading restores every record that is still in the future, as long as the table has room.\<close>

lemma load_loop_lookup:
  assumes "distinct ips" and "\<And>ip. ip \<in> set ips \<Longrightarrow> fmlookup (bl_banned s) ip = None"
    and "int (gm_len (bl_banned s)) + int (length ips) \<le> bl_max_entries s"
  shows "fmlookup (bl_banned (load_loop recs ips now s)) ip =
    (if ip \<in> set ips then
       (case fmlookup recs ip of
          Some r \<Rightarrow> if now < pr_expires r then Some \<lparr>en_expires = pr_expires r, en_offenses = pr_offenses r\<rparr> else None
        | None \<Rightarrow> None)
     else fmlookup (bl_banned s) ip)"
  using assms
proof (induction ips arbitrary: s)
  case (Cons k ips)
  have none: "fmlookup (bl_banned s) k = None" using Cons.prems(2) by simp
  show ?case
  proof (cases "\<exists>r. fmlookup recs k = Some r \<and> now < pr_expires r")
    case True
    then obtain r where r: "fmlookup recs k = Some r" "now < pr_expires r" by blast
    let ?s = "s\<lparr>bl_banned := fmupd k \<lparr>en_expires = pr_expires r, en_offenses = pr_offenses r\<rparr> (bl_banned s)\<rparr>"
    have "fmlookup (bl_banned (load_loop recs ips now ?s)) ip = (if ip \<in> set ips then
       (case fmlookup recs ip of
          Some r \<Rightarrow> if now < pr_expires r then Some \<lparr>en_expires = pr_expires r, en_offenses = pr_offenses r\<rparr> else None
        | None \<Rightarrow> None)
     else fmlookup (bl_banned ?s) ip)"
      using Cons.prems none by (intro Cons.IH) (auto simp: gm_len_upd)
    then show ?thesis using Cons.prems r by (auto simp: gm_len_upd)
  next
    case False
    then have "load_loop recs (k # ips) now s = load_loop recs ips now s" by (auto split: option.split)
    then show ?thesis using Cons none False by (auto split: option.split)
  qed
qed simp

text \<open>
  C18. Bans survive a restart: a store that loads the snapshot of another one, later, with the same
  configuration, bans exactly the addresses the old store would have banned, at every instant from then
  on.
\<close>

theorem bans_survive_restart:
  assumes "count_entries s \<le> bl_max_entries s" and "bl_allow_nets s = Some (parse_cidrs allow)"
    and "t1 \<le> t2" and "enumerates ord (snapshot t1 s)" and "t2 \<le> t"
  shows "is_banned (snd (enable_persistence path ord t2 (Records (snapshot t1 s))
      (new_store base maxd esc (bl_max_entries s) allow))) ip t = is_banned s ip t"
proof -
  let ?s0 = "new_store base maxd esc (bl_max_entries s) allow\<lparr>bl_persist_path := path\<rparr>"
  have len: "int (length ord) \<le> bl_max_entries s"
    using enumerates_length [OF assms(4)] gm_len_snapshot [of t1 s] assms(1) by (simp add: count_entries_def)
  have set: "ip \<in> set ord" if "fmlookup (snapshot t1 s) ip = Some r" for r
    using that enumerates_set [OF assms(4)] by (simp add: fmdom'I)
  have "distinct ord" using assms(4) by (simp add: enumerates_def)
  then have "fmlookup (bl_banned (load_loop (snapshot t1 s) ord t2 ?s0)) ip =
    (if ip \<in> set ord then
       (case fmlookup (snapshot t1 s) ip of
          Some r \<Rightarrow> if t2 < pr_expires r then Some \<lparr>en_expires = pr_expires r, en_offenses = pr_offenses r\<rparr> else None
        | None \<Rightarrow> None)
     else fmlookup (bl_banned ?s0) ip)"
    using len by (intro load_loop_lookup) (simp_all add: new_store_def set_allowlist_def)
  then have "fmlookup (bl_banned (load_loop (snapshot t1 s) ord t2 ?s0)) ip =
    (case fmlookup (bl_banned s) ip of Some e \<Rightarrow> if t2 < en_expires e then Some e else None | None \<Rightarrow> None)"
    using set assms(3) by (auto simp: snapshot_lookup entry_build new_store_def set_allowlist_def
        split: option.split if_splits)
  moreover have "is_allowed (load_loop (snapshot t1 s) ord t2 ?s0) ip = is_allowed s ip"
    using assms(2) by (simp add: is_allowed_def new_store_def set_allowlist_def)
  ultimately show ?thesis using assms(5)
    by (auto simp: enable_persistence_def load_def is_banned_def split: option.splits)
qed

theorem bans_survive_restart_witness:
  "is_banned (snd (enable_persistence ''bans.json'' [''a''] 2
     (Records (snapshot 1 (new_store 1 1 1 1 []\<lparr>bl_banned := fmupd ''a'' \<lparr>en_expires = 5, en_offenses = 1\<rparr> fmempty\<rparr>)))
     (new_store 1 1 1 (bl_max_entries (new_store 1 1 1 1 []\<lparr>bl_banned := fmupd ''a'' \<lparr>en_expires = 5, en_offenses = 1\<rparr> fmempty\<rparr>)) []))) ''a'' 3 =
   is_banned (new_store 1 1 1 1 []\<lparr>bl_banned := fmupd ''a'' \<lparr>en_expires = 5, en_offenses = 1\<rparr> fmempty\<rparr>) ''a'' 3"
  by (rule bans_survive_restart)
    (simp_all add: new_store_def set_allowlist_def count_entries_def gm_len_upd snapshot_lookup enumerates_iff)

text \<open>The sweeper unbans nobody: at and after its instant the verdicts are the same.\<close>

lemma sweep_keeps_active:
  assumes "0 \<le> bl_forget s" and "cutoff \<le> t"
  shows "is_banned (sweep cutoff s) ip t = is_banned s ip t"
  using assms by (auto simp: is_banned_def is_allowed_def sweep_def split: option.splits)

lemma list_bans_active:
  assumes "enumerates ord (bl_banned s)"
  shows "(\<exists>i\<in>set (list_bans ord now s). bi_ip i = ip) \<longleftrightarrow> (\<exists>e. fmlookup (bl_banned s) ip = Some e \<and> now < en_expires e)"
proof -
  have "(\<exists>i\<in>set (ban_infos m ips now). bi_ip i = ip) \<longleftrightarrow> ip \<in> set ips \<and> (\<exists>e. fmlookup m ip = Some e \<and> now < en_expires e)" for m ips
    by (induction ips) (auto split: option.splits)
  then show ?thesis using enumerates_set [OF assms] by (auto simp: list_bans_def fmdom'I)
qed

end
