(* ===== verification/Connlimit.thy ===== *)
theory Connlimit
  imports Go_Prelude "HOL-Library.Multiset"
begin

text \<open>
  \<^verbatim>\<open>internal/connlimit/connlimit.go\<close>: the cap on concurrent requests of one address. The release
  function that \<open>Acquire\<close> returns is the closure over its address: \<open>release ip\<close>.
\<close>

section \<open>The code\<close>

record conn_limiter =
  cl_active :: "(string, int) fmap"
  cl_max :: int

definition new_conn_limiter :: "int \<Rightarrow> conn_limiter" where
  "new_conn_limiter maxc = \<lparr>cl_active = fmempty, cl_max = maxc\<rparr>"

definition set_max :: "int \<Rightarrow> conn_limiter \<Rightarrow> conn_limiter" where
  "set_max maxc l = l\<lparr>cl_max := maxc\<rparr>"

text \<open>Reading a missing key of a Go map gives the zero value.\<close>

definition active_of :: "conn_limiter \<Rightarrow> string \<Rightarrow> int" where
  "active_of l ip = (case fmlookup (cl_active l) ip of Some n \<Rightarrow> n | None \<Rightarrow> 0)"

definition acquire :: "string \<Rightarrow> conn_limiter \<Rightarrow> bool \<times> conn_limiter" where
  "acquire ip l =
     (if 0 < cl_max l \<and> cl_max l \<le> active_of l ip then (False, l)
      else (True, l\<lparr>cl_active := fmupd ip (active_of l ip + 1) (cl_active l)\<rparr>))"

definition release :: "string \<Rightarrow> conn_limiter \<Rightarrow> conn_limiter" where
  "release ip l =
     (if active_of l ip \<le> 1 then l\<lparr>cl_active := fmdrop ip (cl_active l)\<rparr>
      else l\<lparr>cl_active := fmupd ip (active_of l ip - 1) (cl_active l)\<rparr>)"

section \<open>The abstract limiter\<close>

text \<open>
  What the map stands for: the multiset of the addresses of the requests in flight. \<open>represents\<close> is the
  abstraction relation; addresses without a request have no entry.
\<close>

definition represents :: "conn_limiter \<Rightarrow> string multiset \<Rightarrow> bool" where
  "represents l M \<longleftrightarrow>
     (\<forall>ip. fmlookup (cl_active l) ip = (if ip \<in># M then Some (int (count M ip)) else None))"

definition may_enter :: "int \<Rightarrow> string \<Rightarrow> string multiset \<Rightarrow> bool" where
  "may_enter maxc ip M \<longleftrightarrow> maxc \<le> 0 \<or> int (count M ip) < maxc"

lemma active_of_count: "represents l M \<Longrightarrow> active_of l ip = int (count M ip)"
  by (auto simp: represents_def active_of_def not_in_iff)

lemma represents_new [go_inv]: "represents (new_conn_limiter maxc) {#}"
  by (simp add: represents_def new_conn_limiter_def)

lemma acquire_refines [go_inv]:
  assumes "represents l M"
  shows "fst (acquire ip l) = may_enter (cl_max l) ip M \<and>
    represents (snd (acquire ip l)) (if may_enter (cl_max l) ip M then add_mset ip M else M)"
  using assms active_of_count [OF assms, of ip]
  by (auto simp: acquire_def may_enter_def represents_def not_in_iff)

lemma release_refines [go_inv]:
  assumes "represents l M" "ip \<in># M"
  shows "represents (release ip l) (M - {#ip#})"
proof -
  have "0 < count M ip" using assms(2) by simp
  then show ?thesis using assms active_of_count [OF assms(1), of ip]
    by (auto simp: release_def represents_def not_in_iff in_diff_count)
qed

text \<open>
  Calls of the requests and of the reload. The multiset of the requests in flight is carried beside the
  limiter: a successful \<open>Acquire\<close> adds its address, its release removes it.
\<close>

datatype conn_call = CAcquire string | CRelease string | CSetMax int

fun conn_step :: "conn_call \<Rightarrow> conn_limiter \<times> string multiset \<Rightarrow> conn_limiter \<times> string multiset" where
  "conn_step (CAcquire ip) (l, M) =
     (snd (acquire ip l), if fst (acquire ip l) then add_mset ip M else M)"
| "conn_step (CRelease ip) (l, M) = (release ip l, M - {#ip#})"
| "conn_step (CSetMax n) (l, M) = (set_max n l, M)"

text \<open>Only an acquired slot is released; the cap stays between 1 and \<open>bound\<close>.\<close>

fun conn_legal :: "int \<Rightarrow> conn_limiter \<times> string multiset \<Rightarrow> conn_call \<Rightarrow> bool" where
  "conn_legal bound (l, M) (CAcquire ip) = True"
| "conn_legal bound (l, M) (CRelease ip) = (ip \<in># M)"
| "conn_legal bound (l, M) (CSetMax n) = (1 \<le> n \<and> n \<le> bound)"

definition conn_inv :: "int \<Rightarrow> conn_limiter \<times> string multiset \<Rightarrow> bool" where
  "conn_inv bound s \<longleftrightarrow> represents (fst s) (snd s) \<and> 1 \<le> cl_max (fst s) \<and> cl_max (fst s) \<le> bound \<and>
     (\<forall>ip. int (count (snd s) ip) \<le> bound)"

lemma conn_step_inv [go_inv]:
  assumes "conn_inv bound s" "conn_legal bound s c"
  shows "conn_inv bound (conn_step c s)"
proof -
  obtain l M where s: "s = (l, M)" by (cases s)
  have r: "represents l M" and m: "1 \<le> cl_max l" "cl_max l \<le> bound" and b: "\<And>ip. int (count M ip) \<le> bound"
    using assms(1) by (auto simp: s conn_inv_def)
  show ?thesis
  proof (cases c)
    case (CAcquire ip)
    have "cl_max (snd (acquire ip l)) = cl_max l" by (simp add: acquire_def)
    moreover have "int (count (if may_enter (cl_max l) ip M then add_mset ip M else M) j) \<le> bound" for j
      using b [of j] m by (auto simp: may_enter_def)
    ultimately show ?thesis using acquire_refines [OF r, of ip] m
      by (simp add: CAcquire s conn_inv_def)
  next
    case (CRelease ip)
    have "cl_max (release ip l) = cl_max l" by (simp add: release_def)
    moreover have "int (count (M - {#ip#}) j) \<le> bound" for j using b [of j] by (auto simp: count_diff)
    ultimately show ?thesis using release_refines [OF r] assms(2) m by (simp add: CRelease s conn_inv_def)
  next
    case (CSetMax n)
    then show ?thesis using assms(2) r b by (simp add: s conn_inv_def set_max_def represents_def)
  qed
qed

interpretation conns: invariant conn_step "conn_legal bound" "conn_inv bound" for bound
  by unfold_locales (rule conn_step_inv)

lemma new_conn_inv: "1 \<le> maxc \<Longrightarrow> maxc \<le> bound \<Longrightarrow> conn_inv bound (new_conn_limiter maxc, {#})"
  by (simp add: conn_inv_def represents_new) (simp add: new_conn_limiter_def)

section \<open>Properties\<close>



end
