(* ===== verification/Secmon.thy ===== *)
theory Secmon
  imports Go_Prelude Go_Time
begin

text \<open>
  \<^verbatim>\<open>internal/secmon/secmon.go\<close>: the traffic time series and the attack events. The argument \<open>c\<close> of \<open>tick\<close>
  is what the monitor's \<open>snapshot\<close> function returned. Counters are int64.
\<close>

section \<open>The code\<close>

record counters =
  ct_total :: int
  ct_allowed :: int
  ct_blocked :: int
  ct_challenged :: int
  ct_bans :: int

record sample =
  sm_t :: time
  sm_reqs :: int
  sm_allowed :: int
  sm_blocked :: int
  sm_challenged :: int
  sm_bans :: int

record event =
  ev_start :: time
  ev_end :: time
  ev_peak_reqs :: int
  ev_peak_mitigated :: int
  ev_total_mitigated :: int
  ev_reason :: string

definition empty_event :: event where
  "empty_event = \<lparr>ev_start = zero_time, ev_end = zero_time, ev_peak_reqs = 0, ev_peak_mitigated = 0,
     ev_total_mitigated = 0, ev_reason = []\<rparr>"

definition ongoing :: "event \<Rightarrow> bool" where
  "ongoing e \<longleftrightarrow> ev_end e = zero_time"

record monitor =
  mn_ring :: "sample list"
  mn_cap :: int
  mn_events :: "event list"
  mn_event_cap :: int
  mn_in_attack :: bool
  mn_cur :: event
  mn_calm :: int
  mn_interval :: duration
  mn_attack_blocked :: int
  mn_exit_ticks :: int
  mn_prev :: counters
  mn_started :: bool
  mn_stopped :: bool

definition new_monitor :: "duration \<Rightarrow> int \<Rightarrow> int \<Rightarrow> int \<Rightarrow> monitor" where
  "new_monitor interval retain attack_blocked exit_ticks =
     (let retain = (if retain \<le> 0 then 3600 else retain);
          attack_blocked = (if attack_blocked \<le> 0 then 20 else attack_blocked);
          exit_ticks = (if exit_ticks \<le> 0 then 5 else exit_ticks)
      in \<lparr>mn_ring = [], mn_cap = retain, mn_events = [], mn_event_cap = 500, mn_in_attack = False,
          mn_cur = empty_event, mn_calm = 0, mn_interval = interval, mn_attack_blocked = attack_blocked,
          mn_exit_ticks = exit_ticks,
          mn_prev = \<lparr>ct_total = 0, ct_allowed = 0, ct_blocked = 0, ct_challenged = 0, ct_bans = 0\<rparr>,
          mn_started = False, mn_stopped = False\<rparr>)"

definition non_neg :: "int \<Rightarrow> int" where
  "non_neg v = (if v < 0 then 0 else v)"

text \<open>\<open>append(xs[:0], xs[1:]...)\<close> when full, then \<open>append(xs, x)\<close>.\<close>

definition push_ring :: "int \<Rightarrow> 'a \<Rightarrow> 'a list \<Rightarrow> 'a list" where
  "push_ring cap x xs = (if cap \<le> int (length xs) then drop 1 xs else xs) @ [x]"

definition append_event :: "event \<Rightarrow> monitor \<Rightarrow> monitor" where
  "append_event e m = m\<lparr>mn_events := push_ring (mn_event_cap m) e (mn_events m)\<rparr>"

definition mitigated :: "sample \<Rightarrow> int" where
  "mitigated s = i64 (sm_blocked s + sm_challenged s)"

definition detect :: "sample \<Rightarrow> time \<Rightarrow> monitor \<Rightarrow> monitor" where
  "detect s now m =
     (let mit = mitigated s in
      if \<not> mn_in_attack m then
        if mn_attack_blocked m \<le> mit then
          m\<lparr>mn_in_attack := True, mn_calm := 0,
            mn_cur := \<lparr>ev_start = now, ev_end = zero_time, ev_peak_reqs = sm_reqs s, ev_peak_mitigated = mit,
              ev_total_mitigated = mit, ev_reason = ''elevated block/challenge rate''\<rparr>\<rparr>
        else m
      else
        let cur = mn_cur m;
            cur = (if ev_peak_reqs cur < sm_reqs s then cur\<lparr>ev_peak_reqs := sm_reqs s\<rparr> else cur);
            cur = (if ev_peak_mitigated cur < mit then cur\<lparr>ev_peak_mitigated := mit\<rparr> else cur);
            cur = cur\<lparr>ev_total_mitigated := i64 (ev_total_mitigated cur + mit)\<rparr>;
            m = m\<lparr>mn_cur := cur\<rparr>
        in if mit < mn_attack_blocked m then
             let m = m\<lparr>mn_calm := mn_calm m + 1\<rparr>
             in if mn_exit_ticks m \<le> mn_calm m then
                  let m = m\<lparr>mn_cur := (mn_cur m)\<lparr>ev_end := now\<rparr>\<rparr>;
                      m = append_event (mn_cur m) m
                  in m\<lparr>mn_in_attack := False, mn_cur := empty_event\<rparr>
                else m
           else m\<lparr>mn_calm := 0\<rparr>)"

definition delta :: "time \<Rightarrow> counters \<Rightarrow> counters \<Rightarrow> sample" where
  "delta now p c =
     \<lparr>sm_t = now,
      sm_reqs = non_neg (i64 (ct_total c - ct_total p)),
      sm_allowed = non_neg (i64 (ct_allowed c - ct_allowed p)),
      sm_blocked = non_neg (i64 (ct_blocked c - ct_blocked p)),
      sm_challenged = non_neg (i64 (ct_challenged c - ct_challenged p)),
      sm_bans = non_neg (i64 (ct_bans c - ct_bans p))\<rparr>"

definition tick :: "counters \<Rightarrow> time \<Rightarrow> monitor \<Rightarrow> monitor" where
  "tick c now m =
     (if \<not> mn_started m then m\<lparr>mn_prev := c, mn_started := True\<rparr>
      else
        let s = delta now (mn_prev m) c;
            m = m\<lparr>mn_prev := c\<rparr>;
            m = m\<lparr>mn_ring := push_ring (mn_cap m) s (mn_ring m)\<rparr>
        in detect s now m)"

definition samples :: "monitor \<Rightarrow> sample list" where
  "samples m = mn_ring m"

definition events :: "monitor \<Rightarrow> event list" where
  "events m = (if mn_in_attack m then [mn_cur m] else []) @ rev (mn_events m)"

definition mon_state :: "monitor \<Rightarrow> string" where
  "mon_state m = (if mn_in_attack m then ''under_attack'' else ''normal'')"

definition mon_close :: "monitor \<Rightarrow> monitor option" where
  "mon_close m = (if mn_stopped m then None else Some (m\<lparr>mn_stopped := True\<rparr>))"

section \<open>Runs of the sampler\<close>

text \<open>
  A run is the list of its ticks, each with the counters and the instant. \<open>deltas\<close> is every sample the
  run produced, including those the ring has dropped.
\<close>

definition mon_step :: "counters \<times> time \<Rightarrow> monitor \<Rightarrow> monitor" where
  "mon_step c m = tick (fst c) (snd c) m"

fun deltas_from :: "counters \<Rightarrow> (counters \<times> time) list \<Rightarrow> sample list" where
  "deltas_from p [] = []"
| "deltas_from p ((c, now) # cs) = delta now p c # deltas_from c cs"

fun deltas :: "(counters \<times> time) list \<Rightarrow> sample list" where
  "deltas [] = []"
| "deltas ((c, now) # cs) = deltas_from c cs"

text \<open>The last \<open>k\<close> elements of a list, the newest first.\<close>

definition newest :: "int \<Rightarrow> 'a list \<Rightarrow> 'a list" where
  "newest k xs = take (nat k) (rev xs)"

lemma newest_snoc: "newest k (xs @ [x]) = (if 0 < k then x # newest (k - 1) xs else [])"
  by (simp add: newest_def take_Cons' nat_diff_distrib')

lemma push_ring_newest:
  assumes "0 < cap"
  shows "push_ring cap x (rev (newest cap xs)) = rev (newest cap (xs @ [x]))"
proof (cases "cap \<le> int (length xs)")
  case True
  then have "length xs - Suc (length xs - nat cap) = nat (cap - 1)" using assms by linarith
  then have "rev (drop (Suc (length xs - nat cap)) xs) = newest (cap - 1) xs"
    by (simp add: newest_def rev_drop)
  moreover have "drop 1 (rev (newest cap xs)) = drop (Suc (length xs - nat cap)) xs"
    using True by (simp add: newest_def rev_take)
  ultimately have "drop 1 (rev (newest cap xs)) = rev (newest (cap - 1) xs)"
    by (metis rev_rev_ident)
  moreover have "cap \<le> int (length (newest cap xs))" using True by (simp add: newest_def)
  ultimately show ?thesis using assms by (simp add: push_ring_def newest_snoc)
next
  case False
  then show ?thesis using assms by (simp add: push_ring_def newest_def)
qed

lemma detect_fields [simp]:
  "mn_attack_blocked (detect s now m) = mn_attack_blocked m"
  "mn_exit_ticks (detect s now m) = mn_exit_ticks m"
  "mn_prev (detect s now m) = mn_prev m"
  "mn_started (detect s now m) = mn_started m"
  "mn_cap (detect s now m) = mn_cap m"
  "mn_event_cap (detect s now m) = mn_event_cap m"
  "mn_ring (detect s now m) = mn_ring m"
  by (simp_all add: detect_def Let_def append_event_def)

definition hot :: "int \<Rightarrow> sample \<Rightarrow> bool" where
  "hot threshold s \<longleftrightarrow> threshold \<le> mitigated s"

text \<open>The number of quiet samples at the end, up to the first hot one from the end.\<close>

definition quiet :: "int \<Rightarrow> sample list \<Rightarrow> nat" where
  "quiet threshold ss = length (takeWhile (\<lambda>s. \<not> hot threshold s) (rev ss))"

lemma detect_attack:
  "mn_in_attack (detect s now m) \<longleftrightarrow>
     hot (mn_attack_blocked m) s \<or> (mn_in_attack m \<and> mn_calm m + 1 < mn_exit_ticks m)"
  by (auto simp: detect_def Let_def append_event_def hot_def)

lemma detect_calm:
  "mn_in_attack (detect s now m) \<Longrightarrow>
     mn_calm (detect s now m) = (if hot (mn_attack_blocked m) s then 0 else mn_calm m + 1)"
  by (auto simp: detect_def Let_def append_event_def hot_def split: if_splits)

definition mon_inv :: "sample list \<Rightarrow> monitor \<Rightarrow> bool" where
  "mon_inv ss m \<longleftrightarrow> 0 < mn_exit_ticks m \<and> 0 < mn_cap m \<and> mn_ring m = rev (newest (mn_cap m) ss) \<and>
     (mn_in_attack m \<longleftrightarrow> (\<exists>s\<in>set (newest (mn_exit_ticks m) ss). hot (mn_attack_blocked m) s)) \<and>
     (mn_in_attack m \<longrightarrow> mn_calm m = int (quiet (mn_attack_blocked m) ss))"


lemma takeWhile_not_take:
  "(\<exists>x\<in>set (take n ys). P x) \<longleftrightarrow>
   length (takeWhile (\<lambda>x. \<not> P x) ys) < n \<and> length (takeWhile (\<lambda>x. \<not> P x) ys) < length ys"
  by (induction ys arbitrary: n) (auto simp: take_Cons' gr0_conv_Suc)

lemma hot_newest:
  "(\<exists>s\<in>set (newest k ss). hot a s) \<longleftrightarrow> int (quiet a ss) < k \<and> quiet a ss < length ss"
  unfolding newest_def quiet_def takeWhile_not_take by auto

lemma quiet_snoc: "quiet a (ss @ [s]) = (if hot a s then 0 else Suc (quiet a ss))"
  by (simp add: quiet_def)

lemma detect_mon_inv [go_inv]:
  assumes "mon_inv ss m"
  shows "mon_inv (ss @ [s]) (detect s now (m\<lparr>mn_prev := c, mn_ring := push_ring (mn_cap m) s (mn_ring m)\<rparr>))"
proof -
  let ?m = "m\<lparr>mn_prev := c, mn_ring := push_ring (mn_cap m) s (mn_ring m)\<rparr>"
  let ?a = "mn_attack_blocked m"
  have i: "0 < mn_exit_ticks m" "0 < mn_cap m" "mn_ring m = rev (newest (mn_cap m) ss)"
    "mn_in_attack m \<longleftrightarrow> int (quiet ?a ss) < mn_exit_ticks m \<and> quiet ?a ss < length ss"
    "mn_in_attack m \<longrightarrow> mn_calm m = int (quiet ?a ss)"
    using assms by (auto simp: mon_inv_def hot_newest)
  have attack: "mn_in_attack (detect s now ?m) \<longleftrightarrow> hot ?a s \<or> (mn_in_attack m \<and> mn_calm m + 1 < mn_exit_ticks m)"
    by (simp add: detect_attack)
  have calm: "mn_in_attack (detect s now ?m) \<Longrightarrow> mn_calm (detect s now ?m) = (if hot ?a s then 0 else mn_calm m + 1)"
    by (simp add: detect_calm)
  show ?thesis
    using i attack calm by (auto simp: mon_inv_def hot_newest quiet_snoc push_ring_newest)
qed

lemma new_monitor_inv: "mon_inv [] (new_monitor iv retain ab et)"
  by (simp add: mon_inv_def new_monitor_def newest_def Let_def)

lemma run_started:
  assumes "mn_started m" "mon_inv ss m"
  shows "mon_inv (ss @ deltas_from (mn_prev m) cs) (go_run mon_step cs m)"
  using assms
proof (induction cs arbitrary: ss m)
  case (Cons x cs)
  obtain c now where x: "x = (c, now)" by (cases x)
  let ?s = "delta now (mn_prev m) c"
  have step: "mon_step x m = detect ?s now (m\<lparr>mn_prev := c, mn_ring := push_ring (mn_cap m) ?s (mn_ring m)\<rparr>)"
    using Cons.prems(1) by (simp add: x mon_step_def tick_def Let_def)
  have "mon_inv ((ss @ [?s]) @ deltas_from (mn_prev (mon_step x m)) cs) (go_run mon_step cs (mon_step x m))"
    using Cons.prems by (intro Cons.IH) (simp_all add: step detect_mon_inv)
  moreover have "mn_prev (mon_step (c, now) m) = c" using step by (simp add: x)
  ultimately show ?case by (simp add: x)
qed simp

lemma run_mon_inv: "mon_inv (deltas cs) (go_run mon_step cs (new_monitor iv retain ab et))"
proof (cases cs)
  case Nil
  then show ?thesis by (simp add: new_monitor_inv)
next
  case (Cons x xs)
  obtain c now where x: "x = (c, now)" by (cases x)
  let ?m = "new_monitor iv retain ab et\<lparr>mn_prev := c, mn_started := True\<rparr>"
  have "mon_inv [] ?m" using new_monitor_inv [of iv retain ab et] by (simp add: mon_inv_def)
  from run_started [OF _ this, of xs] show ?thesis
    by (simp add: Cons x mon_step_def tick_def new_monitor_def Let_def)
qed

lemma run_fields:
  "mn_attack_blocked (go_run mon_step cs m) = mn_attack_blocked m"
  "mn_exit_ticks (go_run mon_step cs m) = mn_exit_ticks m"
  "mn_cap (go_run mon_step cs m) = mn_cap m"
  by (induction cs arbitrary: m) (simp_all add: mon_step_def tick_def Let_def)

section \<open>Properties\<close>

text \<open>
  C20. The hysteresis of the attack state, without its counters: the monitor says \<open>under_attack\<close> exactly
  when one of the last \<open>exitTicks\<close> samples had at least \<open>attackBlocked\<close> mitigated requests, whatever came
  before. So an attack shows on the first hot interval and clears after exactly \<open>exitTicks\<close> quiet ones.
\<close>

theorem under_attack_iff_recently_hot:
  "mon_state (go_run mon_step cs (new_monitor iv retain ab et)) = ''under_attack'' \<longleftrightarrow>
     (\<exists>s\<in>set (newest (mn_exit_ticks (new_monitor iv retain ab et)) (deltas cs)).
        hot (mn_attack_blocked (new_monitor iv retain ab et)) s)"
  using run_mon_inv [of cs iv retain ab et] by (simp add: mon_inv_def mon_state_def run_fields)

text \<open>
  The time series is the most recent part of the run: \<open>Samples\<close> returns the last \<open>retain\<close> samples,
  oldest first, all of them while there are fewer.
\<close>

theorem samples_are_the_latest:
  "samples (go_run mon_step cs (new_monitor iv retain ab et)) =
     rev (newest (mn_cap (new_monitor iv retain ab et)) (deltas cs))"
  using run_mon_inv [of cs iv retain ab et] by (simp add: mon_inv_def samples_def run_fields)

text \<open>Counters that only grow: no interval is lost and none is counted twice.\<close>

lemma deltas_from_sum:
  assumes "sorted (ct_total p # map (\<lambda>c. ct_total (fst c)) cs)" "0 \<le> ct_total p"
    and "\<forall>c\<in>set cs. ct_total (fst c) < 2 ^ 63"
  shows "sum_list (map sm_reqs (deltas_from p cs)) = last (ct_total p # map (\<lambda>c. ct_total (fst c)) cs) - ct_total p"
  using assms
proof (induction cs arbitrary: p)
  case (Cons x cs)
  obtain c now where x: "x = (c, now)" by (cases x)
  have "0 \<le> ct_total c - ct_total p" "ct_total c - ct_total p < 2 ^ 63" using Cons.prems by (auto simp: x)
  then have "non_neg (i64 (ct_total c - ct_total p)) = ct_total c - ct_total p" by (simp add: non_neg_def)
  moreover have "sum_list (map sm_reqs (deltas_from c cs)) = last (ct_total c # map (\<lambda>c. ct_total (fst c)) cs) - ct_total c"
    using Cons.prems by (intro Cons.IH) (auto simp: x)
  ultimately show ?case by (simp add: x delta_def)
qed simp

text \<open>
  The charts add up: for counters that only grow within int64, the requests of all samples of a
  run sum to what the counter gained between the first tick and the last.
\<close>

theorem samples_account_for_all:
  assumes "sorted (map (\<lambda>c. ct_total (fst c)) (x # cs))" and "\<forall>c\<in>set (x # cs). 0 \<le> ct_total (fst c) \<and> ct_total (fst c) < 2 ^ 63"
  shows "sum_list (map sm_reqs (deltas (x # cs))) = ct_total (fst (last (x # cs))) - ct_total (fst x)"
proof -
  obtain c now where x: "x = (c, now)" by (cases x)
  have "last (ct_total c # map (\<lambda>c. ct_total (fst c)) cs) = ct_total (fst (last (x # cs)))"
    by (simp add: x last_map)
  then show ?thesis using assms deltas_from_sum [of c cs] by (simp add: x)
qed

theorem samples_account_for_all_witness:
  "sum_list (map sm_reqs (deltas
     [(\<lparr>ct_total = 1, ct_allowed = 1, ct_blocked = 0, ct_challenged = 0, ct_bans = 0\<rparr>, 0),
      (\<lparr>ct_total = 5, ct_allowed = 2, ct_blocked = 3, ct_challenged = 0, ct_bans = 1\<rparr>, 1)])) = 4"
  using samples_account_for_all
    [of "(\<lparr>ct_total = 1, ct_allowed = 1, ct_blocked = 0, ct_challenged = 0, ct_bans = 0\<rparr>, 0)"
      "[(\<lparr>ct_total = 5, ct_allowed = 2, ct_blocked = 3, ct_challenged = 0, ct_bans = 1\<rparr>, 1)]"]
  by simp

section \<open>The event log\<close>

text \<open>
  \<open>t\<close> is the instant of the last tick. Closed events are ordered in time and do not overlap, each peaked at
  or above the threshold, and the open one started after all of them.
\<close>

definition event_ok :: "int \<Rightarrow> event \<Rightarrow> bool" where
  "event_ok a e \<longleftrightarrow> ev_start e \<le> ev_end e \<and> a \<le> ev_peak_mitigated e"

definition log_ok :: "time \<Rightarrow> monitor \<Rightarrow> bool" where
  "log_ok t m \<longleftrightarrow>
     (\<forall>e\<in>set (mn_events m). event_ok (mn_attack_blocked m) e \<and> ev_end e \<le> t) \<and>
     sorted_wrt (\<lambda>e f. ev_end e \<le> ev_start f) (mn_events m) \<and>
     int (length (mn_events m)) \<le> mn_event_cap m \<and> 1 \<le> mn_event_cap m \<and>
     (mn_in_attack m \<longrightarrow> ev_start (mn_cur m) \<le> t \<and> mn_attack_blocked m \<le> ev_peak_mitigated (mn_cur m) \<and>
        (\<forall>e\<in>set (mn_events m). ev_end e \<le> ev_start (mn_cur m)))"

lemma push_ring_set: "set (push_ring cap x xs) \<subseteq> insert x (set xs)"
  by (auto simp: push_ring_def dest: in_set_dropD)

lemma push_ring_sorted:
  "sorted_wrt R xs \<Longrightarrow> \<forall>y\<in>set xs. R y x \<Longrightarrow> sorted_wrt R (push_ring cap x xs)"
  by (auto simp: push_ring_def sorted_wrt_append sorted_wrt_drop dest: in_set_dropD)

lemma push_ring_length: "1 \<le> cap \<Longrightarrow> int (length xs) \<le> cap \<Longrightarrow> int (length (push_ring cap x xs)) \<le> cap"
  by (auto simp: push_ring_def)

lemma detect_log_ok [go_inv]:
  assumes "log_ok t m" "t \<le> now"
  shows "log_ok now (detect s now m)"
proof -
  define a where "a = mn_attack_blocked m"
  define cur where "cur = (mn_cur m)\<lparr>ev_peak_reqs := max (ev_peak_reqs (mn_cur m)) (sm_reqs s),
    ev_peak_mitigated := max (ev_peak_mitigated (mn_cur m)) (mitigated s),
    ev_total_mitigated := i64 (ev_total_mitigated (mn_cur m) + mitigated s)\<rparr>"
  have ev: "\<forall>e\<in>set (mn_events m). event_ok a e \<and> ev_end e \<le> now"
    using assms by (fastforce simp: log_ok_def a_def)
  consider "\<not> mn_in_attack m" | "mn_in_attack m" "hot a s \<or> mn_calm m + 1 < mn_exit_ticks m"
    | "mn_in_attack m" "\<not> hot a s" "mn_exit_ticks m \<le> mn_calm m + 1" by linarith
  then show ?thesis
  proof cases
    case 1
    then show ?thesis using assms ev by (auto simp: log_ok_def detect_def Let_def a_def)
  next
    case 2
    have "mn_events (detect s now m) = mn_events m" "mn_in_attack (detect s now m)" "mn_cur (detect s now m) = cur"
      using 2 by (auto simp: detect_def Let_def hot_def a_def cur_def max_def)
    then show ?thesis using assms ev 2(1) by (auto simp: log_ok_def a_def cur_def)
  next
    case 3
    have "mn_events (detect s now m) = push_ring (mn_event_cap m) (cur\<lparr>ev_end := now\<rparr>) (mn_events m)"
      "\<not> mn_in_attack (detect s now m)"
      using 3 by (auto simp: detect_def Let_def hot_def a_def cur_def max_def append_event_def)
    moreover have "event_ok a (cur\<lparr>ev_end := now\<rparr>)" "\<forall>e\<in>set (mn_events m). ev_end e \<le> ev_start cur"
      using assms 3(1) by (auto simp: log_ok_def a_def cur_def event_ok_def)
    ultimately show ?thesis using assms ev push_ring_set [of "mn_event_cap m" "cur\<lparr>ev_end := now\<rparr>" "mn_events m"]
        push_ring_sorted [of "\<lambda>e f. ev_end e \<le> ev_start f" "mn_events m" "cur\<lparr>ev_end := now\<rparr>" "mn_event_cap m"]
      by (auto simp: log_ok_def push_ring_length a_def)
  qed
qed

fun clock_legal :: "monitor \<times> time \<Rightarrow> counters \<times> time \<Rightarrow> bool" where
  "clock_legal (m, t) (c, now) = (t \<le> now)"

fun clock_step :: "counters \<times> time \<Rightarrow> monitor \<times> time \<Rightarrow> monitor \<times> time" where
  "clock_step (c, now) (m, t) = (tick c now m, now)"

lemma clock_step_log_ok [go_inv]:
  assumes "log_ok (snd s) (fst s)" "clock_legal s c"
  shows "log_ok (snd (clock_step c s)) (fst (clock_step c s))"
proof -
  obtain m t cc now where s: "s = (m, t)" "c = (cc, now)" by (cases s, cases c)
  have le: "t \<le> now" using assms(2) by (simp add: s)
  have up: "log_ok t (m\<lparr>mn_prev := cc, mn_ring := r\<rparr>)" for r using assms(1) by (simp add: s log_ok_def)
  show ?thesis
  proof (cases "mn_started m")
    case True
    then show ?thesis using detect_log_ok [OF up le] by (simp add: s tick_def Let_def)
  next
    case False
    then show ?thesis using assms(1) le by (fastforce simp: s tick_def log_ok_def)
  qed
qed

interpretation mons: invariant clock_step clock_legal "\<lambda>s. log_ok (snd s) (fst s)"
  by unfold_locales (rule clock_step_log_ok)

text \<open>
  C21. The event log is a sound account of attacks: with a clock that does not go backwards, at most 500
  closed events are kept; each ends after it starts and peaked at \<open>attackBlocked\<close> or more; and they are in
  order of time without overlap.
\<close>

theorem event_log_sound:
  assumes "legal_run clock_legal clock_step cs (new_monitor iv retain ab et, t0)"
    and "go_run clock_step cs (new_monitor iv retain ab et, t0) = (m, t)"
  shows "sorted_wrt (\<lambda>e f. ev_end e \<le> ev_start f) (mn_events m) \<and> int (length (mn_events m)) \<le> mn_event_cap m \<and>
    (\<forall>e\<in>set (mn_events m). ev_start e \<le> ev_end e \<and> mn_attack_blocked m \<le> ev_peak_mitigated e)"
proof -
  have "log_ok t0 (new_monitor iv retain ab et)" by (simp add: log_ok_def new_monitor_def Let_def)
  then have "log_ok t m" using mons.run_keeps [OF _ assms(1)] assms(2) by simp
  then show ?thesis by (auto simp: log_ok_def event_ok_def)
qed

theorem event_log_sound_witness:
  "sorted_wrt (\<lambda>e f. ev_end e \<le> ev_start f) (mn_events (fst (go_run clock_step
     [(\<lparr>ct_total = 1, ct_allowed = 1, ct_blocked = 0, ct_challenged = 0, ct_bans = 0\<rparr>, 0),
      (\<lparr>ct_total = 5, ct_allowed = 2, ct_blocked = 3, ct_challenged = 0, ct_bans = 1\<rparr>, 1),
      (\<lparr>ct_total = 5, ct_allowed = 2, ct_blocked = 3, ct_challenged = 0, ct_bans = 1\<rparr>, 2)]
     (new_monitor 1 10 3 1, 0))))"
  by (rule event_log_sound [THEN conjunct1, OF _ prod.collapse [symmetric]]) simp

end
