(* ===== verification/Metrics.thy ===== *)
theory Metrics
  imports Go_Prelude Go_Time Go_Strings
begin

text \<open>
  \<^verbatim>\<open>internal/metrics/metrics.go\<close>: the counters (atomic int64 values), the JSON snapshot and the Prometheus
  text. \<open>fmt_g\<close> stands for the \<open>%g\<close> verb of \<open>fmt\<close>.
\<close>

section \<open>The code\<close>

record metrics =
  mt_started_at :: time
  mt_total :: int
  mt_allowed :: int
  mt_blocked_banned :: int
  mt_rate_limited_ip :: int
  mt_rate_limited_gl :: int
  mt_conn_rejected :: int
  mt_bans_issued :: int
  mt_challenged :: int
  mt_would_block :: int
  mt_tarpitted :: int
  mt_fp_blocked :: int
  mt_scrub_actions :: int
  mt_scrub_engaged :: int
  mt_mc_conn_total :: int
  mt_mc_conn_rejected :: int

definition new_metrics :: "time \<Rightarrow> metrics" where
  "new_metrics now =
     \<lparr>mt_started_at = now, mt_total = 0, mt_allowed = 0, mt_blocked_banned = 0, mt_rate_limited_ip = 0,
      mt_rate_limited_gl = 0, mt_conn_rejected = 0, mt_bans_issued = 0, mt_challenged = 0,
      mt_would_block = 0, mt_tarpitted = 0, mt_fp_blocked = 0, mt_scrub_actions = 0,
      mt_scrub_engaged = 0, mt_mc_conn_total = 0, mt_mc_conn_rejected = 0\<rparr>"

text \<open>\<open>x.Add(1)\<close> of an atomic int64.\<close>

definition add1 :: "int \<Rightarrow> int" where "add1 n = i64 (n + 1)"

record metrics_snapshot =
  sn_uptime_seconds :: real
  sn_total :: int
  sn_allowed :: int
  sn_blocked_banned :: int
  sn_rate_limited_per_ip :: int
  sn_rate_limited_global :: int
  sn_connection_rejected :: int
  sn_bans_issued :: int
  sn_challenged :: int
  sn_would_block :: int
  sn_mc_conn_total :: int
  sn_mc_conn_rejected :: int
  sn_banned_ips_tracked :: int

definition metrics_handler :: "time \<Rightarrow> int \<Rightarrow> metrics \<Rightarrow> metrics_snapshot" where
  "metrics_handler now tracked m =
     \<lparr>sn_uptime_seconds = dur_seconds (time_sub now (mt_started_at m)),
      sn_total = mt_total m,
      sn_allowed = mt_allowed m,
      sn_blocked_banned = mt_blocked_banned m,
      sn_rate_limited_per_ip = mt_rate_limited_ip m,
      sn_rate_limited_global = mt_rate_limited_gl m,
      sn_connection_rejected = mt_conn_rejected m,
      sn_bans_issued = mt_bans_issued m,
      sn_challenged = mt_challenged m,
      sn_would_block = mt_would_block m,
      sn_mc_conn_total = mt_mc_conn_total m,
      sn_mc_conn_rejected = mt_mc_conn_rejected m,
      sn_banned_ips_tracked = tracked\<rparr>"

definition newline :: string where "newline = [CHR 0x0A]"

definition prom_line :: "string \<Rightarrow> string \<Rightarrow> string \<Rightarrow> string \<Rightarrow> string" where
  "prom_line kind name help v =
     ''# HELP '' @ name @ '' '' @ help @ newline @ ''# TYPE '' @ name @ '' '' @ kind @ newline @
     name @ '' '' @ v @ newline"

definition prom_counter :: "string \<Rightarrow> string \<Rightarrow> int \<Rightarrow> string" where
  "prom_counter name help v = prom_line ''counter'' name help (itoa v)"

definition prom_gauge :: "(real \<Rightarrow> string) \<Rightarrow> string \<Rightarrow> string \<Rightarrow> real \<Rightarrow> string" where
  "prom_gauge fmt_g name help v = prom_line ''gauge'' name help (fmt_g v)"

definition prometheus :: "(real \<Rightarrow> string) \<Rightarrow> time \<Rightarrow> int \<Rightarrow> metrics \<Rightarrow> string" where
  "prometheus fmt_g now tracked m = concat
     [prom_counter ''aggershield_requests_total'' ''Total requests seen'' (mt_total m),
      prom_counter ''aggershield_allowed_total'' ''Requests passed to the upstream'' (mt_allowed m),
      prom_counter ''aggershield_blocked_banned_total'' ''Requests blocked because the IP was banned'' (mt_blocked_banned m),
      prom_counter ''aggershield_rate_limited_per_ip_total'' ''Requests over the per-IP limit'' (mt_rate_limited_ip m),
      prom_counter ''aggershield_rate_limited_global_total'' ''Requests shed by the global limiter'' (mt_rate_limited_gl m),
      prom_counter ''aggershield_connection_rejected_total'' ''Requests rejected by the per-IP concurrency cap'' (mt_conn_rejected m),
      prom_counter ''aggershield_bans_issued_total'' ''Bans issued'' (mt_bans_issued m),
      prom_counter ''aggershield_challenged_total'' ''Proof-of-work challenges served'' (mt_challenged m),
      prom_counter ''aggershield_would_block_total'' ''Dry-run decisions that would have blocked'' (mt_would_block m),
      prom_counter ''aggershield_tarpitted_total'' ''Blocked requests held in the tarpit'' (mt_tarpitted m),
      prom_counter ''aggershield_fingerprint_blocked_total'' ''Requests blocked by TLS fingerprint'' (mt_fp_blocked m),
      prom_counter ''aggershield_scrub_actions_total'' ''Upstream-scrubber engage/disengage calls'' (mt_scrub_actions m),
      prom_gauge fmt_g ''aggershield_scrub_engaged'' ''1 while upstream scrubbing is engaged'' (fl (of_int (mt_scrub_engaged m))),
      prom_counter ''aggershield_mc_connections_total'' ''Minecraft connections seen'' (mt_mc_conn_total m),
      prom_counter ''aggershield_mc_rejected_total'' ''Minecraft connections rejected'' (mt_mc_conn_rejected m),
      prom_gauge fmt_g ''aggershield_banned_ips'' ''Currently tracked banned IPs'' (fl (of_int tracked)),
      prom_gauge fmt_g ''aggershield_uptime_seconds'' ''Process uptime in seconds''
        (dur_seconds (time_sub now (mt_started_at m)))]"

lemma add1_exact [simp]: "0 \<le> n \<Longrightarrow> n < 2 ^ 63 - 1 \<Longrightarrow> add1 n = n + 1"
  by (simp add: add1_def)

end
