(* ===== verification/McProtocol.thy ===== *)
theory McProtocol
  imports Go_Prelude "HOL-Library.Word"
begin

unbundle bit_operations_syntax

text \<open>
  \<^verbatim>\<open>internal/mcproxy/protocol.go\<close>: the parser of the first packet of a Minecraft connection. A reader is
  the list of the bytes it still delivers before it fails (end of stream, deadline, reset). An \<open>int\<close> of
  the code is at most \<open>2^35\<close> here, so it is an \<open>int\<close> without wrap-around.
\<close>

section \<open>The code\<close>

type_synonym octet = "8 word"

definition state_status :: int where "state_status = 1"
definition state_login :: int where "state_login = 2"
definition max_varint_bytes :: nat where "max_varint_bytes = 5"
definition max_packet_bytes :: int where "max_packet_bytes = 2048"

datatype mc_error = IoError | VarIntTooBig | PacketTooBig | BadPacket

record handshake =
  hs_protocol :: int
  hs_address :: "octet list"
  hs_port :: "16 word"
  hs_next_state :: int

text \<open>One round of the loops: \<open>value |= int(b&0x7F) << (7*i)\<close>.\<close>

definition varint_or :: "int \<Rightarrow> octet \<Rightarrow> nat \<Rightarrow> int" where
  "varint_or acc b i = acc OR push_bit (7 * i) (uint (b AND 0x7F))"

definition last_byte :: "octet \<Rightarrow> bool" where
  "last_byte b \<longleftrightarrow> b AND 0x80 = 0"

text \<open>\<open>readVarInt\<close>: the acc or an error, the raw bytes, and what the reader still holds.\<close>

fun read_varint_loop :: "nat \<Rightarrow> int \<Rightarrow> octet list \<Rightarrow> octet list \<Rightarrow> (mc_error + int) \<times> octet list \<times> octet list" where
  "read_varint_loop i acc raw [] =
     (if i < max_varint_bytes then (Inl IoError, raw, []) else (Inl VarIntTooBig, raw, []))"
| "read_varint_loop i acc raw (b # r) =
     (if i < max_varint_bytes then
        (let raw = raw @ [b]; acc = varint_or acc b i
         in if last_byte b then (Inr acc, raw, r) else read_varint_loop (i + 1) acc raw r)
      else (Inl VarIntTooBig, raw, b # r))"

definition read_varint :: "octet list \<Rightarrow> (mc_error + int) \<times> octet list \<times> octet list" where
  "read_varint r = read_varint_loop 0 0 [] r"

text \<open>\<open>io.ReadFull\<close> of \<open>n\<close> bytes.\<close>

definition read_full :: "nat \<Rightarrow> octet list \<Rightarrow> octet list option \<times> octet list" where
  "read_full n r = (if n \<le> length r then (Some (take n r), drop n r) else (None, []))"

record cursor =
  cu_b :: "octet list"
  cu_i :: nat

fun cur_varint_loop :: "nat \<Rightarrow> int \<Rightarrow> nat \<Rightarrow> cursor \<Rightarrow> (mc_error + int) \<times> cursor" where
  "cur_varint_loop 0 acc n c = (Inl VarIntTooBig, c)"
| "cur_varint_loop (Suc k) acc n c =
     (if length (cu_b c) \<le> cu_i c then (Inl BadPacket, c)
      else
        let bv = cu_b c ! cu_i c;
            c = c\<lparr>cu_i := cu_i c + 1\<rparr>;
            acc = varint_or acc bv n
        in if last_byte bv then (Inr acc, c) else cur_varint_loop k acc (n + 1) c)"

definition cur_varint :: "cursor \<Rightarrow> (mc_error + int) \<times> cursor" where
  "cur_varint c = cur_varint_loop max_varint_bytes 0 0 c"

definition cur_str :: "cursor \<Rightarrow> (mc_error + octet list) \<times> cursor" where
  "cur_str c =
     (case cur_varint c of
        (Inl e, c) \<Rightarrow> (Inl e, c)
      | (Inr n, c) \<Rightarrow>
          if n < 0 \<or> int (length (cu_b c)) < int (cu_i c) + n then (Inl BadPacket, c)
          else (Inr (take (nat n) (drop (cu_i c) (cu_b c))), c\<lparr>cu_i := cu_i c + nat n\<rparr>))"

definition cur_u16 :: "cursor \<Rightarrow> (mc_error + 16 word) \<times> cursor" where
  "cur_u16 c =
     (if length (cu_b c) < cu_i c + 2 then (Inl BadPacket, c)
      else
        (Inr (push_bit 8 (ucast (cu_b c ! cu_i c)) OR ucast (cu_b c ! (cu_i c + 1))),
         c\<lparr>cu_i := cu_i c + 2\<rparr>))"

text \<open>The fields of the payload, in the order of the code; every failure is \<open>errBadPacket\<close>.\<close>

definition parse_payload :: "octet list \<Rightarrow> mc_error + handshake" where
  "parse_payload payload =
     (case cur_varint \<lparr>cu_b = payload, cu_i = 0\<rparr> of
        (Inl _, _) \<Rightarrow> Inl BadPacket
      | (Inr pkt_id, c) \<Rightarrow>
        if pkt_id \<noteq> 0 then Inl BadPacket
        else (case cur_varint c of
          (Inl _, _) \<Rightarrow> Inl BadPacket
        | (Inr protocol, c) \<Rightarrow> (case cur_str c of
            (Inl _, _) \<Rightarrow> Inl BadPacket
          | (Inr address, c) \<Rightarrow> (case cur_u16 c of
              (Inl _, _) \<Rightarrow> Inl BadPacket
            | (Inr port, c) \<Rightarrow> (case cur_varint c of
                (Inl _, _) \<Rightarrow> Inl BadPacket
              | (Inr next, c) \<Rightarrow>
                  if next \<noteq> state_status \<and> next \<noteq> state_login then Inl BadPacket
                  else Inr \<lparr>hs_protocol = protocol, hs_address = address, hs_port = port, hs_next_state = next\<rparr>)))))"

text \<open>
  \<open>readHandshake\<close>: the handshake or an error, the raw bytes it returns (\<open>nil\<close> is the empty list) and what
  the reader still holds.
\<close>

definition read_handshake :: "octet list \<Rightarrow> (mc_error + handshake) \<times> octet list \<times> octet list" where
  "read_handshake r =
     (case read_varint r of
        (Inl e, _, r) \<Rightarrow> (Inl e, [], r)
      | (Inr len, len_raw, r) \<Rightarrow>
          if len \<le> 0 \<or> max_packet_bytes < len then (Inl PacketTooBig, [], r)
          else (case read_full (nat len) r of
            (None, r) \<Rightarrow> (Inl IoError, [], r)
          | (Some payload, r) \<Rightarrow> (parse_payload payload, len_raw @ payload, r)))"

section \<open>The wire format\<close>

text \<open>The encoders of the protocol, as the header of the source describes the packet.\<close>

fun enc_varint :: "nat \<Rightarrow> int \<Rightarrow> octet list" where
  "enc_varint 0 v = []"
| "enc_varint (Suc k) v =
     (if v < 128 then [word_of_int v] else word_of_int (v mod 128 + 128) # enc_varint k (v div 128))"

definition enc_payload :: "handshake \<Rightarrow> octet list" where
  "enc_payload h =
     enc_varint 5 0 @ enc_varint 5 (hs_protocol h) @ enc_varint 5 (int (length (hs_address h))) @
     hs_address h @ [ucast (drop_bit 8 (hs_port h)), ucast (hs_port h)] @ enc_varint 5 (hs_next_state h)"

definition enc_handshake :: "handshake \<Rightarrow> octet list" where
  "enc_handshake h = enc_varint 5 (int (length (enc_payload h))) @ enc_payload h"

definition handshake_ok :: "handshake \<Rightarrow> bool" where
  "handshake_ok h \<longleftrightarrow> 0 \<le> hs_protocol h \<and> hs_protocol h < 2 ^ 35 \<and>
     (hs_next_state h = state_status \<or> hs_next_state h = state_login) \<and>
     int (length (enc_payload h)) \<le> max_packet_bytes"

section \<open>VarInts\<close>

lemma last_byte_iff: "last_byte b \<longleftrightarrow> uint b < 128"
proof -
  have r: "0 \<le> uint b" "uint b < 256" using uint_lt2p [of b] by simp_all
  have "last_byte b \<longleftrightarrow> \<not> bit b 7"
    unfolding last_byte_def by (subst and_exp_eq_0_iff_not_bit [symmetric]) simp
  also have "bit b 7 \<longleftrightarrow> odd (uint b div 128)"
    using bit_iff_odd [of "uint b" 7] by (simp add: bit_uint_iff)
  also have "odd (uint b div 128) \<longleftrightarrow> 128 \<le> uint b"
  proof (cases "uint b < 128")
    case False
    then have "uint b div 128 = 1" using r by (simp add: div_pos_geq)
    then show ?thesis using False by simp
  qed (use r in simp)
  finally show ?thesis by auto
qed

lemma uint_and_7F: "uint ((b :: octet) AND 0x7F) = uint b mod 128"
proof -
  have "uint (b AND 0x7F) = uint b AND mask 7" by (simp add: unsigned_and_eq mask_eq_exp_minus_1)
  then show ?thesis by (simp add: take_bit_eq_mask [symmetric] take_bit_eq_mod)
qed

lemma or_push_bit_add:
  assumes "0 \<le> v" "v < 2 ^ n" "0 \<le> x"
  shows "(v :: int) OR push_bit n x = v + 2 ^ n * x"
proof -
  have v: "take_bit n v = v" using assms by (simp add: take_bit_int_eq_self)
  have "\<not> bit v m \<or> \<not> bit (push_bit n x) m" for m
  proof (cases "m < n")
    case True
    then show ?thesis by (simp add: bit_push_bit_iff_int)
  next
    case False
    then have "\<not> bit (take_bit n v) m" by (simp add: bit_take_bit_iff)
    then show ?thesis unfolding v by simp
  qed
  then have "v + push_bit n x = v OR push_bit n x" by (intro disjunctive_add) blast
  then show ?thesis by (simp add: push_bit_eq_mult mult.commute)
qed

lemma varint_or_add:
  assumes "0 \<le> v" "v < 2 ^ (7 * i)"
  shows "varint_or v b i = v + 2 ^ (7 * i) * (uint b mod 128)"
  unfolding varint_or_def uint_and_7F using assms by (intro or_push_bit_add) simp_all

lemma uint_enc_byte: "0 \<le> x \<Longrightarrow> x < 256 \<Longrightarrow> uint (word_of_int x :: octet) = x"
  by (simp add: uint_word_of_int)

lemma read_varint_enc:
  assumes "i + k = 5" "0 < k" "0 \<le> v" "v < 2 ^ (7 * k)" "0 \<le> acc" "acc < 2 ^ (7 * i)"
  shows "read_varint_loop i acc raw (enc_varint k v @ r) = (Inr (acc + 2 ^ (7 * i) * v), raw @ enc_varint k v, r)"
  using assms
proof (induction k arbitrary: i v acc raw)
  case (Suc k)
  have i: "i < max_varint_bytes" using Suc.prems(1) by (simp add: max_varint_bytes_def)
  show ?case
  proof (cases "v < 128")
    case True
    have u: "uint (word_of_int v :: octet) = v" using True Suc.prems by (intro uint_enc_byte) simp_all
    show ?thesis using True Suc.prems i by (simp add: last_byte_iff u varint_or_add Let_def)
  next
    case False
    define w where "w = v mod 128 + 128"
    have w: "0 \<le> w" "w < 256" "w mod 128 = v mod 128" "\<not> w < 128" by (simp_all add: w_def)
    have u: "uint (word_of_int w :: octet) = w" using w by (intro uint_enc_byte)
    have k: "0 < k" using False Suc.prems by (cases k) auto
    have val: "varint_or acc (word_of_int w) i = acc + 2 ^ (7 * i) * (v mod 128)"
      using Suc.prems by (simp add: varint_or_add u w)
    have lt: "acc + 2 ^ (7 * i) * (v mod 128) < 2 ^ (7 * (i + 1))"
    proof -
      have le: "2 ^ (7 * i) * (v mod 128) \<le> 2 ^ (7 * i) * (127 :: int)"
        using pos_mod_bound [of 128 v] by (intro mult_left_mono) simp_all
      have e: "(2 :: int) ^ (7 * (i + 1)) = 2 ^ (7 * i) * 128" by (simp add: power_add)
      show ?thesis unfolding e using le Suc.prems(6) by linarith
    qed
    have v: "v div 128 < 2 ^ (7 * k)" using Suc.prems(4) by (simp add: power_add)
    have "read_varint_loop (i + 1) (acc + 2 ^ (7 * i) * (v mod 128)) (raw @ [word_of_int w]) (enc_varint k (v div 128) @ r) =
      (Inr (acc + 2 ^ (7 * i) * (v mod 128) + 2 ^ (7 * (i + 1)) * (v div 128)), (raw @ [word_of_int w]) @ enc_varint k (v div 128), r)"
      using Suc.prems k lt v by (intro Suc.IH) (simp_all)
    moreover have "acc + 2 ^ (7 * i) * (v mod 128) + 2 ^ (7 * (i + 1)) * (v div 128) = acc + 2 ^ (7 * i) * v"
    proof -
      have "2 ^ (7 * i) * (v mod 128) + 2 ^ (7 * i) * (128 * (v div 128)) = 2 ^ (7 * i) * v"
        by (simp only: distrib_left [symmetric] add.commute [of "v mod 128"] mult_div_mod_eq)
      then show ?thesis by (simp add: power_add)
    qed
    ultimately show ?thesis using False i w by (simp add: w_def [symmetric] last_byte_iff u val Let_def)
  qed
qed simp

lemma read_varint_consumes:
  "read_varint_loop i acc raw r = (res, raw', r') \<Longrightarrow> \<exists>p. r = p @ r' \<and> raw' = raw @ p \<and> i + length p \<le> max i 5"
proof (induction r arbitrary: i acc raw)
  case Nil
  then show ?case by (auto split: if_splits)
next
  case (Cons b r)
  show ?case
  proof (cases "i < max_varint_bytes \<and> \<not> last_byte b")
    case True
    then have "read_varint_loop (i + 1) (varint_or acc b i) (raw @ [b]) r = (res, raw', r')"
      using Cons.prems by (simp add: Let_def)
    from Cons.IH [OF this] obtain p where "r = p @ r'" "raw' = (raw @ [b]) @ p" "i + 1 + length p \<le> max (i + 1) 5" by blast
    then show ?thesis using True by (intro exI [of _ "b # p"]) (auto simp: max_varint_bytes_def)
  next
    case False
    then show ?thesis using Cons.prems
      by (cases "i < max_varint_bytes") (auto simp: Let_def max_varint_bytes_def)
  qed
qed

text \<open>A cursor in front of the bytes \<open>r\<close>.\<close>

definition cur_at :: "cursor \<Rightarrow> octet list \<Rightarrow> bool" where
  "cur_at c r \<longleftrightarrow> (\<exists>h. cu_b c = h @ r \<and> cu_i c = length h)"

lemma cur_at_start: "cur_at \<lparr>cu_b = b, cu_i = 0\<rparr> b"
  by (simp add: cur_at_def)

lemma cur_at_advance:
  assumes "cur_at c (p @ r)"
  shows "cur_at (c\<lparr>cu_i := cu_i c + length p\<rparr>) r" and "drop (cu_i c) (cu_b c) = p @ r"
    and "length (cu_b c) = cu_i c + length p + length r"
proof -
  obtain h where h: "cu_b c = h @ p @ r" "cu_i c = length h" using assms by (auto simp: cur_at_def)
  then show "cur_at (c\<lparr>cu_i := cu_i c + length p\<rparr>) r"
    by (auto simp: cur_at_def intro: exI [of _ "h @ p"])
  show "drop (cu_i c) (cu_b c) = p @ r" "length (cu_b c) = cu_i c + length p + length r" using h by simp_all
qed

lemma cur_at_byte: "cur_at c (b # r) \<Longrightarrow> cu_b c ! cu_i c = b \<and> cu_i c < length (cu_b c)"
  by (auto simp: cur_at_def)

text \<open>The two readers of the code agree: the cursor over a slice and the reader over the connection.\<close>

definition as_bad :: "mc_error + 'a \<Rightarrow> mc_error + 'a" where
  "as_bad res = (case res of Inl e \<Rightarrow> Inl (if e = IoError then BadPacket else e) | Inr v \<Rightarrow> Inr v)"

lemma cur_varint_loop_read:
  assumes "n + k = 5" "cur_at c s" "read_varint_loop n acc raw s = (res, raw', r)"
  shows "\<exists>c'. cur_varint_loop k acc n c = (as_bad res, c') \<and> cur_at c' r"
  using assms
proof (induction k arbitrary: n acc c raw s)
  case 0
  then show ?case by (cases s) (auto simp: max_varint_bytes_def as_bad_def)
next
  case (Suc k)
  have n: "n < max_varint_bytes" using Suc.prems(1) by (simp add: max_varint_bytes_def)
  show ?case
  proof (cases s)
    case Nil
    then show ?thesis using n Suc.prems(2,3) by (auto simp: cur_at_def as_bad_def)
  next
    case (Cons b s')
    let ?c = "c\<lparr>cu_i := cu_i c + 1\<rparr>"
    have b: "cu_b c ! cu_i c = b" "cu_i c < length (cu_b c)" using cur_at_byte Suc.prems(2) Cons by auto
    have at: "cur_at ?c s'" using cur_at_advance(1) [of c "[b]" s'] Suc.prems(2) Cons by simp
    show ?thesis
    proof (cases "last_byte b")
      case True
      then show ?thesis using Suc.prems(3) n b at by (auto simp: Cons Let_def as_bad_def)
    next
      case False
      have rd: "read_varint_loop (n + 1) (varint_or acc b n) (raw @ [b]) s' = (res, raw', r)"
        using Suc.prems(3) False n by (simp add: Cons Let_def)
      have "\<exists>c'. cur_varint_loop k (varint_or acc b n) (n + 1) ?c = (as_bad res, c') \<and> cur_at c' r"
        using Suc.prems(1) by (intro Suc.IH [OF _ at rd]) simp
      then show ?thesis using False b by (simp add: Let_def)
    qed
  qed
qed

lemma cur_varint_enc:
  assumes "cur_at c (enc_varint 5 v @ r)" "0 \<le> v" "v < 2 ^ 35"
  shows "\<exists>c'. cur_varint c = (Inr v, c') \<and> cur_at c' r"
proof -
  have rd: "read_varint_loop 0 0 [] (enc_varint 5 v @ r) = (Inr v, enc_varint 5 v, r)"
    using read_varint_enc [of 0 5 v 0 "[]" r] assms(2,3) by simp
  from cur_varint_loop_read [OF _ assms(1) rd, of 5] show ?thesis
    by (simp add: cur_varint_def max_varint_bytes_def as_bad_def)
qed

lemma cur_str_enc:
  assumes "cur_at c (enc_varint 5 (int (length s)) @ s @ r)" "int (length s) < 2 ^ 35"
  shows "\<exists>c'. cur_str c = (Inr s, c') \<and> cur_at c' r"
proof -
  obtain c' where c': "cur_varint c = (Inr (int (length s)), c')" "cur_at c' (s @ r)"
    using cur_varint_enc [OF assms(1)] assms(2) by auto
  from cur_at_advance [OF c'(2)] show ?thesis by (simp add: cur_str_def c'(1))
qed

lemma cur_u16_enc:
  assumes "cur_at c ([ucast (drop_bit 8 p), ucast (p :: 16 word)] @ r)"
  shows "\<exists>c'. cur_u16 c = (Inr p, c') \<and> cur_at c' r"
proof -
  have "cur_at (c\<lparr>cu_i := cu_i c + 1\<rparr>) (ucast p # r)"
    using cur_at_advance(1) [of c "[ucast (drop_bit 8 p)]" "ucast p # r"] assms by simp
  then have n1: "cu_b c ! Suc (cu_i c) = ucast p" using cur_at_byte by fastforce
  have n0: "cu_b c ! cu_i c = ucast (drop_bit 8 p)" using assms cur_at_byte by simp
  have p: "push_bit 8 (ucast (ucast (drop_bit 8 p) :: octet)) OR ucast (ucast p :: octet) = p"
    by (rule bit_word_eqI) (auto simp: bit_simps)
  from cur_at_advance [OF assms] show ?thesis by (simp add: cur_u16_def n0 n1 p)
qed

section \<open>The packet\<close>

lemma parse_payload_enc:
  assumes "handshake_ok h"
  shows "parse_payload (enc_payload h) = Inr h"
proof -
  have h: "0 \<le> hs_protocol h" "hs_protocol h < 2 ^ 35" "int (length (hs_address h)) < 2 ^ 35"
    "hs_next_state h = 1 \<or> hs_next_state h = 2"
    using assms by (auto simp: handshake_ok_def state_status_def state_login_def max_packet_bytes_def enc_payload_def)
  let ?p = "enc_payload h"
  have "cur_at \<lparr>cu_b = ?p, cu_i = 0\<rparr> (enc_varint 5 0 @ enc_varint 5 (hs_protocol h) @
      enc_varint 5 (int (length (hs_address h))) @ hs_address h @
      [ucast (drop_bit 8 (hs_port h)), ucast (hs_port h)] @ enc_varint 5 (hs_next_state h) @ [])"
    using cur_at_start [of ?p] unfolding enc_payload_def by simp
  from cur_varint_enc [OF this] obtain c1 where c1: "cur_varint \<lparr>cu_b = ?p, cu_i = 0\<rparr> = (Inr 0, c1)"
    "cur_at c1 (enc_varint 5 (hs_protocol h) @ enc_varint 5 (int (length (hs_address h))) @ hs_address h @
      [ucast (drop_bit 8 (hs_port h)), ucast (hs_port h)] @ enc_varint 5 (hs_next_state h) @ [])" by auto
  from cur_varint_enc [OF c1(2) h(1,2)] obtain c2 where c2: "cur_varint c1 = (Inr (hs_protocol h), c2)"
    "cur_at c2 (enc_varint 5 (int (length (hs_address h))) @ hs_address h @
      [ucast (drop_bit 8 (hs_port h)), ucast (hs_port h)] @ enc_varint 5 (hs_next_state h) @ [])" by auto
  from cur_str_enc [OF c2(2) h(3)] obtain c3 where c3: "cur_str c2 = (Inr (hs_address h), c3)"
    "cur_at c3 ([ucast (drop_bit 8 (hs_port h)), ucast (hs_port h)] @ enc_varint 5 (hs_next_state h) @ [])" by auto
  from cur_u16_enc [OF c3(2)] obtain c4 where c4: "cur_u16 c3 = (Inr (hs_port h), c4)"
    "cur_at c4 (enc_varint 5 (hs_next_state h) @ [])" by auto
  from cur_varint_enc [OF c4(2)] h(4) obtain c5 where c5: "cur_varint c4 = (Inr (hs_next_state h), c5)" by auto
  have "\<lparr>hs_protocol = hs_protocol h, hs_address = hs_address h, hs_port = hs_port h, hs_next_state = hs_next_state h\<rparr> = h"
    by (cases h) simp
  then show ?thesis using h(4)
    by (auto simp: parse_payload_def c1(1) c2(1) c3(1) c4(1) c5 state_status_def state_login_def)
qed

lemma read_varint_split:
  "read_varint r = (res, raw, r') \<Longrightarrow> r = raw @ r' \<and> length raw \<le> 5"
  using read_varint_consumes [of 0 0 "[]" r res raw r'] by (auto simp: read_varint_def)

lemma parse_payload_state:
  "parse_payload p = Inr h \<Longrightarrow> hs_next_state h = 1 \<or> hs_next_state h = 2"
  by (auto simp: parse_payload_def state_status_def state_login_def split: prod.splits sum.splits if_splits)

section \<open>Properties\<close>

text \<open>
  C15. Every well-formed handshake is accepted and understood: whatever follows it on the connection, the
  reader returns the fields that were sent, the bytes that were sent, and leaves the rest untouched.
\<close>

theorem handshake_roundtrip:
  assumes "handshake_ok h"
  shows "read_handshake (enc_handshake h @ rest) = (Inr h, enc_handshake h, rest)"
proof -
  let ?n = "int (length (enc_payload h))"
  have n: "0 < ?n" "?n \<le> 2048" using assms by (auto simp: handshake_ok_def max_packet_bytes_def enc_payload_def)
  have "read_varint (enc_varint 5 ?n @ enc_payload h @ rest) = (Inr ?n, enc_varint 5 ?n, enc_payload h @ rest)"
    using read_varint_enc [of 0 5 ?n 0 "[]" "enc_payload h @ rest"] n by (simp add: read_varint_def)
  moreover have "read_full (nat ?n) (enc_payload h @ rest) = (Some (enc_payload h), rest)"
    by (simp add: read_full_def)
  ultimately show ?thesis using n parse_payload_enc [OF assms]
    by (simp add: read_handshake_def enc_handshake_def max_packet_bytes_def)
qed

theorem handshake_roundtrip_witness:
  "read_handshake (enc_handshake \<lparr>hs_protocol = 765, hs_address = [104, 105], hs_port = 25565, hs_next_state = 2\<rparr> @ [1, 2]) =
    (Inr \<lparr>hs_protocol = 765, hs_address = [104, 105], hs_port = 25565, hs_next_state = 2\<rparr>,
     enc_handshake \<lparr>hs_protocol = 765, hs_address = [104, 105], hs_port = 25565, hs_next_state = 2\<rparr>, [1, 2])"
  by (rule handshake_roundtrip) code_simp

text \<open>
  The parser neither over-reads nor loses a byte: on any stream an accepted handshake comes with
  exactly the bytes taken from the connection, so replaying them and splicing the rest gives the server
  the client's stream; it takes at most 2053 bytes, and only a status or a login is accepted.
\<close>

theorem handshake_replay_exact:
  assumes "read_handshake s = (Inr h, raw, rest)"
  shows "s = raw @ rest \<and> length raw \<le> 2053 \<and> (hs_next_state h = 1 \<or> hs_next_state h = 2)"
proof -
  obtain len len_raw r where rv: "read_varint s = (Inr len, len_raw, r)"
    using assms by (auto simp: read_handshake_def split: prod.splits sum.splits)
  have len: "0 < len" "len \<le> 2048" using assms rv
    by (auto simp: read_handshake_def max_packet_bytes_def split: if_splits)
  have full: "nat len \<le> length r" and p: "parse_payload (take (nat len) r) = Inr h"
    and raw: "raw = len_raw @ take (nat len) r" "rest = drop (nat len) r"
    using assms rv len by (auto simp: read_handshake_def read_full_def max_packet_bytes_def split: if_splits)
  have "s = len_raw @ r" "length len_raw \<le> 5" using read_varint_split [OF rv] by simp_all
  then show ?thesis using raw len full parse_payload_state [OF p] by simp
qed

theorem handshake_replay_exact_witness:
  "[9, 0, 253, 5, 2, 104, 105, 99, 221, 2, 7] = [9, 0, 253, 5, 2, 104, 105, 99, 221, 2] @ [7 :: octet]"
proof -
  have "read_handshake [9, 0, 253, 5, 2, 104, 105, 99, 221, 2, 7] =
    (Inr \<lparr>hs_protocol = 765, hs_address = [104, 105], hs_port = 25565, hs_next_state = 2\<rparr>,
     [9, 0, 253, 5, 2, 104, 105, 99, 221, 2], [7])" by code_simp
  from handshake_replay_exact [OF this] show ?thesis by simp
qed

end
