(* ===== verification/Go_Duration.thy ===== *)
theory Go_Duration
  imports Go_Time Go_Strings
begin

text \<open>
  \<open>time.ParseDuration\<close> of Go's standard library, with its overflow checks: a sign, then a sequence of
  decimal numbers with optional fraction, each followed by its unit. \<open>None\<close> is an error.
\<close>

definition unit_map :: "string \<Rightarrow> int option" where
  "unit_map u =
     (if u = ''ns'' then Some 1
      else if u = ''us'' \<or> u = [char_of (0xC2 :: nat), char_of (0xB5 :: nat), CHR ''s'']
        \<or> u = [char_of (0xCE :: nat), char_of (0xBC :: nat), CHR ''s''] then Some 1000
      else if u = ''ms'' then Some 1000000
      else if u = ''s'' then Some second
      else if u = ''m'' then Some minute
      else if u = ''h'' then Some hour
      else None)"

text \<open>\<open>leadingInt\<close>: the number and the rest, an error on overflow.\<close>

fun leading_int :: "int \<Rightarrow> string \<Rightarrow> (int \<times> string) option" where
  "leading_int x [] = Some (x, [])"
| "leading_int x (c # cs) =
     (if \<not> is_digit c then Some (x, c # cs)
      else if 2 ^ 63 div 10 < x then None
      else if 2 ^ 63 < x * 10 + digit_val c then None
      else leading_int (x * 10 + digit_val c) cs)"

text \<open>\<open>leadingFraction\<close>: digits beyond the precision of int64 are skipped.\<close>

fun leading_fraction :: "int \<Rightarrow> real \<Rightarrow> bool \<Rightarrow> string \<Rightarrow> int \<times> real \<times> string" where
  "leading_fraction x scale over [] = (x, scale, [])"
| "leading_fraction x scale over (c # cs) =
     (if \<not> is_digit c then (x, scale, c # cs)
      else if over \<or> (2 ^ 63 - 1) div 10 < x \<or> 2 ^ 63 < x * 10 + digit_val c
      then leading_fraction x scale True cs
      else leading_fraction (x * 10 + digit_val c) (fl (scale * 10)) False cs)"

definition in_unit :: "char \<Rightarrow> bool" where
  "in_unit c \<longleftrightarrow> c \<noteq> CHR ''.'' \<and> \<not> is_digit c"

text \<open>\<open>(\.[0-9]*)?\<close>: whether fraction digits were consumed, their value, its scale, and the rest.\<close>

definition fraction :: "string \<Rightarrow> bool \<times> int \<times> real \<times> string" where
  "fraction t =
     (if t \<noteq> [] \<and> hd t = CHR ''.''
      then (let (f, scale, r) = leading_fraction 0 1 False (tl t) in (length r \<noteq> length (tl t), f, scale, r))
      else (False, 0, 1, t))"

text \<open>One number with its unit: the nanoseconds it adds, and the rest.\<close>

definition parse_term :: "string \<Rightarrow> (int \<times> string) option" where
  "parse_term s =
     (case s of [] \<Rightarrow> None
      | c # _ \<Rightarrow>
        if c \<noteq> CHR ''.'' \<and> \<not> is_digit c then None
        else
          (case leading_int 0 s of None \<Rightarrow> None
           | Some (v, t) \<Rightarrow>
             let pre = (length t \<noteq> length s);
                 (post, f, scale, r) = fraction t;
                 u = takeWhile in_unit r;
                 rest = dropWhile in_unit r
             in if \<not> pre \<and> \<not> post then None
                else if u = [] then None
                else
                  (case unit_map u of None \<Rightarrow> None
                   | Some unit \<Rightarrow>
                     if 2 ^ 63 div unit < v then None
                     else
                       let v = v * unit;
                           w = (if 0 < f then v + trunc (fl (fl (of_int f) * fl (fl (of_int unit) / scale))) else v)
                       in if 2 ^ 63 < w then None else Some (w, rest))))"

lemma leading_int_length: "leading_int x s = Some (v, t) \<Longrightarrow> length t \<le> length s"
  by (induction x s rule: leading_int.induct) (auto split: if_splits)

lemma leading_fraction_length: "length (snd (snd (leading_fraction x scale over s))) \<le> length s"
  by (induction x scale over s rule: leading_fraction.induct) auto

lemma parse_term_shorter:
  assumes "parse_term s = Some (v, r)"
  shows "length r < length s"
proof -
  have drop: "length (dropWhile in_unit t) < length t" if "takeWhile in_unit t \<noteq> []" for t
  proof -
    have "length (takeWhile in_unit t) + length (dropWhile in_unit t) = length t"
      by (metis length_append takeWhile_dropWhile_id)
    moreover have "0 < length (takeWhile in_unit t)" using that by simp
    ultimately show ?thesis by linarith
  qed
  obtain c cs where s: "s = c # cs" using assms by (cases s) (auto simp: parse_term_def)
  obtain w t where t: "leading_int 0 s = Some (w, t)"
    using assms by (auto simp: parse_term_def s split: if_splits option.splits)
  obtain b f sc q where q: "fraction t = (b, f, sc, q)" by (cases "fraction t") auto
  then have "length q \<le> length s"
    using leading_int_length [OF t] leading_fraction_length [of 0 1 False "tl t"]
    by (auto simp: fraction_def case_prod_beta split: if_splits)
  moreover have "takeWhile in_unit q \<noteq> [] \<and> r = dropWhile in_unit q"
    using assms t q by (auto simp: parse_term_def s Let_def split: if_splits option.splits)
  ultimately show ?thesis using drop [of q] by simp
qed

function parse_terms :: "int \<Rightarrow> string \<Rightarrow> int option" where
  "parse_terms d s =
     (if s = [] then Some d
      else (case parse_term s of None \<Rightarrow> None
            | Some (v, r) \<Rightarrow>
                let d = (d + v) mod 2 ^ 64
                in if 2 ^ 63 < d then None else parse_terms d r))"
  by pat_completeness auto
termination
  by (relation "measure (\<lambda>(d, s). length s)") (auto dest: parse_term_shorter)

declare parse_terms.simps [simp del]

definition parse_duration :: "string \<Rightarrow> duration option" where
  "parse_duration s =
     (let neg = (s \<noteq> [] \<and> hd s = CHR ''-'');
          t = (if s \<noteq> [] \<and> (hd s = CHR ''-'' \<or> hd s = CHR ''+'') then tl s else s)
      in if t = ''0'' then Some 0
         else if t = [] then None
         else (case parse_terms 0 t of None \<Rightarrow> None
               | Some d \<Rightarrow> if neg then Some (- d) else if 2 ^ 63 - 1 < d then None else Some d))"

end
