(* ===== verification/Config.thy ===== *)
theory Config
  imports Go_Prelude Go_Duration
begin

text \<open>
  \<^verbatim>\<open>internal/config/config.go\<close>: the configuration, its defaults and its validation. Each section of the
  file is a record; \<open>apply_defaults\<close> is the composition of the defaults of the sections, which touch
  disjoint fields. float64 fields are real numbers, durations are nanoseconds.
\<close>

section \<open>The data\<close>

record site =
  st_host :: string
  st_upstream :: string
  st_preserve_host :: bool

record auto_cert =
  ac_enabled :: bool
  ac_domains :: "string list"
  ac_email :: string
  ac_cache_dir :: string

record tls_config =
  tl_enabled :: bool
  tl_https_listen :: string
  tl_http_listen :: string
  tl_redirect_http :: bool
  tl_cert_file :: string
  tl_key_file :: string
  tl_self_signed :: bool
  tl_auto_cert :: auto_cert

record license_config =
  li_enabled :: bool
  li_server_url :: string
  li_key :: string
  li_protecting :: string
  li_heartbeat_interval :: duration
  li_fail_open :: bool
  li_fleet_bans :: bool

record minecraft_config =
  mc_enabled :: bool
  mc_listen :: string
  mc_upstream :: string
  mc_max_conns_per_ip :: int
  mc_new_conns_per_sec :: real
  mc_new_conns_burst :: real
  mc_handshake_timeout :: duration
  mc_ban_on_abuse :: bool

record rule_config =
  ru_name :: string
  ru_path_prefix :: string
  ru_path_regex :: string
  ru_methods :: "string list"
  ru_action :: string
  ru_per_ip_rps :: real
  ru_per_ip_burst :: real

record block_config =
  bc_status :: int
  bc_message :: string

record monitor_config =
  mo_sample_interval :: duration
  mo_retain :: int
  mo_attack_threshold :: int
  mo_exit_intervals :: int

record cloudflare_scrub =
  cs_api_token :: string
  cs_zone_id :: string
  cs_normal_level :: string
  cs_api_base :: string

record scrubber_config =
  sc_enabled :: bool
  sc_provider :: string
  sc_webhook_url :: string
  sc_cloudflare :: cloudflare_scrub

record fingerprint_config =
  fc_enabled :: bool
  fc_block :: "string list"
  fc_forward_header :: bool

record tarpit_config =
  tp_enabled :: bool
  tp_delay :: duration
  tp_max_concurrent :: int

record admin_config =
  ad_enabled :: bool
  ad_token :: string
  ad_protect_telemetry :: bool

record log_config =
  lo_level :: string
  lo_format :: string

record challenge_config =
  ch_enabled :: bool
  ch_mode :: string
  ch_difficulty_bits :: int
  ch_clearance_ttl :: duration
  ch_pressure_threshold :: real
  ch_challenge_non_browser :: bool
  ch_secret :: string

record rate_limit_config =
  rl_per_ip_rps :: real
  rl_per_ip_burst :: real
  rl_global_rps :: real
  rl_global_burst :: real

record ban_config =
  ba_base_duration :: duration
  ba_max_duration :: duration
  ba_escalation_factor :: real
  ba_sweep_interval :: duration
  ba_max_entries :: int
  ba_persist_path :: string

record connection_config =
  co_max_per_ip :: int
  co_read_header_timeout :: duration
  co_read_timeout :: duration
  co_write_timeout :: duration
  co_idle_timeout :: duration
  co_max_header_bytes :: int
  co_max_body_bytes :: int

record config =
  cf_listen :: string
  cf_upstream :: string
  cf_sites :: "site list"
  cf_trusted_proxies :: "string list"
  cf_allowlist :: "string list"
  cf_denylist :: "string list"
  cf_bad_user_agents :: "string list"
  cf_watch_interval :: duration
  cf_dry_run :: bool
  cf_tls :: tls_config
  cf_minecraft :: minecraft_config
  cf_license :: license_config
  cf_rate_limit :: rate_limit_config
  cf_ban :: ban_config
  cf_connection :: connection_config
  cf_challenge :: challenge_config
  cf_block :: block_config
  cf_tarpit :: tarpit_config
  cf_fingerprint :: fingerprint_config
  cf_scrubber :: scrubber_config
  cf_monitor :: monitor_config
  cf_admin :: admin_config
  cf_log :: log_config
  cf_rules :: "rule_config list"

section \<open>Durations in JSON\<close>

text \<open>
  The JSON values a duration field can meet. \<open>Duration\<close> has a method for reading JSON, a string such as
  \<open>"30s"\<close>, but none for writing it, so it is written the way Go writes its underlying int64: as a number.
\<close>

datatype json_value = JString string | JNumber int | JNull

definition unmarshal_duration :: "json_value \<Rightarrow> duration option" where
  "unmarshal_duration j =
     (case j of JString s \<Rightarrow> parse_duration s | JNumber n \<Rightarrow> None | JNull \<Rightarrow> parse_duration [])"

definition marshal_duration :: "duration \<Rightarrow> json_value" where
  "marshal_duration d = JNumber d"

text \<open>A duration written to JSON and read back by the program.\<close>

definition transmit_duration :: "duration \<Rightarrow> duration option" where
  "transmit_duration d = unmarshal_duration (marshal_duration d)"

lemma transmit_duration_fails [simp]: "transmit_duration d = None"
  by (simp add: transmit_duration_def unmarshal_duration_def marshal_duration_def)

section \<open>Defaults\<close>

text \<open>\<open>if field == 0 { field = d }\<close>, and the same for the empty string.\<close>

definition or_default :: "'a \<Rightarrow> 'a \<Rightarrow> 'a::zero" where
  "or_default x d = (if x = 0 then d else x)"

definition or_text :: "string \<Rightarrow> string \<Rightarrow> string" where
  "or_text s d = (if s = [] then d else s)"

definition default_rate_limit :: "rate_limit_config \<Rightarrow> rate_limit_config" where
  "default_rate_limit r =
     (let r = r\<lparr>rl_per_ip_rps := or_default (rl_per_ip_rps r) 20\<rparr>;
          r = r\<lparr>rl_per_ip_burst := or_default (rl_per_ip_burst r) (fl (rl_per_ip_rps r * 2))\<rparr>;
          r = r\<lparr>rl_global_rps := or_default (rl_global_rps r) 5000\<rparr>
      in r\<lparr>rl_global_burst := or_default (rl_global_burst r) (fl (rl_global_rps r * 2))\<rparr>)"

definition default_ban :: "ban_config \<Rightarrow> ban_config" where
  "default_ban b =
     b\<lparr>ba_base_duration := or_default (ba_base_duration b) (60 * second),
       ba_max_duration := or_default (ba_max_duration b) hour,
       ba_escalation_factor := or_default (ba_escalation_factor b) 2,
       ba_sweep_interval := or_default (ba_sweep_interval b) (10 * second),
       ba_max_entries := or_default (ba_max_entries b) 1000000\<rparr>"

definition default_connection :: "connection_config \<Rightarrow> connection_config" where
  "default_connection c =
     c\<lparr>co_max_per_ip := or_default (co_max_per_ip c) 50,
       co_read_header_timeout := or_default (co_read_header_timeout c) (5 * second),
       co_read_timeout := or_default (co_read_timeout c) (15 * second),
       co_write_timeout := or_default (co_write_timeout c) (20 * second),
       co_idle_timeout := or_default (co_idle_timeout c) (60 * second),
       co_max_header_bytes := or_default (co_max_header_bytes c) (16 * 2 ^ 10),
       co_max_body_bytes := or_default (co_max_body_bytes c) (2 ^ 20)\<rparr>"

definition default_challenge :: "challenge_config \<Rightarrow> challenge_config" where
  "default_challenge c =
     c\<lparr>ch_mode := or_text (ch_mode c) ''adaptive'',
       ch_difficulty_bits := or_default (ch_difficulty_bits c) 14,
       ch_clearance_ttl := or_default (ch_clearance_ttl c) (30 * minute),
       ch_pressure_threshold := or_default (ch_pressure_threshold c) (1 / 4)\<rparr>"

definition default_block :: "block_config \<Rightarrow> block_config" where
  "default_block b =
     b\<lparr>bc_status := or_default (bc_status b) 403, bc_message := or_text (bc_message b) ''Forbidden''\<rparr>"

definition default_tarpit :: "tarpit_config \<Rightarrow> tarpit_config" where
  "default_tarpit t =
     t\<lparr>tp_delay := or_default (tp_delay t) (5 * second),
       tp_max_concurrent := or_default (tp_max_concurrent t) 4096\<rparr>"

definition default_log :: "log_config \<Rightarrow> log_config" where
  "default_log l = l\<lparr>lo_level := or_text (lo_level l) ''info'', lo_format := or_text (lo_format l) ''text''\<rparr>"

definition default_monitor :: "monitor_config \<Rightarrow> monitor_config" where
  "default_monitor m =
     m\<lparr>mo_sample_interval := or_default (mo_sample_interval m) second,
       mo_retain := or_default (mo_retain m) 3600,
       mo_attack_threshold := or_default (mo_attack_threshold m) 20,
       mo_exit_intervals := or_default (mo_exit_intervals m) 5\<rparr>"

definition default_tls :: "tls_config \<Rightarrow> tls_config" where
  "default_tls t =
     t\<lparr>tl_https_listen := or_text (tl_https_listen t) '':443'',
       tl_http_listen := or_text (tl_http_listen t) '':80'',
       tl_auto_cert := (tl_auto_cert t)\<lparr>ac_cache_dir := or_text (ac_cache_dir (tl_auto_cert t)) ''./acme-cache''\<rparr>\<rparr>"

definition default_minecraft :: "minecraft_config \<Rightarrow> minecraft_config" where
  "default_minecraft m =
     m\<lparr>mc_listen := or_text (mc_listen m) '':25565'',
       mc_max_conns_per_ip := or_default (mc_max_conns_per_ip m) 8,
       mc_new_conns_per_sec := or_default (mc_new_conns_per_sec m) 5,
       mc_new_conns_burst := or_default (mc_new_conns_burst m) 10,
       mc_handshake_timeout := or_default (mc_handshake_timeout m) (5 * second)\<rparr>"

definition default_license :: "license_config \<Rightarrow> license_config" where
  "default_license l = l\<lparr>li_heartbeat_interval := or_default (li_heartbeat_interval l) (30 * second)\<rparr>"

definition apply_defaults :: "config \<Rightarrow> config" where
  "apply_defaults c =
     c\<lparr>cf_listen := or_text (cf_listen c) '':8080'',
       cf_rate_limit := default_rate_limit (cf_rate_limit c),
       cf_ban := default_ban (cf_ban c),
       cf_connection := default_connection (cf_connection c),
       cf_challenge := default_challenge (cf_challenge c),
       cf_block := default_block (cf_block c),
       cf_tarpit := default_tarpit (cf_tarpit c),
       cf_log := default_log (cf_log c),
       cf_monitor := default_monitor (cf_monitor c),
       cf_tls := default_tls (cf_tls c),
       cf_minecraft := default_minecraft (cf_minecraft c),
       cf_license := default_license (cf_license c)\<rparr>"

definition normalize :: "config \<Rightarrow> config" where
  "normalize c = apply_defaults c"

section \<open>Validation\<close>

text \<open>The errors of \<open>validate\<close>, one constructor for each message.\<close>

datatype config_error =
  NoUpstream
| BadSite nat
| TlsNeedsCert
| AutoCertNeedsDomain
| MinecraftNeedsUpstream
| LicenseNeedsServerAndKey
| CloudflareNeedsToken
| WebhookNeedsUrl
| UnknownProvider string
| BadRuleAction nat string string
| AdminNeedsToken
| BadLogLevel string

fun bad_site :: "nat \<Rightarrow> site list \<Rightarrow> nat option" where
  "bad_site i [] = None"
| "bad_site i (s # ss) = (if st_host s = [] \<or> st_upstream s = [] then Some i else bad_site (i + 1) ss)"

fun bad_rule :: "nat \<Rightarrow> rule_config list \<Rightarrow> config_error option" where
  "bad_rule i [] = None"
| "bad_rule i (r # rs) =
     (if ru_action r \<in> {[], ''allow'', ''block'', ''challenge''} then bad_rule (i + 1) rs
      else Some (BadRuleAction i (ru_name r) (ru_action r)))"

definition bad_scrubber :: "scrubber_config \<Rightarrow> config_error option" where
  "bad_scrubber s =
     (if sc_enabled s then
        (let p = to_lower (sc_provider s) in
         if p = ''cloudflare'' then
           (if cs_api_token (sc_cloudflare s) = [] \<or> cs_zone_id (sc_cloudflare s) = []
            then Some CloudflareNeedsToken else None)
         else if p = [] \<or> p = ''webhook'' then
           (if sc_webhook_url s = [] then Some WebhookNeedsUrl else None)
         else Some (UnknownProvider (sc_provider s)))
      else None)"

definition validate :: "config \<Rightarrow> config_error option" where
  "validate c =
     (let tls = cf_tls c; ac = tl_auto_cert tls in
      if cf_upstream c = [] \<and> length (cf_sites c) = 0 then Some NoUpstream
      else (case bad_site 0 (cf_sites c) of
        Some i \<Rightarrow> Some (BadSite i)
      | None \<Rightarrow>
      if tl_enabled tls \<and> \<not> ac_enabled ac \<and> \<not> tl_self_signed tls \<and> (tl_cert_file tls = [] \<or> tl_key_file tls = [])
      then Some TlsNeedsCert
      else if ac_enabled ac \<and> length (ac_domains ac) = 0 \<and> length (cf_sites c) = 0 then Some AutoCertNeedsDomain
      else if mc_enabled (cf_minecraft c) \<and> mc_upstream (cf_minecraft c) = [] then Some MinecraftNeedsUpstream
      else if li_enabled (cf_license c) \<and> (li_server_url (cf_license c) = [] \<or> li_key (cf_license c) = [])
      then Some LicenseNeedsServerAndKey
      else (case bad_scrubber (cf_scrubber c) of
        Some e \<Rightarrow> Some e
      | None \<Rightarrow> (case bad_rule 0 (cf_rules c) of
        Some e \<Rightarrow> Some e
      | None \<Rightarrow>
      if ad_enabled (cf_admin c) \<and> ad_token (cf_admin c) = [] then Some AdminNeedsToken
      else if lo_level (cf_log c) \<in> {''debug'', ''info'', ''warn'', ''error''} then None
      else Some (BadLogLevel (lo_level (cf_log c)))))))"

text \<open>\<open>Load\<close> after reading and decoding: \<open>None\<close> for a failed read or decode.\<close>

datatype load_error = ReadOrParseError | Invalid config_error

definition load_config :: "config option \<Rightarrow> load_error + config" where
  "load_config decoded =
     (case decoded of
        None \<Rightarrow> Inl ReadOrParseError
      | Some c \<Rightarrow>
          let c = apply_defaults c
          in (case validate c of Some e \<Rightarrow> Inl (Invalid e) | None \<Rightarrow> Inr c))"

datatype slog_level = LevelDebug | LevelInfo | LevelWarn | LevelError

definition slog_level :: "log_config \<Rightarrow> slog_level" where
  "slog_level l =
     (if lo_level l = ''debug'' then LevelDebug else if lo_level l = ''warn'' then LevelWarn
      else if lo_level l = ''error'' then LevelError else LevelInfo)"

text \<open>The zero value \<open>Config{}\<close>.\<close>

definition zero_config :: config where
  "zero_config =
     \<lparr>cf_listen = [], cf_upstream = [], cf_sites = [], cf_trusted_proxies = [], cf_allowlist = [],
      cf_denylist = [], cf_bad_user_agents = [], cf_watch_interval = 0, cf_dry_run = False,
      cf_tls = \<lparr>tl_enabled = False, tl_https_listen = [], tl_http_listen = [], tl_redirect_http = False,
        tl_cert_file = [], tl_key_file = [], tl_self_signed = False,
        tl_auto_cert = \<lparr>ac_enabled = False, ac_domains = [], ac_email = [], ac_cache_dir = []\<rparr>\<rparr>,
      cf_minecraft = \<lparr>mc_enabled = False, mc_listen = [], mc_upstream = [], mc_max_conns_per_ip = 0,
        mc_new_conns_per_sec = 0, mc_new_conns_burst = 0, mc_handshake_timeout = 0, mc_ban_on_abuse = False\<rparr>,
      cf_license = \<lparr>li_enabled = False, li_server_url = [], li_key = [], li_protecting = [],
        li_heartbeat_interval = 0, li_fail_open = False, li_fleet_bans = False\<rparr>,
      cf_rate_limit = \<lparr>rl_per_ip_rps = 0, rl_per_ip_burst = 0, rl_global_rps = 0, rl_global_burst = 0\<rparr>,
      cf_ban = \<lparr>ba_base_duration = 0, ba_max_duration = 0, ba_escalation_factor = 0,
        ba_sweep_interval = 0, ba_max_entries = 0, ba_persist_path = []\<rparr>,
      cf_connection = \<lparr>co_max_per_ip = 0, co_read_header_timeout = 0, co_read_timeout = 0,
        co_write_timeout = 0, co_idle_timeout = 0, co_max_header_bytes = 0, co_max_body_bytes = 0\<rparr>,
      cf_challenge = \<lparr>ch_enabled = False, ch_mode = [], ch_difficulty_bits = 0, ch_clearance_ttl = 0,
        ch_pressure_threshold = 0, ch_challenge_non_browser = False, ch_secret = []\<rparr>,
      cf_block = \<lparr>bc_status = 0, bc_message = []\<rparr>,
      cf_tarpit = \<lparr>tp_enabled = False, tp_delay = 0, tp_max_concurrent = 0\<rparr>,
      cf_fingerprint = \<lparr>fc_enabled = False, fc_block = [], fc_forward_header = False\<rparr>,
      cf_scrubber = \<lparr>sc_enabled = False, sc_provider = [], sc_webhook_url = [],
        sc_cloudflare = \<lparr>cs_api_token = [], cs_zone_id = [], cs_normal_level = [], cs_api_base = []\<rparr>\<rparr>,
      cf_monitor = \<lparr>mo_sample_interval = 0, mo_retain = 0, mo_attack_threshold = 0, mo_exit_intervals = 0\<rparr>,
      cf_admin = \<lparr>ad_enabled = False, ad_token = [], ad_protect_telemetry = False\<rparr>,
      cf_log = \<lparr>lo_level = [], lo_format = []\<rparr>,
      cf_rules = []\<rparr>"

section \<open>What a valid configuration is\<close>

definition well_configured :: "config \<Rightarrow> bool" where
  "well_configured c \<longleftrightarrow>
     (cf_upstream c \<noteq> [] \<or> cf_sites c \<noteq> []) \<and>
     (\<forall>s\<in>set (cf_sites c). st_host s \<noteq> [] \<and> st_upstream s \<noteq> []) \<and>
     (tl_enabled (cf_tls c) \<longrightarrow> ac_enabled (tl_auto_cert (cf_tls c)) \<or> tl_self_signed (cf_tls c) \<or>
        (tl_cert_file (cf_tls c) \<noteq> [] \<and> tl_key_file (cf_tls c) \<noteq> [])) \<and>
     (ac_enabled (tl_auto_cert (cf_tls c)) \<longrightarrow> ac_domains (tl_auto_cert (cf_tls c)) \<noteq> [] \<or> cf_sites c \<noteq> []) \<and>
     (mc_enabled (cf_minecraft c) \<longrightarrow> mc_upstream (cf_minecraft c) \<noteq> []) \<and>
     (li_enabled (cf_license c) \<longrightarrow> li_server_url (cf_license c) \<noteq> [] \<and> li_key (cf_license c) \<noteq> []) \<and>
     (sc_enabled (cf_scrubber c) \<longrightarrow>
        (to_lower (sc_provider (cf_scrubber c)) = ''cloudflare'' \<and>
           cs_api_token (sc_cloudflare (cf_scrubber c)) \<noteq> [] \<and> cs_zone_id (sc_cloudflare (cf_scrubber c)) \<noteq> []) \<or>
        (to_lower (sc_provider (cf_scrubber c)) \<in> {[], ''webhook''} \<and> sc_webhook_url (cf_scrubber c) \<noteq> [])) \<and>
     (\<forall>r\<in>set (cf_rules c). ru_action r \<in> {[], ''allow'', ''block'', ''challenge''}) \<and>
     (ad_enabled (cf_admin c) \<longrightarrow> ad_token (cf_admin c) \<noteq> []) \<and>
     lo_level (cf_log c) \<in> {''debug'', ''info'', ''warn'', ''error''}"

lemma bad_site_None: "bad_site i ss = None \<longleftrightarrow> (\<forall>s\<in>set ss. st_host s \<noteq> [] \<and> st_upstream s \<noteq> [])"
  by (induction i ss rule: bad_site.induct) auto

lemma bad_rule_None: "bad_rule i rs = None \<longleftrightarrow> (\<forall>r\<in>set rs. ru_action r \<in> {[], ''allow'', ''block'', ''challenge''})"
  by (induction i rs rule: bad_rule.induct) auto

lemma bad_scrubber_None:
  "bad_scrubber s = None \<longleftrightarrow> (sc_enabled s \<longrightarrow>
     (to_lower (sc_provider s) = ''cloudflare'' \<and> cs_api_token (sc_cloudflare s) \<noteq> [] \<and> cs_zone_id (sc_cloudflare s) \<noteq> []) \<or>
     (to_lower (sc_provider s) \<in> {[], ''webhook''} \<and> sc_webhook_url s \<noteq> []))"
  by (simp add: bad_scrubber_def Let_def)

lemma or_default_id [simp]: "or_default (or_default x d) d = or_default x d"
  by (simp add: or_default_def)

lemma or_text_id [simp]: "or_text (or_text s d) d = or_text s d"
  by (simp add: or_text_def)

lemma default_rate_limit_id [simp]: "default_rate_limit (default_rate_limit r) = default_rate_limit r"
  by (simp add: default_rate_limit_def Let_def or_default_def)

text \<open>The sections of a configuration with defaults, and what validation reads of them.\<close>

lemma apply_defaults_fields [simp]:
  "cf_upstream (apply_defaults c) = cf_upstream c"
  "cf_sites (apply_defaults c) = cf_sites c"
  "cf_rules (apply_defaults c) = cf_rules c"
  "cf_scrubber (apply_defaults c) = cf_scrubber c"
  "cf_admin (apply_defaults c) = cf_admin c"
  "cf_tls (apply_defaults c) = default_tls (cf_tls c)"
  "cf_minecraft (apply_defaults c) = default_minecraft (cf_minecraft c)"
  "cf_license (apply_defaults c) = default_license (cf_license c)"
  "cf_log (apply_defaults c) = default_log (cf_log c)"
  "cf_ban (apply_defaults c) = default_ban (cf_ban c)"
  "cf_rate_limit (apply_defaults c) = default_rate_limit (cf_rate_limit c)"
  "cf_connection (apply_defaults c) = default_connection (cf_connection c)"
  "cf_challenge (apply_defaults c) = default_challenge (cf_challenge c)"
  "cf_monitor (apply_defaults c) = default_monitor (cf_monitor c)"
  "cf_tarpit (apply_defaults c) = default_tarpit (cf_tarpit c)"
  by (simp_all add: apply_defaults_def)

lemma default_section_fields [simp]:
  "tl_enabled (default_tls t) = tl_enabled t"
  "ac_enabled (tl_auto_cert (default_tls t)) = ac_enabled (tl_auto_cert t)"
  "mc_enabled (default_minecraft m) = mc_enabled m"
  "li_enabled (default_license l) = li_enabled l"
  "lo_level (default_log g) = or_text (lo_level g) ''info''"
  "ba_sweep_interval (default_ban b) = or_default (ba_sweep_interval b) (10 * second)"
  by (simp_all add: default_tls_def default_minecraft_def default_license_def default_log_def default_ban_def)

lemma zero_config_fields:
  "tl_enabled (cf_tls zero_config) = False"
  "ac_enabled (tl_auto_cert (cf_tls zero_config)) = False"
  "mc_enabled (cf_minecraft zero_config) = False"
  "li_enabled (cf_license zero_config) = False"
  "sc_enabled (cf_scrubber zero_config) = False"
  "ad_enabled (cf_admin zero_config) = False"
  "cf_sites zero_config = []"
  "cf_rules zero_config = []"
  "lo_level (cf_log zero_config) = []"
  by (simp_all add: zero_config_def)

text \<open>The chain of early returns as a conjunction.\<close>

lemma validate_branches:
  "validate c = None \<longleftrightarrow>
    \<not> (cf_upstream c = [] \<and> cf_sites c = []) \<and> bad_site 0 (cf_sites c) = None \<and>
    \<not> (tl_enabled (cf_tls c) \<and> \<not> ac_enabled (tl_auto_cert (cf_tls c)) \<and> \<not> tl_self_signed (cf_tls c) \<and>
       (tl_cert_file (cf_tls c) = [] \<or> tl_key_file (cf_tls c) = [])) \<and>
    \<not> (ac_enabled (tl_auto_cert (cf_tls c)) \<and> ac_domains (tl_auto_cert (cf_tls c)) = [] \<and> cf_sites c = []) \<and>
    \<not> (mc_enabled (cf_minecraft c) \<and> mc_upstream (cf_minecraft c) = []) \<and>
    \<not> (li_enabled (cf_license c) \<and> (li_server_url (cf_license c) = [] \<or> li_key (cf_license c) = [])) \<and>
    bad_scrubber (cf_scrubber c) = None \<and> bad_rule 0 (cf_rules c) = None \<and>
    \<not> (ad_enabled (cf_admin c) \<and> ad_token (cf_admin c) = []) \<and>
    lo_level (cf_log c) \<in> {''debug'', ''info'', ''warn'', ''error''}"
  unfolding validate_def Let_def by (simp split: option.split)

section \<open>Properties\<close>


text \<open>
  Applying the defaults is idempotent, so normalising a configuration that was already normalised
  (a policy merged over a loaded file, a reload) changes nothing.
\<close>

theorem defaults_idempotent: "apply_defaults (apply_defaults c) = apply_defaults c"
  by (simp add: apply_defaults_def default_ban_def default_connection_def default_challenge_def default_block_def
      default_tarpit_def default_log_def default_monitor_def default_tls_def default_minecraft_def default_license_def)

text \<open>Every interval and bound that the components divide by, tick at or allocate is nonzero once loaded.\<close>

definition limits_set :: "config \<Rightarrow> bool" where
  "limits_set c \<longleftrightarrow>
     rl_per_ip_rps (cf_rate_limit c) \<noteq> 0 \<and> rl_per_ip_burst (cf_rate_limit c) \<noteq> 0 \<and>
     rl_global_rps (cf_rate_limit c) \<noteq> 0 \<and> rl_global_burst (cf_rate_limit c) \<noteq> 0 \<and>
     ba_base_duration (cf_ban c) \<noteq> 0 \<and> ba_max_duration (cf_ban c) \<noteq> 0 \<and> ba_escalation_factor (cf_ban c) \<noteq> 0 \<and>
     ba_sweep_interval (cf_ban c) \<noteq> 0 \<and> ba_max_entries (cf_ban c) \<noteq> 0 \<and>
     co_max_per_ip (cf_connection c) \<noteq> 0 \<and> co_max_body_bytes (cf_connection c) \<noteq> 0 \<and>
     ch_difficulty_bits (cf_challenge c) \<noteq> 0 \<and> ch_clearance_ttl (cf_challenge c) \<noteq> 0 \<and>
     mo_sample_interval (cf_monitor c) \<noteq> 0 \<and> tp_max_concurrent (cf_tarpit c) \<noteq> 0 \<and>
     li_heartbeat_interval (cf_license c) \<noteq> 0"

lemma hour_minute_second [simp]: "hour \<noteq> 0" "minute \<noteq> 0" "second \<noteq> 0"
  by (simp_all add: hour_def minute_def second_def)

lemma or_default_nonzero [simp]: "or_default x d = 0 \<longleftrightarrow> x = 0 \<and> d = 0"
  by (simp add: or_default_def)

lemma defaults_set_limits: "limits_set (apply_defaults c)"
  unfolding limits_set_def apply_defaults_fields
  by (simp add: default_ban_def default_connection_def default_challenge_def default_tarpit_def
      default_monitor_def default_license_def default_rate_limit_def Let_def)

text \<open>
  A negative interval passes validation: with \<open>sweep_interval: "-1s"\<close> the configuration loads, the
  interval stays negative, and the ticker built from it would panic.
\<close>

theorem negative_interval_accepted:
  "\<exists>c. load_config (Some (zero_config\<lparr>cf_upstream := ''http://127.0.0.1:3000'',
      cf_ban := (cf_ban zero_config)\<lparr>ba_sweep_interval := - second\<rparr>\<rparr>)) = Inr c \<and>
    ba_sweep_interval (cf_ban c) < 0"
proof -
  let ?c = "zero_config\<lparr>cf_upstream := ''http://127.0.0.1:3000'',
      cf_ban := (cf_ban zero_config)\<lparr>ba_sweep_interval := - second\<rparr>\<rparr>"
  have "validate (apply_defaults ?c) = None"
    unfolding validate_branches by (simp add: bad_scrubber_def zero_config_fields or_text_def)
  then have "load_config (Some ?c) = Inr (apply_defaults ?c)"
    by (simp only: load_config_def option.case Let_def)
  moreover have "ba_sweep_interval (cf_ban (apply_defaults ?c)) < 0"
    by (simp add: or_default_def second_def)
  ultimately show ?thesis by blast
qed

end
