(* ===== verification/Mcproxy.thy ===== *)
theory Mcproxy
  imports McProtocol Banlist Ratelimit Connlimit Metrics Config "HOL-Library.Sublist"
begin

text \<open>
  \<^verbatim>\<open>internal/mcproxy/proxy.go\<close>: one connection of the Minecraft proxy, from the accept to the splice. The
  ban table and the metrics are the ones the HTTP guard uses. \<open>mc_env\<close> is what the environment
  contributes to one connection: the peer, the bytes the client sends, the clock readings, the orders of
  the ranges and whether dialling and writing upstream succeed.
\<close>

section \<open>The code\<close>

record mc_proxy =
  mp_listen :: string
  mp_upstream :: string
  mp_hs_timeout :: duration
  mp_ban_abuse :: bool
  mp_bans :: store
  mp_conns :: conn_limiter
  mp_conn_rate :: per_ip
  mp_metrics :: metrics

definition new_mc_proxy :: "minecraft_config \<Rightarrow> store \<Rightarrow> metrics \<Rightarrow> mc_proxy" where
  "new_mc_proxy cfg bans mx =
     \<lparr>mp_listen = mc_listen cfg, mp_upstream = mc_upstream cfg, mp_hs_timeout = mc_handshake_timeout cfg,
      mp_ban_abuse = mc_ban_on_abuse cfg, mp_bans = bans,
      mp_conns = new_conn_limiter (mc_max_conns_per_ip cfg),
      mp_conn_rate = new_per_ip (mc_new_conns_per_sec cfg) (mc_new_conns_burst cfg) 100000,
      mp_metrics = mx\<rparr>"

record mc_env =
  me_remote :: string
  me_stream :: "octet list"
  me_now_check :: time
  me_now_rate :: time
  me_ord_rate :: "string list"
  me_now_ban :: time
  me_ord_ban :: "string list"
  me_oor :: int
  me_dial_ok :: bool
  me_write_ok :: bool

datatype mc_result =
  McRejected string
| McDialFailed
| McWriteFailed
| McSpliced handshake "octet list" "octet list"

definition host_of :: "string \<Rightarrow> string" where
  "host_of addr = (case split_host_port addr of Some (h, _) \<Rightarrow> h | None \<Rightarrow> addr)"

definition mc_count :: "mc_proxy \<Rightarrow> mc_proxy" where
  "mc_count p = p\<lparr>mp_metrics := (mp_metrics p)\<lparr>mt_mc_conn_total := add1 (mt_mc_conn_total (mp_metrics p))\<rparr>\<rparr>"

definition mc_reject :: "string \<Rightarrow> mc_proxy \<Rightarrow> mc_result \<times> mc_proxy" where
  "mc_reject reason p =
     (McRejected reason,
      p\<lparr>mp_metrics := (mp_metrics p)\<lparr>mt_mc_conn_rejected := add1 (mt_mc_conn_rejected (mp_metrics p))\<rparr>\<rparr>)"

definition mc_abuse :: "mc_env \<Rightarrow> string \<Rightarrow> mc_proxy \<Rightarrow> mc_proxy" where
  "mc_abuse env ip p =
     (if mp_ban_abuse p
      then p\<lparr>mp_bans := snd (ban (me_oor env) (me_ord_ban env) (me_now_ban env) ip (mp_bans p))\<rparr> else p)"

definition mc_release :: "string \<Rightarrow> mc_proxy \<Rightarrow> mc_proxy" where
  "mc_release ip p = p\<lparr>mp_conns := release ip (mp_conns p)\<rparr>"

text \<open>
  \<open>handle\<close> up to the point where the two streams are spliced. Every early return after \<open>Acquire\<close> runs the
  deferred release; a spliced connection keeps its slot until it ends (\<open>mc_release\<close>).
\<close>

definition mc_handle :: "mc_env \<Rightarrow> mc_proxy \<Rightarrow> mc_result \<times> mc_proxy" where
  "mc_handle env p =
     (let p = mc_count p;
          ip = host_of (me_remote env)
      in if is_banned (mp_bans p) ip (me_now_check env) then mc_reject ''banned'' p
      else
        let (ok, cr) = per_ip_allow (me_ord_rate env) (me_now_rate env) ip (mp_conn_rate p);
            p = p\<lparr>mp_conn_rate := cr\<rparr>
        in if \<not> ok then mc_reject ''new-conn-rate'' (mc_abuse env ip p)
        else
          let (ok, cl) = acquire ip (mp_conns p);
              p = p\<lparr>mp_conns := cl\<rparr>
          in if \<not> ok then mc_reject ''max-conns-per-ip'' p
          else
            (case read_handshake (me_stream env) of
               (Inl e, raw, rest) \<Rightarrow>
                 (let (res, p) = mc_reject ''bad-handshake'' (mc_abuse env ip p) in (res, mc_release ip p))
             | (Inr hs, raw, rest) \<Rightarrow>
                 if \<not> me_dial_ok env then (McDialFailed, mc_release ip p)
                 else if \<not> me_write_ok env then (McWriteFailed, mc_release ip p)
                 else (McSpliced hs raw rest, p)))"

section \<open>The splice\<close>

text \<open>
  A spliced connection: for each direction what its source has sent and \<open>io.Copy\<close> has not read yet, what
  \<open>io.Copy\<close> has written, and whether that copy has ended. It starts after the handshake was replayed. A copy
  moves any number of bytes at a time and ends at the end of its source or at an error of either side; \<open>pipe\<close> then
  closes the write side of the destination. \<open>handle\<close> returns at the first end of a copy, closes both sockets and
  gives the slot back.
\<close>

record splice =
  sl_from_client :: "octet list"
  sl_to_server :: "octet list"
  sl_up_done :: bool
  sl_from_server :: "octet list"
  sl_to_client :: "octet list"
  sl_down_done :: bool

definition splice_start :: "octet list \<Rightarrow> octet list \<Rightarrow> splice" where
  "splice_start raw rest =
     \<lparr>sl_from_client = rest, sl_to_server = raw, sl_up_done = False,
      sl_from_server = [], sl_to_client = [], sl_down_done = False\<rparr>"

datatype splice_event =
  Client_sends "octet list"
| Server_sends "octet list"
| Copy_up nat
| Copy_down nat
| End_up
| End_down

fun splice_step :: "splice_event \<Rightarrow> splice \<Rightarrow> splice" where
  "splice_step (Client_sends bs) s = s\<lparr>sl_from_client := sl_from_client s @ bs\<rparr>"
| "splice_step (Server_sends bs) s = s\<lparr>sl_from_server := sl_from_server s @ bs\<rparr>"
| "splice_step (Copy_up n) s =
     (if sl_up_done s then s
      else s\<lparr>sl_to_server := sl_to_server s @ take n (sl_from_client s), sl_from_client := drop n (sl_from_client s)\<rparr>)"
| "splice_step (Copy_down n) s =
     (if sl_down_done s then s
      else s\<lparr>sl_to_client := sl_to_client s @ take n (sl_from_server s), sl_from_server := drop n (sl_from_server s)\<rparr>)"
| "splice_step End_up s = s\<lparr>sl_up_done := True\<rparr>"
| "splice_step End_down s = s\<lparr>sl_down_done := True\<rparr>"

definition splice_over :: "splice \<Rightarrow> bool" where
  "splice_over s \<longleftrightarrow> sl_up_done s \<or> sl_down_done s"

text \<open>What the client sent during a splice, and what the server did.\<close>

definition client_sent :: "splice_event list \<Rightarrow> octet list" where
  "client_sent es = concat (map (\<lambda>e. case e of Client_sends bs \<Rightarrow> bs | _ \<Rightarrow> []) es)"

definition server_sent :: "splice_event list \<Rightarrow> octet list" where
  "server_sent es = concat (map (\<lambda>e. case e of Server_sends bs \<Rightarrow> bs | _ \<Rightarrow> []) es)"

text \<open>No byte is lost, added or reordered between what was written and what is still to be read.\<close>

lemma splice_accounts:
  "sl_to_server (go_run splice_step es s) @ sl_from_client (go_run splice_step es s) =
     sl_to_server s @ sl_from_client s @ client_sent es"
  "sl_to_client (go_run splice_step es s) @ sl_from_server (go_run splice_step es s) =
     sl_to_client s @ sl_from_server s @ server_sent es"
proof (induction es arbitrary: s)
  case (Cons e es)
  { case 1 then show ?case using Cons(1) [of "splice_step e s"] by (cases e) (simp_all add: client_sent_def) }
  { case 2 then show ?case using Cons(2) [of "splice_step e s"] by (cases e) (simp_all add: server_sent_def) }
qed (simp_all add: client_sent_def server_sent_def)

section \<open>The branches\<close>

lemma mc_small [simp]:
  "mp_conns (mc_count p) = mp_conns p" "mp_bans (mc_count p) = mp_bans p" "mp_conn_rate (mc_count p) = mp_conn_rate p"
  "mp_ban_abuse (mc_count p) = mp_ban_abuse p"
  "mp_conns (mc_abuse env ip p) = mp_conns p"
  "mp_metrics (mc_abuse env ip p) = mp_metrics p"
  "mp_conns (snd (mc_reject r p)) = mp_conns p"
  "mp_bans (snd (mc_reject r p)) = mp_bans p"
  "fst (mc_reject r p) = McRejected r"
  "mp_conns (mc_release ip p) = release ip (mp_conns p)"
  "mp_metrics (mc_release ip p) = mp_metrics p"
  "mp_bans (mc_release ip p) = mp_bans p"
  by (simp_all add: mc_count_def mc_abuse_def mc_reject_def mc_release_def)

lemma mc_reject_count [simp]:
  "mt_mc_conn_rejected (mp_metrics (snd (mc_reject r p))) = add1 (mt_mc_conn_rejected (mp_metrics p))"
  "mt_mc_conn_total (mp_metrics (snd (mc_reject r p))) = mt_mc_conn_total (mp_metrics p)"
  "mt_mc_conn_total (mp_metrics (mc_count p)) = add1 (mt_mc_conn_total (mp_metrics p))"
  "mt_mc_conn_rejected (mp_metrics (mc_count p)) = mt_mc_conn_rejected (mp_metrics p)"
  by (simp_all add: mc_reject_def mc_count_def)

lemma release_acquired:
  assumes "represents l M" "fst (acquire ip l)"
  shows "represents (release ip (snd (acquire ip l))) M"
proof -
  have "represents (snd (acquire ip l)) (add_mset ip M)"
    using acquire_refines [OF assms(1), of ip] assms(2) by (cases "may_enter (cl_max l) ip M") auto
  from release_refines [OF this, of ip] show ?thesis by simp
qed

text \<open>The game port is closed to banned addresses, without exception.\<close>

lemma mc_banned:
  "is_banned (mp_bans p) (host_of (me_remote env)) (me_now_check env) \<Longrightarrow> fst (mc_handle env p) = McRejected ''banned''"
  by (simp add: mc_handle_def Let_def)

interpretation game: ban_client mp_bans "\<lambda>env p. host_of (me_remote env)" me_now_check "\<lambda>env p. False"
    "\<lambda>env p. fst (mc_handle env p) \<noteq> McRejected ''banned''"
  by unfold_locales (simp add: mc_banned)

section \<open>Properties\<close>

lemma spliced_stream:
  assumes "fst (mc_handle env p) = McSpliced hs raw rest"
  shows "raw @ rest = me_stream env \<and> (hs_next_state hs = 1 \<or> hs_next_state hs = 2) \<and>
    \<not> is_banned (mp_bans p) (host_of (me_remote env)) (me_now_check env)"
proof -
  have nb: "\<not> is_banned (mp_bans p) (host_of (me_remote env)) (me_now_check env)"
    using assms by (auto simp: mc_handle_def Let_def)
  have rd: "read_handshake (me_stream env) = (Inr hs, raw, rest)"
    using assms nb by (simp add: mc_handle_def Let_def case_prod_beta prod_eq_iff split: if_splits sum.splits)
  obtain len len_raw r where rv: "read_varint (me_stream env) = (Inr len, len_raw, r)"
    using rd by (auto simp: read_handshake_def split: prod.splits sum.splits)
  have "parse_payload (take (nat len) r) = Inr hs \<and> raw = len_raw @ take (nat len) r \<and> rest = drop (nat len) r"
    using rd rv by (auto simp: read_handshake_def read_full_def split: if_splits)
  then show ?thesis using read_varint_split [OF rv] parse_payload_state nb by auto
qed



text \<open>
  No connection slot leaks and every connection is counted: after a connection has been handled the
  limiter represents the same requests in flight as before, and one more exactly when the connection was
  spliced; the total grows by one, the rejections by one exactly for a rejected connection.
\<close>

theorem mc_slots_and_counters:
  assumes "represents (mp_conns p) M" and "mc_handle env p = (res, p')"
  shows "represents (mp_conns p') (case res of McSpliced hs raw rest \<Rightarrow> add_mset (host_of (me_remote env)) M | _ \<Rightarrow> M) \<and>
    mt_mc_conn_total (mp_metrics p') = add1 (mt_mc_conn_total (mp_metrics p)) \<and>
    mt_mc_conn_rejected (mp_metrics p') =
      (case res of McRejected r \<Rightarrow> add1 (mt_mc_conn_rejected (mp_metrics p)) | _ \<Rightarrow> mt_mc_conn_rejected (mp_metrics p))"
proof -
  let ?ip = "host_of (me_remote env)"
  have acq: "\<not> fst (acquire ?ip (mp_conns p)) \<Longrightarrow> represents (snd (acquire ?ip (mp_conns p))) M"
    "fst (acquire ?ip (mp_conns p)) \<Longrightarrow> represents (snd (acquire ?ip (mp_conns p))) (add_mset ?ip M)"
    "fst (acquire ?ip (mp_conns p)) \<Longrightarrow> represents (release ?ip (snd (acquire ?ip (mp_conns p)))) M"
    using acquire_refines [OF assms(1), of ?ip] release_acquired [OF assms(1), of ?ip] by (auto split: if_splits)
  have res: "res = fst (mc_handle env p)" "p' = snd (mc_handle env p)" using assms(2) by simp_all
  show ?thesis unfolding res
    using assms(1) acq by (simp add: mc_handle_def Let_def case_prod_beta split: sum.split prod.split)
qed

theorem mc_slots_and_counters_witness:
  "represents (mp_conns (snd (mc_handle \<lparr>me_remote = ''203.0.113.7:4711'', me_stream = [],
    me_now_check = 0, me_now_rate = 0, me_ord_rate = [], me_now_ban = 0, me_ord_ban = [], me_oor = 0,
    me_dial_ok = True, me_write_ok = True\<rparr>
    (new_mc_proxy (cf_minecraft zero_config) (new_store minute hour 2 100 []) (new_metrics 0))))) {#}"
proof -
  let ?env = "\<lparr>me_remote = ''203.0.113.7:4711'', me_stream = [],
    me_now_check = 0, me_now_rate = 0, me_ord_rate = [], me_now_ban = 0, me_ord_ban = [], me_oor = 0,
    me_dial_ok = True, me_write_ok = True\<rparr>"
  let ?p = "new_mc_proxy (cf_minecraft zero_config) (new_store minute hour 2 100 []) (new_metrics 0)"
  have r: "represents (mp_conns ?p) {#}" by (simp add: new_mc_proxy_def represents_new)
  have host: "host_of ''203.0.113.7:4711'' = ''203.0.113.7''" by code_simp
  have "fst (mc_handle ?env ?p) = McRejected ''new-conn-rate''"
    by (simp add: mc_handle_def Let_def host new_mc_proxy_def zero_config_def new_store_def set_allowlist_def is_banned_def
        is_allowed_def per_ip_allow_def new_per_ip_def take_token_def)
  with mc_slots_and_counters [OF r prod.collapse [symmetric], of ?env] show ?thesis by simp
qed

end
