(* ===== verification/Go_Crypto.thy ===== *)
theory Go_Crypto
  imports Go_Strings "HOL-Library.Word"
begin

unbundle bit_operations_syntax

text \<open>
  The hash functions of Go's standard library the program uses: SHA-256, HMAC-SHA-256 and MD5, as
  executable functions on byte lists. \<open>bytes_of\<close> is the conversion \<open>[]byte(s)\<close>.
\<close>

type_synonym word32 = "32 word"

definition bytes_of :: "string \<Rightarrow> 8 word list" where
  "bytes_of s = map of_char s"

definition hex_of :: "8 word list \<Rightarrow> string" where
  "hex_of bs = hex_encode (map unat bs)"

subsection \<open>SHA-256\<close>

definition sha_k :: "word32 list" where
  "sha_k =
    [1116352408, 1899447441, 3049323471, 3921009573, 961987163, 1508970993, 2453635748, 2870763221,
     3624381080, 310598401, 607225278, 1426881987, 1925078388, 2162078206, 2614888103, 3248222580,
     3835390401, 4022224774, 264347078, 604807628, 770255983, 1249150122, 1555081692, 1996064986,
     2554220882, 2821834349, 2952996808, 3210313671, 3336571891, 3584528711, 113926993, 338241895,
     666307205, 773529912, 1294757372, 1396182291, 1695183700, 1986661051, 2177026350, 2456956037,
     2730485921, 2820302411, 3259730800, 3345764771, 3516065817, 3600352804, 4094571909, 275423344,
     430227734, 506948616, 659060556, 883997877, 958139571, 1322822218, 1537002063, 1747873779,
     1955562222, 2024104815, 2227730452, 2361852424, 2428436474, 2756734187, 3204031479, 3329325298]"

definition sha_init :: "word32 list" where
  "sha_init =
    [1779033703, 3144134277, 1013904242, 2773480762, 1359893119, 2600822924, 528734635, 1541459225]"

text \<open>Big-endian words of a byte list, and back.\<close>

fun words_be :: "8 word list \<Rightarrow> word32 list" where
  "words_be (a # b # c # d # r) =
     (push_bit 24 (ucast a) OR push_bit 16 (ucast b) OR push_bit 8 (ucast c) OR ucast d) # words_be r"
| "words_be r = []"

definition bytes_be :: "word32 \<Rightarrow> 8 word list" where
  "bytes_be w = [ucast (drop_bit 24 w), ucast (drop_bit 16 w), ucast (drop_bit 8 w), ucast w]"

definition len64_be :: "nat \<Rightarrow> 8 word list" where
  "len64_be n = (let w = word_of_nat (8 * n) :: 64 word
     in map (\<lambda>i. ucast (drop_bit (8 * i) w)) [7, 6, 5, 4, 3, 2, 1, 0])"

definition pad_zeros :: "nat \<Rightarrow> nat" where
  "pad_zeros n = (if n mod 64 < 56 then 55 - n mod 64 else 119 - n mod 64)"

definition sha_pad :: "8 word list \<Rightarrow> 8 word list" where
  "sha_pad m = m @ [0x80] @ replicate (pad_zeros (length m)) 0 @ len64_be (length m)"

definition sha_s0 :: "word32 \<Rightarrow> word32" where
  "sha_s0 x = word_rotr 7 x XOR word_rotr 18 x XOR drop_bit 3 x"

definition sha_s1 :: "word32 \<Rightarrow> word32" where
  "sha_s1 x = word_rotr 17 x XOR word_rotr 19 x XOR drop_bit 10 x"

definition sha_schedule :: "word32 list \<Rightarrow> word32 list" where
  "sha_schedule ws =
     foldl (\<lambda>w t. w @ [sha_s1 (w ! (t - 2)) + w ! (t - 7) + sha_s0 (w ! (t - 15)) + w ! (t - 16)]) ws [16..<64]"

type_synonym sha_state = "word32 \<times> word32 \<times> word32 \<times> word32 \<times> word32 \<times> word32 \<times> word32 \<times> word32"

definition sha_round :: "sha_state \<Rightarrow> word32 \<times> word32 \<Rightarrow> sha_state" where
  "sha_round s kw =
     (case s of (a, b, c, d, e, f, g, h) \<Rightarrow>
       let t1 = h + (word_rotr 6 e XOR word_rotr 11 e XOR word_rotr 25 e) + ((e AND f) XOR (NOT e AND g)) + fst kw + snd kw;
           t2 = (word_rotr 2 a XOR word_rotr 13 a XOR word_rotr 22 a) + ((a AND b) XOR (a AND c) XOR (b AND c))
       in (t1 + t2, a, b, c, d + t1, e, f, g))"

definition sha_block :: "word32 list \<Rightarrow> word32 list \<Rightarrow> word32 list" where
  "sha_block hs ws =
     (case foldl sha_round (hs ! 0, hs ! 1, hs ! 2, hs ! 3, hs ! 4, hs ! 5, hs ! 6, hs ! 7)
          (zip sha_k (sha_schedule ws)) of
        (a, b, c, d, e, f, g, h) \<Rightarrow> map2 (+) hs [a, b, c, d, e, f, g, h])"

fun sha_blocks :: "word32 list \<Rightarrow> word32 list \<Rightarrow> word32 list" where
  "sha_blocks hs ws = (if length ws < 16 then hs else sha_blocks (sha_block hs (take 16 ws)) (drop 16 ws))"

declare sha_blocks.simps [simp del]

definition sha256 :: "8 word list \<Rightarrow> 8 word list" where
  "sha256 m = concat (map bytes_be (sha_blocks sha_init (words_be (sha_pad m))))"

subsection \<open>HMAC\<close>

definition hmac_key :: "8 word list \<Rightarrow> 8 word list" where
  "hmac_key k = (let k = (if 64 < length k then sha256 k else k) in k @ replicate (64 - length k) 0)"

definition hmac_sha256 :: "8 word list \<Rightarrow> 8 word list \<Rightarrow> 8 word list" where
  "hmac_sha256 key m =
     (let k = hmac_key key
      in sha256 (map (\<lambda>b. b XOR 0x5C) k @ sha256 (map (\<lambda>b. b XOR 0x36) k @ m)))"

subsection \<open>MD5\<close>

definition md5_k :: "word32 list" where
  "md5_k =
    [3614090360, 3905402710, 606105819, 3250441966, 4118548399, 1200080426, 2821735955, 4249261313,
     1770035416, 2336552879, 4294925233, 2304563134, 1804603682, 4254626195, 2792965006, 1236535329,
     4129170786, 3225465664, 643717713, 3921069994, 3593408605, 38016083, 3634488961, 3889429448,
     568446438, 3275163606, 4107603335, 1163531501, 2850285829, 4243563512, 1735328473, 2368359562,
     4294588738, 2272392833, 1839030562, 4259657740, 2763975236, 1272893353, 4139469664, 3200236656,
     681279174, 3936430074, 3572445317, 76029189, 3654602809, 3873151461, 530742520, 3299628645,
     4096336452, 1126891415, 2878612391, 4237533241, 1700485571, 2399980690, 4293915773, 2240044497,
     1873313359, 4264355552, 2734768916, 1309151649, 4149444226, 3174756917, 718787259, 3951481745]"

definition md5_s :: "nat list" where
  "md5_s = concat (replicate 4 [7, 12, 17, 22]) @ concat (replicate 4 [5, 9, 14, 20]) @
     concat (replicate 4 [4, 11, 16, 23]) @ concat (replicate 4 [6, 10, 15, 21])"

fun words_le :: "8 word list \<Rightarrow> word32 list" where
  "words_le (a # b # c # d # r) =
     (ucast a OR push_bit 8 (ucast b) OR push_bit 16 (ucast c) OR push_bit 24 (ucast d)) # words_le r"
| "words_le r = []"

definition bytes_le :: "word32 \<Rightarrow> 8 word list" where
  "bytes_le w = rev (bytes_be w)"

definition md5_pad :: "8 word list \<Rightarrow> 8 word list" where
  "md5_pad m = m @ [0x80] @ replicate (pad_zeros (length m)) 0 @ rev (len64_be (length m))"

definition md5_round :: "word32 list \<Rightarrow> word32 \<times> word32 \<times> word32 \<times> word32 \<Rightarrow> nat \<Rightarrow> word32 \<times> word32 \<times> word32 \<times> word32" where
  "md5_round ws s i =
     (case s of (a, b, c, d) \<Rightarrow>
       let (f, g) =
             (if i < 16 then ((b AND c) OR (NOT b AND d), i)
              else if i < 32 then ((d AND b) OR (NOT d AND c), (5 * i + 1) mod 16)
              else if i < 48 then (b XOR c XOR d, (3 * i + 5) mod 16)
              else (c XOR (b OR NOT d), (7 * i) mod 16))
       in (d, b + word_rotl (md5_s ! i) (a + f + md5_k ! i + ws ! g), b, c))"

definition md5_block :: "word32 list \<Rightarrow> word32 list \<Rightarrow> word32 list" where
  "md5_block hs ws =
     (case foldl (md5_round ws) (hs ! 0, hs ! 1, hs ! 2, hs ! 3) [0..<64] of
        (a, b, c, d) \<Rightarrow> map2 (+) hs [a, b, c, d])"

fun md5_blocks :: "word32 list \<Rightarrow> word32 list \<Rightarrow> word32 list" where
  "md5_blocks hs ws = (if length ws < 16 then hs else md5_blocks (md5_block hs (take 16 ws)) (drop 16 ws))"

declare md5_blocks.simps [simp del]

definition md5_sum :: "8 word list \<Rightarrow> 8 word list" where
  "md5_sum m = concat (map bytes_le (md5_blocks [0x67452301, 0xefcdab89, 0x98badcfe, 0x10325476] (words_le (md5_pad m))))"

subsection \<open>Lengths\<close>

lemma length_sha_block: "length hs = 8 \<Longrightarrow> length (sha_block hs ws) = 8"
  by (simp add: sha_block_def split: prod.split)

lemma length_sha_blocks: "length hs = 8 \<Longrightarrow> length (sha_blocks hs ws) = 8"
  by (induction hs ws rule: sha_blocks.induct) (subst sha_blocks.simps, simp add: length_sha_block)

lemma length_sha256 [simp]: "length (sha256 m) = 32"
proof -
  have "length (concat (map bytes_be ws)) = 4 * length ws" for ws
    by (induction ws) (simp_all add: bytes_be_def)
  then show ?thesis by (simp add: sha256_def length_sha_blocks sha_init_def)
qed

end
