(* ===== verification/Challenge.thy ===== *)
theory Challenge
  imports Go_Crypto Go_Net Go_Http Go_Time
begin

text \<open>
  \<^verbatim>\<open>internal/challenge/challenge.go\<close>: the stateless proof-of-work challenge. \<open>serve\<close> issues the signed
  parameters, \<open>solved\<close> is the cookie the page's script builds, \<open>verify\<close> checks a cookie. Random bytes are
  arguments.
\<close>

section \<open>The code\<close>

definition clearance_cookie :: string where "clearance_cookie = ''ag_clearance''"

record chal_manager =
  cm_secret :: string
  cm_difficulty :: int
  cm_clearance_ttl :: duration

definition chal_set_params :: "int \<Rightarrow> duration \<Rightarrow> chal_manager \<Rightarrow> chal_manager" where
  "chal_set_params bits ttl m = m\<lparr>cm_difficulty := bits, cm_clearance_ttl := ttl\<rparr>"

definition new_chal_manager :: "string \<Rightarrow> string \<Rightarrow> int \<Rightarrow> duration \<Rightarrow> chal_manager" where
  "new_chal_manager rand32 secret bits ttl =
     (let key = (if length secret = 0 then rand32 else secret)
      in chal_set_params bits ttl \<lparr>cm_secret = key, cm_difficulty = 0, cm_clearance_ttl = 0\<rparr>)"

definition sign :: "chal_manager \<Rightarrow> string \<Rightarrow> string \<Rightarrow> string \<Rightarrow> string" where
  "sign m token ts diff =
     hex_of (hmac_sha256 (bytes_of (cm_secret m)) (bytes_of (token @ ''|'' @ ts @ ''|'' @ diff)))"

definition leading_zeros8 :: "byte \<Rightarrow> int" where
  "leading_zeros8 x = int (length (takeWhile Not (byte_bits x)))"

fun leading_zero_loop :: "int \<Rightarrow> byte list \<Rightarrow> int" where
  "leading_zero_loop c [] = c"
| "leading_zero_loop c (x # xs) = (if x = 0 then leading_zero_loop (c + 8) xs else c + leading_zeros8 x)"

definition leading_zero_bits :: "byte list \<Rightarrow> int" where
  "leading_zero_bits b = leading_zero_loop 0 b"

definition pow_valid :: "string \<Rightarrow> string \<Rightarrow> int \<Rightarrow> bool" where
  "pow_valid token nonce difficulty =
     (difficulty \<le> leading_zero_bits (sha256 (bytes_of (token @ '':'' @ nonce))))"

definition verify :: "chal_manager \<Rightarrow> time \<Rightarrow> string \<Rightarrow> bool" where
  "verify m now cookie =
     (case split_on (CHR ''.'') cookie of
        [token, ts, diff, nonce, sig] \<Rightarrow>
          if sig \<noteq> sign m token ts diff then False
          else (case parse_int ts of
            None \<Rightarrow> False
          | Some issued \<Rightarrow>
              if cm_clearance_ttl m < time_sub now (of_unix issued) then False
              else (case parse_int diff of None \<Rightarrow> False | Some d \<Rightarrow> pow_valid token nonce d))
      | _ \<Rightarrow> False)"

definition has_clearance :: "chal_manager \<Rightarrow> time \<Rightarrow> http_request \<Rightarrow> bool" where
  "has_clearance m now r = (case rq_cookie r clearance_cookie of None \<Rightarrow> False | Some v \<Rightarrow> verify m now v)"

definition rand_hex :: "byte list \<Rightarrow> string" where "rand_hex buf = hex_of buf"

text \<open>
  The challenge response: the two headers that carry it, and the arguments the page template is filled
  with (token, timestamp, difficulty, signature, cookie lifetime in seconds).
\<close>

record chal_response =
  cr_challenge :: string
  cr_data :: string
  cr_content_type :: string
  cr_cache_control :: string
  cr_status :: int
  cr_page_args :: "string \<times> string \<times> int \<times> string \<times> int"

definition serve :: "chal_manager \<Rightarrow> byte list \<Rightarrow> time \<Rightarrow> chal_response" where
  "serve m rand16 now =
     (let token = rand_hex rand16;
          ts = itoa (to_unix now);
          difficulty = cm_difficulty m;
          diff = itoa difficulty;
          sig = sign m token ts diff
      in \<lparr>cr_challenge = ''1'',
          cr_data = join ''.'' [token, ts, diff, sig],
          cr_content_type = ''text/html; charset=utf-8'',
          cr_cache_control = ''no-store'',
          cr_status = status_ok,
          cr_page_args = (token, ts, difficulty, sig, trunc (dur_seconds (cm_clearance_ttl m)))\<rparr>)"

text \<open>The cookie the page's script sets once \<open>n\<close> solves the puzzle: \<open>[C,TS,D,n,SIG].join(".")\<close>.\<close>

definition solved :: "string \<times> string \<times> int \<times> string \<times> int \<Rightarrow> int \<Rightarrow> string" where
  "solved args n = (case args of (c, ts, d, sig, max_age) \<Rightarrow> join ''.'' [c, ts, itoa d, itoa n, sig])"

section \<open>Proof of work\<close>

lemma leading_zero_loop_acc: "leading_zero_loop c xs = c + leading_zero_loop 0 xs"
proof (induction xs arbitrary: c)
  case (Cons x xs)
  from Cons [of "c + 8"] Cons [of 8] show ?case by simp
qed simp

lemma byte_bits_0_iff: "list_all Not (byte_bits x) \<longleftrightarrow> x = 0"
proof
  assume "list_all Not (byte_bits x)"
  then have "\<forall>i < 8. bit x (7 - i) = bit (0 :: byte) (7 - i)" by (simp add: byte_bits_def list_all_iff)
  then show "x = 0" unfolding byte_eq_iff [of x 0] .
qed (simp add: byte_bits_def list_all_iff)

lemma takeWhile_append_all: "list_all P xs \<Longrightarrow> takeWhile P (xs @ ys) = xs @ takeWhile P ys"
  by (induction xs) auto

lemma takeWhile_append_some: "\<not> list_all P xs \<Longrightarrow> takeWhile P (xs @ ys) = takeWhile P xs"
  by (induction xs) auto

lemma leading_zero_bits_takeWhile:
  "leading_zero_bits b = int (length (takeWhile Not (addr_bitstring b)))"
  unfolding leading_zero_bits_def
proof (induction b)
  case (Cons x b)
  show ?case
  proof (cases "x = 0")
    case True
    then have "list_all Not (byte_bits x)" by (simp add: byte_bits_0_iff)
    then show ?thesis using Cons True leading_zero_loop_acc [of 8 b] by (simp add: takeWhile_append_all)
  next
    case False
    then have "\<not> list_all Not (byte_bits x)" by (simp add: byte_bits_0_iff)
    then show ?thesis using False by (simp add: takeWhile_append_some leading_zeros8_def)
  qed
qed simp

lemma takeWhile_ge: "n \<le> length xs \<Longrightarrow> n \<le> length (takeWhile P xs) \<longleftrightarrow> list_all P (take n xs)"
proof (induction xs arbitrary: n)
  case (Cons x xs)
  then show ?case by (cases n) auto
qed simp

section \<open>Cookies\<close>

lemma no_dot_bar:
  "CHR ''.'' \<notin> set (hex_of bs)" "CHR ''|'' \<notin> set (hex_of bs)"
proof -
  have "\<forall>b\<in>set (map unat bs). b < 256"
  proof
    fix b assume "b \<in> set (map unat bs)"
    then obtain w where "b = unat w" "w \<in> set bs" by auto
    moreover have "unat w < 2 ^ LENGTH(8)" by (rule unsigned_less)
    ultimately show "b < 256" by simp
  qed
  then show "CHR ''.'' \<notin> set (hex_of bs)" "CHR ''|'' \<notin> set (hex_of bs)"
    unfolding hex_of_def using hex_encode_no_dot by blast+
qed

lemma verify_iff:
  "verify m now cookie \<longleftrightarrow>
     (\<exists>token ts diff nonce issued d.
        split_on (CHR ''.'') cookie = [token, ts, diff, nonce, sign m token ts diff] \<and>
        parse_int ts = Some issued \<and> time_sub now (of_unix issued) \<le> cm_clearance_ttl m \<and>
        parse_int diff = Some d \<and> pow_valid token nonce d)"
  unfolding verify_def
  by (auto split: list.splits option.splits if_splits)

text \<open>The signed text has two bars, so it can be taken apart in one way only.\<close>

lemma two_bars_unique:
  assumes "a @ ''|'' @ b @ ''|'' @ c = a' @ ''|'' @ b' @ ''|'' @ c'"
    and "CHR ''|'' \<notin> set a" "CHR ''|'' \<notin> set b" "CHR ''|'' \<notin> set c"
  shows "a = a' \<and> b = b' \<and> c = c'"
proof -
  have n: "count_list (a @ ''|'' @ b @ ''|'' @ c) (CHR ''|'') = 2" using assms(2-4) by (simp add: count_list_0_iff)
  have m: "count_list (a' @ ''|'' @ b' @ ''|'' @ c') (CHR ''|'') =
    2 + count_list a' (CHR ''|'') + count_list b' (CHR ''|'') + count_list c' (CHR ''|'')" by simp
  have "count_list a' (CHR ''|'') = 0" "count_list b' (CHR ''|'') = 0" "count_list c' (CHR ''|'') = 0"
    using n m unfolding assms(1) by simp_all
  then have no: "CHR ''|'' \<notin> set a'" "CHR ''|'' \<notin> set b'" by (simp_all add: count_list_0_iff)
  have "cut (CHR ''|'') (a @ CHR ''|'' # b @ ''|'' @ c) = cut (CHR ''|'') (a' @ CHR ''|'' # b' @ ''|'' @ c')"
    using assms(1) by simp
  then have 1: "a = a'" "b @ CHR ''|'' # c = b' @ CHR ''|'' # c'"
    unfolding cut_append [OF assms(2)] cut_append [OF no(1)] by simp_all
  then have "cut (CHR ''|'') (b @ CHR ''|'' # c) = cut (CHR ''|'') (b' @ CHR ''|'' # c')" by simp
  then show ?thesis using 1(1) unfolding cut_append [OF assms(3)] cut_append [OF no(2)] by simp
qed

lemma unat_of_char: "unat (of_char c :: 8 word) = of_char c"
proof -
  have "(of_char c :: 8 word) = word_of_nat (of_char c)" by (rule of_nat_of_char [symmetric])
  then have "unat (of_char c :: 8 word) = unat (word_of_nat (of_char c) :: 8 word)" by (simp only:)
  then show ?thesis by (simp add: unsigned_of_nat take_bit_eq_mod)
qed

lemma bytes_of_inject: "bytes_of s = bytes_of t \<longleftrightarrow> s = t"
proof
  assume "bytes_of s = bytes_of t"
  then have "map (\<lambda>w. char_of (unat (w :: 8 word))) (bytes_of s) = map (\<lambda>w. char_of (unat (w :: 8 word))) (bytes_of t)" by simp
  moreover have "map (\<lambda>w. char_of (unat (w :: 8 word))) (bytes_of s) = s" for s
    by (induction s) (simp_all add: bytes_of_def unat_of_char)
  ultimately show "s = t" by simp
qed simp

section \<open>Properties\<close>

text \<open>
  The puzzle asks for what it says: for a difficulty within the digest, a nonce is valid exactly when
  the first \<open>difficulty\<close> bits of \<open>SHA-256(token:nonce)\<close> are zero.
\<close>

theorem pow_valid_iff_zero_prefix:
  assumes "0 \<le> difficulty" and "difficulty \<le> 256"
  shows "pow_valid token nonce difficulty \<longleftrightarrow>
    list_all Not (take (nat difficulty) (addr_bitstring (sha256 (bytes_of (token @ '':'' @ nonce)))))"
proof -
  let ?b = "addr_bitstring (sha256 (bytes_of (token @ '':'' @ nonce)))"
  have "pow_valid token nonce difficulty \<longleftrightarrow> nat difficulty \<le> length (takeWhile Not ?b)"
    using assms(1) by (simp add: pow_valid_def leading_zero_bits_takeWhile nat_le_iff)
  then show ?thesis using assms(2) by (simp add: takeWhile_ge)
qed

theorem pow_valid_iff_zero_prefix_witness:
  "pow_valid ''t'' ''n'' 0 \<longleftrightarrow> list_all Not (take 0 (addr_bitstring (sha256 (bytes_of (''t'' @ '':'' @ ''n'')))))"
  using pow_valid_iff_zero_prefix [of 0 "''t''" "''n''"] by simp

lemma verify_solved:
  assumes "cm_secret m' = cm_secret m"
    and "pow_valid (rand_hex rand16) (itoa n) (cm_difficulty m)"
    and "time_sub now (of_unix (to_unix t0)) \<le> cm_clearance_ttl m'"
    and "- (2 ^ 63) \<le> to_unix t0" and "to_unix t0 < 2 ^ 63"
    and "- (2 ^ 63) \<le> cm_difficulty m" and "cm_difficulty m < 2 ^ 63"
  shows "verify m' now (solved (cr_page_args (serve m rand16 t0)) n)"
proof -
  let ?parts = "[rand_hex rand16, itoa (to_unix t0), itoa (cm_difficulty m), itoa n,
    sign m (rand_hex rand16) (itoa (to_unix t0)) (itoa (cm_difficulty m))]"
  have "solved (cr_page_args (serve m rand16 t0)) n = join ''.'' ?parts"
    by (simp add: solved_def serve_def Let_def)
  moreover have "split_on (CHR ''.'') (join ''.'' ?parts) = ?parts"
    by (rule split_on_join) (simp_all add: rand_hex_def no_dot_bar sign_def itoa_no_dot)
  moreover have "sign m' = sign m" by (intro ext) (simp add: sign_def assms(1))
  ultimately show ?thesis using assms parse_int_itoa by (simp add: verify_iff)
qed

text \<open>
  A browser that solves the challenge gets through: the cookie built from an issued challenge and a
  nonce of sufficient work is accepted until the lifetime has passed, also after the difficulty and the
  lifetime have been tuned, by any manager with the same secret.
\<close>

theorem solved_challenge_is_accepted:
  assumes "cm_secret m' = cm_secret m"
    and "pow_valid (rand_hex rand16) (itoa n) (cm_difficulty m)"
    and "time_sub now (of_unix (to_unix t0)) \<le> cm_clearance_ttl m'"
    and "- (2 ^ 63) \<le> to_unix t0" and "to_unix t0 < 2 ^ 63"
    and "- (2 ^ 63) \<le> cm_difficulty m" and "cm_difficulty m < 2 ^ 63"
  shows "verify m' now (solved (cr_page_args (serve m rand16 t0)) n)"
  using assms by (rule verify_solved)

theorem solved_challenge_is_accepted_witness:
  "verify (new_chal_manager [] ''secret'' 14 minute) (30 * second)
     (solved (cr_page_args (serve (new_chal_manager [] ''secret'' 0 minute) [7, 8] 0)) 5)"
proof (rule solved_challenge_is_accepted)
  show "pow_valid (rand_hex [7, 8]) (itoa 5) (cm_difficulty (new_chal_manager [] ''secret'' 0 minute))"
    by (simp add: pow_valid_def leading_zero_bits_takeWhile new_chal_manager_def chal_set_params_def)
qed (simp_all add: new_chal_manager_def chal_set_params_def to_unix_def of_unix_def second_def minute_def
      time_sub_def max_duration_def min_duration_def)



text \<open>A clearance belongs to nobody: the check reads the cookie and nothing else of the request.\<close>

lemma clearance_is_transferable:
  "rq_cookie r clearance_cookie = rq_cookie r' clearance_cookie \<Longrightarrow> has_clearance m now r = has_clearance m now r'"
  by (simp add: has_clearance_def)

end
