(* ===== verification/Rules.thy ===== *)
theory Rules
  imports Config Ratelimit Go_Http
begin

text \<open>
  \<^verbatim>\<open>internal/rules/rules.go\<close>: compilation and matching of the per-route rules. \<open>regex\<close> stands for
  \<open>regexp.Compile\<close>: the match predicate of a pattern, \<open>None\<close> for a pattern that does not compile. The
  limiter a decision points to is named by the position of its rule.
\<close>

section \<open>The code\<close>

datatype action = ActionDefault | ActionAllow | ActionBlock | ActionChallenge

definition parse_action :: "string \<Rightarrow> action" where
  "parse_action s =
     (if s = ''allow'' then ActionAllow else if s = ''block'' then ActionBlock
      else if s = ''challenge'' then ActionChallenge else ActionDefault)"

record compiled =
  rc_name :: string
  rc_prefix :: string
  rc_re :: "(string \<Rightarrow> bool) option"
  rc_methods :: "string set option"
  rc_action :: action
  rc_limiter :: "per_ip option"

record decision =
  de_name :: string
  de_action :: action
  de_limiter :: "nat option"

definition no_decision :: decision where
  "no_decision = \<lparr>de_name = [], de_action = ActionDefault, de_limiter = None\<rparr>"

definition compile_rule :: "(string \<Rightarrow> (string \<Rightarrow> bool) option) \<Rightarrow> int \<Rightarrow> rule_config \<Rightarrow> compiled option" where
  "compile_rule regex max_keys r =
     (let methods = (if 0 < length (ru_methods r) then Some (to_upper ` set (ru_methods r)) else None);
          limiter =
            (if 0 < ru_per_ip_rps r then
               let burst = ru_per_ip_burst r;
                   burst = (if burst \<le> 0 then fl (ru_per_ip_rps r * 2) else burst)
               in Some (new_per_ip (ru_per_ip_rps r) burst max_keys)
             else None);
          c = (\<lambda>re. \<lparr>rc_name = ru_name r, rc_prefix = ru_path_prefix r, rc_re = re, rc_methods = methods,
                 rc_action = parse_action (ru_action r), rc_limiter = limiter\<rparr>)
      in if ru_path_regex r \<noteq> [] then map_option (\<lambda>re. c (Some re)) (regex (ru_path_regex r)) else Some (c None))"

text \<open>The error is the position and the name of the first rule whose pattern does not compile.\<close>

fun compile_from :: "(string \<Rightarrow> (string \<Rightarrow> bool) option) \<Rightarrow> int \<Rightarrow> nat \<Rightarrow> rule_config list \<Rightarrow> nat \<times> string + compiled list" where
  "compile_from regex max_keys i [] = Inr []"
| "compile_from regex max_keys i (r # rs) =
     (case compile_rule regex max_keys r of
        None \<Rightarrow> Inl (i, ru_name r)
      | Some c \<Rightarrow> (case compile_from regex max_keys (i + 1) rs of Inl e \<Rightarrow> Inl e | Inr cs \<Rightarrow> Inr (c # cs)))"

definition compile_rules :: "(string \<Rightarrow> (string \<Rightarrow> bool) option) \<Rightarrow> rule_config list \<Rightarrow> int \<Rightarrow> nat \<times> string + compiled list" where
  "compile_rules regex rs max_keys = compile_from regex max_keys 0 rs"

definition skips :: "compiled \<Rightarrow> string \<Rightarrow> string \<Rightarrow> bool" where
  "skips c meth path \<longleftrightarrow>
     (rc_prefix c \<noteq> [] \<and> \<not> has_prefix path (rc_prefix c)) \<or>
     (case rc_re c of Some re \<Rightarrow> \<not> re path | None \<Rightarrow> False) \<or>
     (case rc_methods c of Some ms \<Rightarrow> to_upper meth \<notin> ms | None \<Rightarrow> False)"

fun match_from :: "nat \<Rightarrow> compiled list \<Rightarrow> string \<Rightarrow> string \<Rightarrow> decision" where
  "match_from i [] meth path = no_decision"
| "match_from i (c # cs) meth path =
     (if skips c meth path then match_from (i + 1) cs meth path
      else \<lparr>de_name = rc_name c, de_action = rc_action c,
            de_limiter = (if rc_limiter c = None then None else Some i)\<rparr>)"

definition match_rules :: "compiled list \<Rightarrow> http_request \<Rightarrow> decision" where
  "match_rules rs r = match_from 0 rs (rq_method r) (rq_path r)"

definition close_rules :: "compiled list \<Rightarrow> compiled list" where
  "close_rules rs = map (\<lambda>c. c\<lparr>rc_limiter := map_option per_ip_close (rc_limiter c)\<rparr>) rs"

section \<open>What a rule of the configuration means\<close>

definition rule_applies :: "(string \<Rightarrow> (string \<Rightarrow> bool) option) \<Rightarrow> rule_config \<Rightarrow> http_request \<Rightarrow> bool" where
  "rule_applies regex r q \<longleftrightarrow>
     (\<exists>rest. rq_path q = ru_path_prefix r @ rest) \<and>
     (ru_path_regex r = [] \<or> (\<exists>re. regex (ru_path_regex r) = Some re \<and> re (rq_path q))) \<and>
     (ru_methods r = [] \<or> (\<exists>m\<in>set (ru_methods r). to_upper m = to_upper (rq_method q)))"

lemma compile_rule_fields:
  assumes "compile_rule regex mk r = Some c"
  shows "rc_name c = ru_name r" "rc_action c = parse_action (ru_action r)" "rc_prefix c = ru_path_prefix r"
    "rc_limiter c = None \<longleftrightarrow> \<not> 0 < ru_per_ip_rps r"
    "rc_methods c = (if ru_methods r = [] then None else Some (to_upper ` set (ru_methods r)))"
    "if ru_path_regex r = [] then rc_re c = None else \<exists>re. regex (ru_path_regex r) = Some re \<and> rc_re c = Some re"
  using assms unfolding compile_rule_def Let_def by (cases "ru_path_regex r = []"; auto)+

lemma compile_rule_skips:
  assumes "compile_rule regex mk r = Some c"
  shows "skips c (rq_method q) (rq_path q) \<longleftrightarrow> \<not> rule_applies regex r q"
proof -
  have 1: "(rc_prefix c \<noteq> [] \<and> \<not> has_prefix (rq_path q) (rc_prefix c)) \<longleftrightarrow> \<not> (\<exists>rest. rq_path q = ru_path_prefix r @ rest)"
    by (cases "ru_path_prefix r = []") (simp_all add: compile_rule_fields [OF assms] has_prefix_iff)
  have 2: "(case rc_re c of Some re \<Rightarrow> \<not> re (rq_path q) | None \<Rightarrow> False) \<longleftrightarrow>
    \<not> (ru_path_regex r = [] \<or> (\<exists>re. regex (ru_path_regex r) = Some re \<and> re (rq_path q)))"
    using compile_rule_fields(6) [OF assms] by (cases "ru_path_regex r = []") auto
  have 3: "(case rc_methods c of Some ms \<Rightarrow> to_upper (rq_method q) \<notin> ms | None \<Rightarrow> False) \<longleftrightarrow>
    \<not> (ru_methods r = [] \<or> (\<exists>m\<in>set (ru_methods r). to_upper m = to_upper (rq_method q)))"
    using compile_rule_fields(5) [OF assms] by (cases "ru_methods r = []") (auto simp: image_iff)
  show ?thesis unfolding skips_def rule_applies_def 1 2 3 by blast
qed

text \<open>The declarative meaning of a rule list: the first rule that applies.\<close>

fun first_rule :: "(string \<Rightarrow> (string \<Rightarrow> bool) option) \<Rightarrow> nat \<Rightarrow> rule_config list \<Rightarrow> http_request \<Rightarrow> decision" where
  "first_rule regex i [] q = no_decision"
| "first_rule regex i (r # rs) q =
     (if rule_applies regex r q
      then \<lparr>de_name = ru_name r, de_action = parse_action (ru_action r),
            de_limiter = (if 0 < ru_per_ip_rps r then Some i else None)\<rparr>
      else first_rule regex (i + 1) rs q)"

lemma compile_from_match:
  "compile_from regex mk j rs = Inr cs \<Longrightarrow> match_from i cs (rq_method q) (rq_path q) = first_rule regex i rs q"
proof (induction rs arbitrary: i j cs)
  case (Cons r rs)
  then obtain c cs' where c: "compile_rule regex mk r = Some c" "compile_from regex mk (j + 1) rs = Inr cs'" "cs = c # cs'"
    by (auto split: option.splits sum.splits)
  show ?case using compile_rule_skips [OF c(1), of q] compile_rule_fields [OF c(1)] Cons.IH [OF c(2)]
    by (simp add: c(3))
qed simp

section \<open>Properties\<close>

text \<open>
  C26. Compiled rules mean what the configuration says: a request is decided by the first rule, in the
  order of the file, whose path prefix, pattern and methods (in any case) it satisfies, with that rule's
  action, and with a limiter of its own exactly when the rule sets a rate.
\<close>

theorem compiled_rules_decide_by_first_match:
  assumes "compile_rules regex rs mk = Inr cs"
  shows "match_rules cs q = first_rule regex 0 rs q"
  using assms compile_from_match by (simp add: compile_rules_def match_rules_def)

theorem compiled_rules_decide_by_first_match_witness:
  "match_rules
     [\<lparr>rc_name = ''login'', rc_prefix = ''/login'', rc_re = None, rc_methods = Some {''POST''},
       rc_action = ActionChallenge, rc_limiter = None\<rparr>]
     (blank_request\<lparr>rq_path := ''/login/x'', rq_method := ''post''\<rparr>) =
   first_rule (\<lambda>_. None) 0
     [\<lparr>ru_name = ''login'', ru_path_prefix = ''/login'', ru_path_regex = [], ru_methods = [''post''],
       ru_action = ''challenge'', ru_per_ip_rps = 0, ru_per_ip_burst = 0\<rparr>]
     (blank_request\<lparr>rq_path := ''/login/x'', rq_method := ''post''\<rparr>)"
proof (rule compiled_rules_decide_by_first_match)
  have "to_upper ''post'' = ''POST''" by code_simp
  then show "compile_rules (\<lambda>_. None)
     [\<lparr>ru_name = ''login'', ru_path_prefix = ''/login'', ru_path_regex = [], ru_methods = [''post''],
       ru_action = ''challenge'', ru_per_ip_rps = 0, ru_per_ip_burst = 0\<rparr>] 0 =
    Inr [\<lparr>rc_name = ''login'', rc_prefix = ''/login'', rc_re = None, rc_methods = Some {''POST''},
       rc_action = ActionChallenge, rc_limiter = None\<rparr>]"
    by (simp add: compile_rules_def compile_rule_def parse_action_def)
qed

text \<open>Compilation fails exactly on a pattern that does not compile.\<close>

lemma compile_from_fails:
  "(\<exists>e. compile_from regex mk i rs = Inl e) \<longleftrightarrow> (\<exists>r\<in>set rs. ru_path_regex r \<noteq> [] \<and> regex (ru_path_regex r) = None)"
proof (induction rs arbitrary: i)
  case (Cons r rs)
  have "compile_rule regex mk r = None \<longleftrightarrow> ru_path_regex r \<noteq> [] \<and> regex (ru_path_regex r) = None"
    by (simp add: compile_rule_def Let_def)
  then show ?case using Cons [of "i + 1"] by (auto split: option.splits sum.splits)
qed simp

end
