(* ===== verification/Policy.thy ===== *)
theory Policy
  imports Rules Netutil
begin

text \<open>
  \<^verbatim>\<open>internal/policy/policy.go\<close>: the snapshot of the policy a request is decided under. \<open>now\<close> is the clock
  reading of \<open>NewGlobal\<close>.
\<close>

record snapshot =
  ps_trusted :: "ipnet list"
  ps_deny_nets :: "ipnet list"
  ps_bad_uas :: "string list"
  ps_default_per_ip :: per_ip
  ps_global :: global_limiter
  ps_rules :: "compiled list"
  ps_challenge_enabled :: bool
  ps_challenge_always :: bool
  ps_challenge_non_browser :: bool
  ps_pressure_threshold :: real
  ps_dry_run :: bool
  ps_max_body_bytes :: int
  ps_block_status :: int
  ps_block_message :: string
  ps_tarpit_enabled :: bool
  ps_tarpit_delay :: duration
  ps_fingerprint_enabled :: bool
  ps_fingerprint_block :: "string set"

text \<open>The keys of \<open>fpBlock\<close>.\<close>

definition fp_block :: "string list \<Rightarrow> string set" where
  "fp_block fs = {f. \<exists>x\<in>set fs. f = trim_space x \<and> f \<noteq> []}"

definition build_snapshot :: "(string \<Rightarrow> (string \<Rightarrow> bool) option) \<Rightarrow> time \<Rightarrow> config \<Rightarrow> nat \<times> string + snapshot" where
  "build_snapshot regex now c =
     (case compile_rules regex (cf_rules c) (ba_max_entries (cf_ban c)) of
        Inl e \<Rightarrow> Inl e
      | Inr rs \<Rightarrow> Inr
          \<lparr>ps_trusted = parse_cidrs (cf_trusted_proxies c),
           ps_deny_nets = parse_cidrs (cf_denylist c),
           ps_bad_uas = map to_lower (cf_bad_user_agents c),
           ps_default_per_ip = new_per_ip (rl_per_ip_rps (cf_rate_limit c)) (rl_per_ip_burst (cf_rate_limit c))
             (ba_max_entries (cf_ban c)),
           ps_global = new_global now (rl_global_rps (cf_rate_limit c)) (rl_global_burst (cf_rate_limit c)),
           ps_rules = rs,
           ps_challenge_enabled = ch_enabled (cf_challenge c),
           ps_challenge_always = (ch_mode (cf_challenge c) = ''always''),
           ps_challenge_non_browser = ch_challenge_non_browser (cf_challenge c),
           ps_pressure_threshold = ch_pressure_threshold (cf_challenge c),
           ps_dry_run = cf_dry_run c,
           ps_max_body_bytes = co_max_body_bytes (cf_connection c),
           ps_block_status = bc_status (cf_block c),
           ps_block_message = bc_message (cf_block c),
           ps_tarpit_enabled = tp_enabled (cf_tarpit c),
           ps_tarpit_delay = tp_delay (cf_tarpit c),
           ps_fingerprint_enabled = fc_enabled (cf_fingerprint c),
           ps_fingerprint_block = fp_block (fc_block (cf_fingerprint c))\<rparr>)"

definition close_snapshot :: "snapshot \<Rightarrow> snapshot" where
  "close_snapshot s =
     s\<lparr>ps_default_per_ip := per_ip_close (ps_default_per_ip s), ps_rules := close_rules (ps_rules s)\<rparr>"

lemma fp_block_code [code]: "fp_block fs = set (filter (\<lambda>f. f \<noteq> []) (map trim_space fs))"
  by (auto simp: fp_block_def)

end
