(* ===== verification/Guard.thy ===== *)
theory Guard
  imports Policy Banlist Connlimit Challenge Metrics
begin

text \<open>
  \<^verbatim>\<open>internal/guard/guard.go\<close>: the request pipeline over the components. One request is the function
  \<open>guard_enter\<close>, from the first line of the handler to the decision, followed by \<open>guard_exit\<close> when the
  response is complete (the deferred release of the connection slot, the tarpit slot). The stages of the
  handler are functions that stop with an outcome or pass the state on; \<open>after\<close> composes them.
  \<open>guard_env\<close> is what the environment gives to one request: the clock readings, the orders of the map
  ranges, the random bytes.
\<close>

section \<open>The state\<close>

record guard =
  gd_bans :: store
  gd_chal :: "chal_manager option"
  gd_conns :: conn_limiter
  gd_metrics :: metrics
  gd_snap :: snapshot
  gd_license_enforced :: bool
  gd_licensed :: bool
  gd_tarpit_used :: int
  gd_tarpit_max :: int

definition new_guard :: "store \<Rightarrow> chal_manager option \<Rightarrow> conn_limiter \<Rightarrow> metrics \<Rightarrow> int \<Rightarrow> snapshot \<Rightarrow> guard" where
  "new_guard bans chal conns mx tarpit_max snap =
     \<lparr>gd_bans = bans, gd_chal = chal, gd_conns = conns, gd_metrics = mx, gd_snap = snap,
      gd_license_enforced = False, gd_licensed = False, gd_tarpit_used = 0,
      gd_tarpit_max = (if tarpit_max \<le> 0 then 4096 else tarpit_max)\<rparr>"

text \<open>\<open>Reload\<close>: the error of a bad pattern, or the guard under the new policy.\<close>

definition guard_reload :: "(string \<Rightarrow> (string \<Rightarrow> bool) option) \<Rightarrow> time \<Rightarrow> config \<Rightarrow> guard \<Rightarrow> (nat \<times> string) option \<times> guard" where
  "guard_reload regex now cfg g =
     (case build_snapshot regex now cfg of
        Inl e \<Rightarrow> (Some e, g)
      | Inr snap \<Rightarrow>
          let b = set_allowlist (cf_allowlist cfg) (gd_bans g);
              b = set_params (ba_base_duration (cf_ban cfg)) (ba_max_duration (cf_ban cfg))
                    (ba_escalation_factor (cf_ban cfg)) (ba_max_entries (cf_ban cfg)) b;
              l = set_max (co_max_per_ip (cf_connection cfg)) (gd_conns g);
              m = map_option (chal_set_params (ch_difficulty_bits (cf_challenge cfg)) (ch_clearance_ttl (cf_challenge cfg))) (gd_chal g)
          in (None, g\<lparr>gd_bans := b, gd_conns := l, gd_chal := m, gd_snap := snap\<rparr>))"

definition enforce_license :: "guard \<Rightarrow> guard" where
  "enforce_license g = g\<lparr>gd_license_enforced := True\<rparr>"

definition set_licensed :: "bool \<Rightarrow> guard \<Rightarrow> guard" where
  "set_licensed ok g = g\<lparr>gd_licensed := ok\<rparr>"

text \<open>
  \<open>SetChallengeMode\<close> loads the snapshot, changes a copy and stores it: two steps other calls can come
  between.
\<close>

definition challenge_mode_load :: "guard \<Rightarrow> snapshot" where
  "challenge_mode_load g = gd_snap g"

definition challenge_mode_store :: "bool \<Rightarrow> snapshot \<Rightarrow> guard \<Rightarrow> guard" where
  "challenge_mode_store always old g =
     g\<lparr>gd_snap := old\<lparr>ps_challenge_always := always, ps_challenge_enabled := True\<rparr>\<rparr>"

definition set_challenge_mode :: "bool \<Rightarrow> guard \<Rightarrow> guard" where
  "set_challenge_mode always g = challenge_mode_store always (challenge_mode_load g) g"

section \<open>The pipeline\<close>

record guard_env =
  ge_now_clear :: time
  ge_now_banned :: time
  ge_now_remaining :: time
  ge_rand16 :: "byte list"
  ge_now_serve :: time
  ge_now_global :: time
  ge_now_ip :: time
  ge_ord_ip :: "string list"
  ge_now_ban :: time
  ge_ord_ban :: "string list"
  ge_oor :: int

text \<open>
  What the client or the upstream sees. \<open>Served\<close> carries the request handed to the upstream, the limit on
  its body and whether it holds a connection slot; \<open>Blocked\<close> carries the response and whether it holds a
  tarpit slot.
\<close>

datatype outcome =
  Unlicensed
| Served http_request "int option" bool
| Blocked int string bool
| Challenged chal_response
| Busy
| TooMany
| ConnCap

definition enforce :: "snapshot \<Rightarrow> guard \<Rightarrow> bool \<times> guard" where
  "enforce s g =
     (if ps_dry_run s
      then (False, g\<lparr>gd_metrics := (gd_metrics g)\<lparr>mt_would_block := add1 (mt_would_block (gd_metrics g))\<rparr>\<rparr>)
      else (True, g))"

definition accepts_html :: "http_request \<Rightarrow> bool" where
  "accepts_html r = contains (rq_header r ''Accept'') ''text/html''"

definition block :: "snapshot \<Rightarrow> guard \<Rightarrow> outcome \<times> guard" where
  "block s g =
     (if ps_tarpit_enabled s \<and> 0 < ps_tarpit_delay s \<and> gd_tarpit_used g < gd_tarpit_max g
      then (Blocked (ps_block_status s) (ps_block_message s) True,
            g\<lparr>gd_tarpit_used := gd_tarpit_used g + 1,
              gd_metrics := (gd_metrics g)\<lparr>mt_tarpitted := add1 (mt_tarpitted (gd_metrics g))\<rparr>\<rparr>)
      else (Blocked (ps_block_status s) (ps_block_message s) False, g))"

definition serve_request :: "snapshot \<Rightarrow> http_request \<Rightarrow> bool \<Rightarrow> outcome" where
  "serve_request s r slot =
     Served r (if 0 < ps_max_body_bytes s \<and> rq_has_body r then Some (ps_max_body_bytes s) else None) slot"

type_synonym stage = "guard \<Rightarrow> outcome \<times> guard + guard"

definition after :: "stage \<Rightarrow> stage \<Rightarrow> stage" where
  "after f h g = (case f g of Inl res \<Rightarrow> Inl res | Inr g' \<Rightarrow> h g')"

text \<open>\<open>if g.enforce(...) { ...; g.block(...); return }\<close>, with the counter in between.\<close>

definition deny :: "snapshot \<Rightarrow> (metrics \<Rightarrow> metrics) \<Rightarrow> stage" where
  "deny s bump g =
     (case enforce s g of
        (True, g) \<Rightarrow> Inl (block s (g\<lparr>gd_metrics := bump (gd_metrics g)\<rparr>))
      | (False, g) \<Rightarrow> Inr g)"

definition st_denylist :: "snapshot \<Rightarrow> string \<Rightarrow> stage" where
  "st_denylist s ip g = (if net_contains (ps_deny_nets s) ip then deny s id g else Inr g)"

definition st_fingerprint :: "snapshot \<Rightarrow> http_request \<Rightarrow> stage" where
  "st_fingerprint s r g =
     (if ps_fingerprint_enabled s \<and> ps_fingerprint_block s \<noteq> {} then
        (case rq_fingerprint r of
           None \<Rightarrow> Inr g
         | Some (ja3, ja4) \<Rightarrow>
             if ja3 \<in> ps_fingerprint_block s \<or> ja4 \<in> ps_fingerprint_block s
             then deny s (\<lambda>m. m\<lparr>mt_fp_blocked := add1 (mt_fp_blocked m)\<rparr>) g else Inr g)
      else Inr g)"

definition st_rule :: "snapshot \<Rightarrow> decision \<Rightarrow> http_request \<Rightarrow> stage" where
  "st_rule s d r g =
     (case de_action d of
        ActionAllow \<Rightarrow> Inl (serve_request s r False, g)
      | ActionBlock \<Rightarrow> deny s id g
      | _ \<Rightarrow> Inr g)"

definition st_banned :: "guard_env \<Rightarrow> snapshot \<Rightarrow> string \<Rightarrow> stage" where
  "st_banned env s ip g =
     (if is_banned (gd_bans g) ip (ge_now_banned env)
      then deny s (\<lambda>m. m\<lparr>mt_blocked_banned := add1 (mt_blocked_banned m)\<rparr>) g else Inr g)"

definition bad_ua :: "snapshot \<Rightarrow> http_request \<Rightarrow> bool" where
  "bad_ua s r \<longleftrightarrow> (\<exists>bad\<in>set (ps_bad_uas s). bad \<noteq> [] \<and> contains (to_lower (rq_header r ''User-Agent'')) bad)"

definition st_bad_ua :: "snapshot \<Rightarrow> http_request \<Rightarrow> stage" where
  "st_bad_ua s r g = (if bad_ua s r then deny s id g else Inr g)"

text \<open>\<open>s.Global.Remaining() < s.PressureThreshold\<close>, evaluated only in adaptive mode.\<close>

definition auto_challenge :: "guard_env \<Rightarrow> snapshot \<Rightarrow> guard \<Rightarrow> bool \<times> guard" where
  "auto_challenge env s g =
     (if ps_challenge_enabled s then
        if ps_challenge_always s then (True, g)
        else
          let (rem, gl) = global_remaining (ge_now_remaining env) (ps_global (gd_snap g))
          in (rem < ps_pressure_threshold s, g\<lparr>gd_snap := (gd_snap g)\<lparr>ps_global := gl\<rparr>\<rparr>)
      else (False, g))"

definition st_challenge :: "guard_env \<Rightarrow> snapshot \<Rightarrow> decision \<Rightarrow> http_request \<Rightarrow> stage" where
  "st_challenge env s d r g =
     (case gd_chal g of
        None \<Rightarrow> Inr g
      | Some m \<Rightarrow>
          if has_clearance m (ge_now_clear env) r then Inr g
          else
            let force = (de_action d = ActionChallenge);
                (auto, g) = auto_challenge env s g;
                browser_ok = (force \<or> ps_challenge_non_browser s \<or> accepts_html r)
            in if (force \<or> auto) \<and> browser_ok then
                 (let g = g\<lparr>gd_metrics := (gd_metrics g)\<lparr>mt_challenged := add1 (mt_challenged (gd_metrics g))\<rparr>\<rparr>
                  in (case enforce s g of
                       (True, g) \<Rightarrow> Inl (Challenged (serve m (ge_rand16 env) (ge_now_serve env)), g)
                     | (False, g) \<Rightarrow> Inr g))
               else Inr g)"

definition st_global :: "guard_env \<Rightarrow> snapshot \<Rightarrow> stage" where
  "st_global env s g =
     (let (ok, gl) = global_allow (ge_now_global env) (ps_global (gd_snap g));
          g = g\<lparr>gd_snap := (gd_snap g)\<lparr>ps_global := gl\<rparr>\<rparr>
      in if ok then Inr g
         else
           let g = g\<lparr>gd_metrics := (gd_metrics g)\<lparr>mt_rate_limited_gl := add1 (mt_rate_limited_gl (gd_metrics g))\<rparr>\<rparr>
           in (case enforce s g of (True, g) \<Rightarrow> Inl (Busy, g) | (False, g) \<Rightarrow> Inr g))"

text \<open>\<open>limiter.Allow(ip)\<close> on the limiter of the matched rule or the default one.\<close>

definition route_allow :: "guard_env \<Rightarrow> decision \<Rightarrow> string \<Rightarrow> snapshot \<Rightarrow> bool \<times> snapshot" where
  "route_allow env d ip s =
     (case de_limiter d of
        None \<Rightarrow>
          (let (ok, p) = per_ip_allow (ge_ord_ip env) (ge_now_ip env) ip (ps_default_per_ip s)
           in (ok, s\<lparr>ps_default_per_ip := p\<rparr>))
      | Some i \<Rightarrow>
          (case rc_limiter (ps_rules s ! i) of
             None \<Rightarrow> (True, s)
           | Some p \<Rightarrow>
               let (ok, p) = per_ip_allow (ge_ord_ip env) (ge_now_ip env) ip p
               in (ok, s\<lparr>ps_rules := (ps_rules s)[i := (ps_rules s ! i)\<lparr>rc_limiter := Some p\<rparr>]\<rparr>)))"

definition st_per_ip :: "guard_env \<Rightarrow> snapshot \<Rightarrow> decision \<Rightarrow> string \<Rightarrow> stage" where
  "st_per_ip env s d ip g =
     (let (ok, snap) = route_allow env d ip (gd_snap g);
          g = g\<lparr>gd_snap := snap\<rparr>
      in if ok then Inr g
         else
           let g = g\<lparr>gd_metrics := (gd_metrics g)\<lparr>mt_rate_limited_ip := add1 (mt_rate_limited_ip (gd_metrics g))\<rparr>\<rparr>
           in (case enforce s g of
                (True, g) \<Rightarrow>
                  Inl (TooMany, g\<lparr>gd_bans := snd (ban (ge_oor env) (ge_ord_ban env) (ge_now_ban env) ip (gd_bans g)),
                    gd_metrics := (gd_metrics g)\<lparr>mt_bans_issued := add1 (mt_bans_issued (gd_metrics g))\<rparr>\<rparr>)
              | (False, g) \<Rightarrow> Inr g))"

definition st_conns :: "snapshot \<Rightarrow> string \<Rightarrow> http_request \<Rightarrow> guard \<Rightarrow> outcome \<times> guard" where
  "st_conns s ip r g =
     (let (ok, l) = acquire ip (gd_conns g);
          g = g\<lparr>gd_conns := l\<rparr>;
          admit = (\<lambda>g. (serve_request s r ok, g\<lparr>gd_metrics := (gd_metrics g)\<lparr>mt_allowed := add1 (mt_allowed (gd_metrics g))\<rparr>\<rparr>))
      in if ok then admit g
         else
           let g = g\<lparr>gd_metrics := (gd_metrics g)\<lparr>mt_conn_rejected := add1 (mt_conn_rejected (gd_metrics g))\<rparr>\<rparr>
           in (case enforce s g of (True, g) \<Rightarrow> (ConnCap, g) | (False, g) \<Rightarrow> admit g))"

text \<open>Stages 3 to 9, in the order of the handler.\<close>

definition checks :: "guard_env \<Rightarrow> snapshot \<Rightarrow> string \<Rightarrow> http_request \<Rightarrow> stage" where
  "checks env s ip r =
     (let d = match_rules (ps_rules s) r in
      after (st_denylist s ip)
     (after (st_fingerprint s r)
     (after (st_rule s d r)
     (after (st_banned env s ip)
     (after (st_bad_ua s r)
     (after (st_challenge env s d r)
     (after (st_global env s)
            (st_per_ip env s d ip))))))))"

definition count_total :: "guard \<Rightarrow> guard" where
  "count_total g = g\<lparr>gd_metrics := (gd_metrics g)\<lparr>mt_total := add1 (mt_total (gd_metrics g))\<rparr>\<rparr>"

definition guard_enter :: "guard_env \<Rightarrow> http_request \<Rightarrow> guard \<Rightarrow> outcome \<times> guard" where
  "guard_enter env r g =
     (let s = gd_snap g; g = count_total g
      in if gd_license_enforced g \<and> \<not> gd_licensed g then (Unlicensed, g)
         else
           let ip = client_ip r (ps_trusted s); r = with_client_ip r ip
           in if is_allowed (gd_bans g) ip then (serve_request s r False, g)
              else (case checks env s ip r g of Inl res \<Rightarrow> res | Inr g \<Rightarrow> st_conns s ip r g))"

definition guard_exit :: "string \<Rightarrow> outcome \<Rightarrow> guard \<Rightarrow> guard" where
  "guard_exit ip res g =
     (case res of
        Served r mb True \<Rightarrow> g\<lparr>gd_conns := release ip (gd_conns g)\<rparr>
      | Blocked st msg True \<Rightarrow> g\<lparr>gd_tarpit_used := gd_tarpit_used g - 1\<rparr>
      | _ \<Rightarrow> g)"

section \<open>Stages\<close>

fun is_served :: "outcome \<Rightarrow> bool" where
  "is_served (Served r mb slot) = True"
| "is_served res = False"

lemma after_Inr: "after f h g = Inr g2 \<longleftrightarrow> (\<exists>g1. f g = Inr g1 \<and> h g1 = Inr g2)"
  by (simp add: after_def split: sum.split)

lemma after_Inl: "after f h g = Inl x \<longleftrightarrow> f g = Inl x \<or> (\<exists>g1. f g = Inr g1 \<and> h g1 = Inl x)"
  by (auto simp: after_def split: sum.split)

lemma serve_request_served [simp]: "is_served (serve_request s r slot)"
  by (simp add: serve_request_def)

lemma enforce_eq:
  "enforce s g = (\<not> ps_dry_run s,
     if ps_dry_run s then g\<lparr>gd_metrics := (gd_metrics g)\<lparr>mt_would_block := add1 (mt_would_block (gd_metrics g))\<rparr>\<rparr> else g)"
  by (simp add: enforce_def)

lemma block_not_served [simp]: "\<not> is_served (fst (block s g))"
  by (simp add: block_def)

lemma block_keeps [simp]:
  "gd_bans (snd (block s g)) = gd_bans g" "gd_conns (snd (block s g)) = gd_conns g"
  "gd_snap (snd (block s g)) = gd_snap g" "gd_chal (snd (block s g)) = gd_chal g"
  by (simp_all add: block_def)

lemma deny_Inr: "deny s bump g = Inr g' \<Longrightarrow> ps_dry_run s"
  by (simp add: deny_def enforce_eq split: if_splits)

lemma deny_dry: "ps_dry_run s \<Longrightarrow> deny s bump g = Inr (snd (enforce s g))"
  by (simp add: deny_def enforce_eq)

lemma deny_Inl: "deny s bump g = Inl (res, g') \<Longrightarrow> \<not> is_served res"
  by (auto simp: deny_def enforce_eq block_def split: if_splits)

text \<open>What a stage may change: never the ban table, the connections or the challenge manager.\<close>

definition kept :: "guard \<Rightarrow> guard \<Rightarrow> bool" where
  "kept g g' \<longleftrightarrow> gd_bans g' = gd_bans g \<and> gd_conns g' = gd_conns g \<and> gd_chal g' = gd_chal g \<and>
     ps_default_per_ip (gd_snap g') = ps_default_per_ip (gd_snap g) \<and> ps_rules (gd_snap g') = ps_rules (gd_snap g)"

text \<open>What the per-IP stage does to the limiters, and nothing else.\<close>

definition charged :: "guard_env \<Rightarrow> decision \<Rightarrow> string \<Rightarrow> guard \<Rightarrow> guard \<Rightarrow> bool" where
  "charged env d ip g g' \<longleftrightarrow> kept g g' \<or> (\<exists>h. kept g h \<and> gd_snap g' = snd (route_allow env d ip (gd_snap h)))"

lemma kept_refl [simp]: "kept g g" by (simp add: kept_def)

lemma charged_allow: "gd_snap g' = snd (route_allow env d ip (gd_snap g)) \<Longrightarrow> charged env d ip g g'"
  unfolding charged_def using kept_refl by blast

lemma kept_trans: "kept a b \<Longrightarrow> kept b c \<Longrightarrow> kept a c" by (simp add: kept_def)

lemma kept_metrics [simp]: "kept g (g\<lparr>gd_metrics := m\<rparr>)" by (simp add: kept_def)

lemma kept_enforce [simp]: "kept g (snd (enforce s g))" by (simp add: enforce_eq)

lemma deny_kept: "deny s bump g = Inr g' \<Longrightarrow> kept g g'" "deny s bump g = Inl (res, g') \<Longrightarrow> kept g g'"
  by (auto simp: deny_def enforce_eq kept_def block_def split: if_splits)

lemma auto_challenge_kept: "kept g (snd (auto_challenge env s g))"
  by (simp add: auto_challenge_def kept_def Let_def split: prod.split)

text \<open>The stages up to the challenge, when they pass the request on.\<close>

lemma st_denylist_pass:
  "st_denylist s ip g = Inr g' \<Longrightarrow> kept g g' \<and> (\<not> ps_dry_run s \<longrightarrow> g' = g \<and> \<not> net_contains (ps_deny_nets s) ip)"
  by (auto simp: st_denylist_def deny_kept dest: deny_Inr split: if_splits)

definition fingerprint_blocked :: "snapshot \<Rightarrow> http_request \<Rightarrow> bool" where
  "fingerprint_blocked s r \<longleftrightarrow> ps_fingerprint_enabled s \<and>
     (\<exists>ja3 ja4. rq_fingerprint r = Some (ja3, ja4) \<and> (ja3 \<in> ps_fingerprint_block s \<or> ja4 \<in> ps_fingerprint_block s))"

lemma st_fingerprint_eq:
  "st_fingerprint s r g =
     (if fingerprint_blocked s r then deny s (\<lambda>m. m\<lparr>mt_fp_blocked := add1 (mt_fp_blocked m)\<rparr>) g else Inr g)"
  by (auto simp: st_fingerprint_def fingerprint_blocked_def split: option.splits)

lemma st_fingerprint_pass:
  "st_fingerprint s r g = Inr g' \<Longrightarrow> kept g g' \<and> (\<not> ps_dry_run s \<longrightarrow> g' = g \<and> \<not> fingerprint_blocked s r)"
  by (auto simp: st_fingerprint_eq deny_kept dest: deny_Inr split: if_splits)

lemma st_rule_pass:
  "st_rule s d r g = Inr g' \<Longrightarrow> kept g g' \<and> de_action d \<noteq> ActionAllow \<and>
     (\<not> ps_dry_run s \<longrightarrow> g' = g \<and> de_action d \<noteq> ActionBlock)"
  by (auto simp: st_rule_def deny_kept dest: deny_Inr split: action.splits)

lemma st_banned_pass:
  "st_banned env s ip g = Inr g' \<Longrightarrow> kept g g' \<and>
     (\<not> ps_dry_run s \<longrightarrow> g' = g \<and> \<not> is_banned (gd_bans g) ip (ge_now_banned env))"
  by (auto simp: st_banned_def deny_kept dest: deny_Inr split: if_splits)

lemma st_bad_ua_pass:
  "st_bad_ua s r g = Inr g' \<Longrightarrow> kept g g' \<and> (\<not> ps_dry_run s \<longrightarrow> g' = g \<and> \<not> bad_ua s r)"
  by (auto simp: st_bad_ua_def deny_kept dest: deny_Inr split: if_splits)

definition cleared :: "guard_env \<Rightarrow> guard \<Rightarrow> http_request \<Rightarrow> bool" where
  "cleared env g r \<longleftrightarrow> (\<forall>m. gd_chal g = Some m \<longrightarrow> has_clearance m (ge_now_clear env) r)"

definition challenge_due :: "guard_env \<Rightarrow> snapshot \<Rightarrow> decision \<Rightarrow> http_request \<Rightarrow> guard \<Rightarrow> bool" where
  "challenge_due env s d r g \<longleftrightarrow>
     (de_action d = ActionChallenge \<or> fst (auto_challenge env s g)) \<and>
     (de_action d = ActionChallenge \<or> ps_challenge_non_browser s \<or> accepts_html r)"

lemma st_challenge_pass:
  "st_challenge env s d r g = Inr g' \<Longrightarrow> kept g g' \<and>
     (\<not> ps_dry_run s \<longrightarrow> cleared env g r \<or> \<not> challenge_due env s d r g)"
  using auto_challenge_kept [of g env s]
  by (auto simp: st_challenge_def cleared_def challenge_due_def enforce_eq Let_def case_prod_beta kept_def
      split: option.splits if_splits)

lemma st_challenge_stop:
  "st_challenge env s d r g = Inl (res, g') \<Longrightarrow> \<not> is_served res \<and> kept g g' \<and> \<not> ps_dry_run s"
  using auto_challenge_kept [of g env s]
  by (auto simp: st_challenge_def enforce_eq Let_def case_prod_beta kept_def split: option.splits if_splits)

lemma st_global_pass:
  "st_global env s g = Inr g' \<Longrightarrow> kept g g' \<and>
     (\<not> ps_dry_run s \<longrightarrow> fst (global_allow (ge_now_global env) (ps_global (gd_snap g))))"
  by (auto simp: st_global_def enforce_eq Let_def case_prod_beta kept_def split: if_splits)

lemma st_global_stop: "st_global env s g = Inl (res, g') \<Longrightarrow> \<not> is_served res \<and> kept g g' \<and> \<not> ps_dry_run s"
  by (auto simp: st_global_def enforce_eq Let_def case_prod_beta kept_def split: if_splits)

lemma st_per_ip_pass:
  "st_per_ip env s d ip g = Inr g' \<Longrightarrow> gd_bans g' = gd_bans g \<and> gd_conns g' = gd_conns g \<and>
     gd_snap g' = snd (route_allow env d ip (gd_snap g)) \<and>
     (\<not> ps_dry_run s \<longrightarrow> fst (route_allow env d ip (gd_snap g)))"
  by (auto simp: st_per_ip_def enforce_eq Let_def case_prod_beta split: if_splits)

lemma st_per_ip_stop:
  "st_per_ip env s d ip g = Inl (res, g') \<Longrightarrow> res = TooMany \<and> \<not> ps_dry_run s \<and> gd_conns g' = gd_conns g \<and>
     gd_snap g' = snd (route_allow env d ip (gd_snap g)) \<and>
     gd_bans g' = snd (ban (ge_oor env) (ge_ord_ban env) (ge_now_ban env) ip (gd_bans g))"
  by (auto simp: st_per_ip_def enforce_eq Let_def case_prod_beta split: if_splits)

lemma st_conns_cases:
  "fst (st_conns s ip r g) = (if fst (acquire ip (gd_conns g)) \<or> ps_dry_run s
     then serve_request s r (fst (acquire ip (gd_conns g))) else ConnCap)"
  "gd_conns (snd (st_conns s ip r g)) = snd (acquire ip (gd_conns g))"
  "gd_bans (snd (st_conns s ip r g)) = gd_bans g"
  "gd_snap (snd (st_conns s ip r g)) = gd_snap g"
  by (simp_all add: st_conns_def enforce_eq Let_def case_prod_beta)

section \<open>The whole pipeline\<close>

lemma checks_pass:
  assumes "checks env s ip r g = Inr g'"
  shows "gd_bans g' = gd_bans g \<and> gd_conns g' = gd_conns g \<and> charged env (match_rules (ps_rules s) r) ip g g' \<and>
    de_action (match_rules (ps_rules s) r) \<noteq> ActionAllow \<and>
    (\<not> ps_dry_run s \<longrightarrow>
      \<not> net_contains (ps_deny_nets s) ip \<and> \<not> fingerprint_blocked s r \<and>
      de_action (match_rules (ps_rules s) r) \<noteq> ActionBlock \<and>
      \<not> is_banned (gd_bans g) ip (ge_now_banned env) \<and> \<not> bad_ua s r \<and>
      (cleared env g r \<or> \<not> challenge_due env s (match_rules (ps_rules s) r) r g))"
proof -
  let ?d = "match_rules (ps_rules s) r"
  obtain g1 g2 g3 g4 g5 g6 g7 where
    st: "st_denylist s ip g = Inr g1" "st_fingerprint s r g1 = Inr g2" "st_rule s ?d r g2 = Inr g3"
      "st_banned env s ip g3 = Inr g4" "st_bad_ua s r g4 = Inr g5" "st_challenge env s ?d r g5 = Inr g6"
      "st_global env s g6 = Inr g7" "st_per_ip env s ?d ip g7 = Inr g'"
    using assms by (auto simp: checks_def Let_def after_Inr)
  note p = st_denylist_pass [OF st(1)] st_fingerprint_pass [OF st(2)] st_rule_pass [OF st(3)]
    st_banned_pass [OF st(4)] st_bad_ua_pass [OF st(5)] st_challenge_pass [OF st(6)]
    st_global_pass [OF st(7)] st_per_ip_pass [OF st(8)]
  have "gd_bans g' = gd_bans g" "gd_conns g' = gd_conns g" using p by (simp_all add: kept_def)
  moreover have "kept g g7" using p kept_trans by meson
  then have "charged env ?d ip g g'" using p by (auto simp: charged_def)
  ultimately show ?thesis using p by auto
qed

text \<open>A stage that stops: with a denial, never in dry-run, and without a ban except for the per-IP stage.\<close>

definition denies :: "snapshot \<Rightarrow> guard \<Rightarrow> outcome \<Rightarrow> guard \<Rightarrow> bool" where
  "denies s g res g' \<longleftrightarrow> \<not> is_served res \<and> \<not> ps_dry_run s \<and> res \<noteq> TooMany \<and> kept g g'"

lemma deny_stop: "deny s bump g = Inl (res, g') \<Longrightarrow> denies s g res g'"
  by (auto simp: denies_def deny_def enforce_eq block_def kept_def split: if_splits)

lemma stage_stops:
  "st_denylist s ip g = Inl (res, g') \<Longrightarrow> denies s g res g'"
  "st_fingerprint s r g = Inl (res, g') \<Longrightarrow> denies s g res g'"
  "st_banned env s ip g = Inl (res, g') \<Longrightarrow> denies s g res g'"
  "st_bad_ua s r g = Inl (res, g') \<Longrightarrow> denies s g res g'"
  "st_global env s g = Inl (res, g') \<Longrightarrow> denies s g res g'"
  by (simp_all add: st_denylist_def st_fingerprint_eq st_banned_def st_bad_ua_def deny_stop split: if_splits)
    (auto simp: st_global_def enforce_eq Let_def case_prod_beta kept_def denies_def split: if_splits)

lemma st_challenge_denies: "st_challenge env s d r g = Inl (res, g') \<Longrightarrow> denies s g res g'"
  using st_challenge_stop [of env s d r g res g']
  by (auto simp: denies_def st_challenge_def enforce_eq Let_def case_prod_beta split: option.splits if_splits)

lemma st_rule_stop:
  "st_rule s d r g = Inl (res, g') \<Longrightarrow>
   (de_action d = ActionAllow \<and> res = serve_request s r False \<and> g' = g) \<or> denies s g res g'"
  by (auto simp: st_rule_def deny_stop split: action.splits)

definition stopped_ok :: "guard_env \<Rightarrow> snapshot \<Rightarrow> string \<Rightarrow> http_request \<Rightarrow> guard \<Rightarrow> outcome \<Rightarrow> guard \<Rightarrow> bool" where
  "stopped_ok env s ip r g res g' \<longleftrightarrow>
     (is_served res \<longrightarrow> de_action (match_rules (ps_rules s) r) = ActionAllow \<and> res = serve_request s r False \<and>
       (\<not> ps_dry_run s \<longrightarrow> \<not> net_contains (ps_deny_nets s) ip \<and> \<not> fingerprint_blocked s r)) \<and>
     (\<not> is_served res \<longrightarrow> \<not> ps_dry_run s) \<and>
     gd_conns g' = gd_conns g \<and> charged env (match_rules (ps_rules s) r) ip g g' \<and>
     gd_bans g' = (if res = TooMany then snd (ban (ge_oor env) (ge_ord_ban env) (ge_now_ban env) ip (gd_bans g)) else gd_bans g)"

lemma denies_stopped_ok: "denies s g res g' \<Longrightarrow> stopped_ok env s ip r g res g'"
  by (simp add: stopped_ok_def denies_def charged_def) (simp add: kept_def)

lemma charged_kept: "kept g g1 \<Longrightarrow> charged env d ip g1 g' \<Longrightarrow> charged env d ip g g'"
  unfolding charged_def using kept_trans by blast

lemma stopped_ok_kept: "kept g g1 \<Longrightarrow> stopped_ok env s ip r g1 res g' \<Longrightarrow> stopped_ok env s ip r g res g'"
  using charged_kept [of g g1 env "match_rules (ps_rules s) r" ip g'] by (auto simp: stopped_ok_def kept_def)

lemma after_stopped_ok:
  assumes "after f h g = Inl (res, g')"
    and "f g = Inl (res, g') \<Longrightarrow> stopped_ok env s ip r g res g'"
    and "\<And>g1. f g = Inr g1 \<Longrightarrow> kept g g1"
    and "\<And>g1. f g = Inr g1 \<Longrightarrow> h g1 = Inl (res, g') \<Longrightarrow> stopped_ok env s ip r g1 res g'"
  shows "stopped_ok env s ip r g res g'"
  using assms unfolding after_Inl by (blast intro: stopped_ok_kept)

lemma late_stopped_ok:
  assumes d: "d = match_rules (ps_rules s) r" and "after (st_banned env s ip) (after (st_bad_ua s r) (after (st_challenge env s d r)
    (after (st_global env s) (st_per_ip env s d ip)))) g = Inl (res, g')"
  shows "stopped_ok env s ip r g res g'"
  using assms(2)
proof (rule after_stopped_ok)
  fix g1 assume "after (st_bad_ua s r) (after (st_challenge env s d r) (after (st_global env s) (st_per_ip env s d ip))) g1 = Inl (res, g')"
  then show "stopped_ok env s ip r g1 res g'"
  proof (rule after_stopped_ok)
    fix g2 assume "after (st_challenge env s d r) (after (st_global env s) (st_per_ip env s d ip)) g2 = Inl (res, g')"
    then show "stopped_ok env s ip r g2 res g'"
    proof (rule after_stopped_ok)
      fix g3 assume "after (st_global env s) (st_per_ip env s d ip) g3 = Inl (res, g')"
      then show "stopped_ok env s ip r g3 res g'"
      proof (rule after_stopped_ok)
        fix g4 assume "st_per_ip env s d ip g4 = Inl (res, g')"
        from st_per_ip_stop [OF this] show "stopped_ok env s ip r g4 res g'"
          by (simp add: stopped_ok_def charged_allow d)
      qed (auto intro: denies_stopped_ok dest: stage_stops st_global_pass)
    qed (auto intro: denies_stopped_ok dest: st_challenge_denies st_challenge_pass)
  qed (auto intro: denies_stopped_ok dest: stage_stops st_bad_ua_pass)
qed (auto intro: denies_stopped_ok dest: stage_stops st_banned_pass)

lemma checks_stop:
  assumes "checks env s ip r g = Inl (res, g')"
  shows "stopped_ok env s ip r g res g'"
proof -
  let ?d = "match_rules (ps_rules s) r"
  consider "st_denylist s ip g = Inl (res, g')"
    | g1 where "st_denylist s ip g = Inr g1" "st_fingerprint s r g1 = Inl (res, g')"
    | g1 g2 where "st_denylist s ip g = Inr g1" "st_fingerprint s r g1 = Inr g2" "st_rule s ?d r g2 = Inl (res, g')"
    | g1 g2 g3 where "st_denylist s ip g = Inr g1" "st_fingerprint s r g1 = Inr g2" "st_rule s ?d r g2 = Inr g3"
      "after (st_banned env s ip) (after (st_bad_ua s r) (after (st_challenge env s ?d r)
        (after (st_global env s) (st_per_ip env s ?d ip)))) g3 = Inl (res, g')"
    using assms unfolding checks_def Let_def after_Inl [of "st_denylist s ip"] after_Inl [of "st_fingerprint s r"]
      after_Inl [of "st_rule s ?d r"] by (elim disjE exE conjE) simp_all
  then show ?thesis
  proof cases
    case 1
    then show ?thesis by (intro denies_stopped_ok stage_stops)
  next
    case 2
    then show ?thesis using st_denylist_pass [OF 2(1)] stage_stops(2) [OF 2(2)]
      by (blast intro: stopped_ok_kept denies_stopped_ok)
  next
    case 3
    have k: "kept g g2" using st_denylist_pass [OF 3(1)] st_fingerprint_pass [OF 3(2)] kept_trans by blast
    from st_rule_stop [OF 3(3)] show ?thesis
    proof
      assume "de_action ?d = ActionAllow \<and> res = serve_request s r False \<and> g' = g2"
      then show ?thesis using k st_denylist_pass [OF 3(1)] st_fingerprint_pass [OF 3(2)]
        by (auto simp: stopped_ok_def charged_def serve_request_def) (simp_all add: kept_def)
    qed (use k in \<open>blast intro: stopped_ok_kept denies_stopped_ok\<close>)
  next
    case 4
    have "kept g g3" using st_denylist_pass [OF 4(1)] st_fingerprint_pass [OF 4(2)] st_rule_pass [OF 4(3)] kept_trans by blast
    then show ?thesis using late_stopped_ok [OF refl 4(4)] by (rule stopped_ok_kept)
  qed
qed

lemma count_total_keeps [simp]:
  "gd_bans (count_total g) = gd_bans g" "gd_conns (count_total g) = gd_conns g" "gd_snap (count_total g) = gd_snap g"
  "gd_chal (count_total g) = gd_chal g" "gd_license_enforced (count_total g) = gd_license_enforced g"
  "gd_licensed (count_total g) = gd_licensed g"
  by (simp_all add: count_total_def)

lemma cleared_count_total [simp]: "cleared env (count_total g) r = cleared env g r"
  by (simp add: cleared_def)

lemma challenge_due_count_total [simp]: "challenge_due env s d r (count_total g) = challenge_due env s d r g"
  by (simp add: challenge_due_def auto_challenge_def Let_def split: prod.split)

text \<open>The address and the request a decision is about.\<close>

definition req_ip :: "http_request \<Rightarrow> guard \<Rightarrow> string" where
  "req_ip r g = client_ip r (ps_trusted (gd_snap g))"

definition req_of :: "http_request \<Rightarrow> guard \<Rightarrow> http_request" where
  "req_of r g = with_client_ip r (req_ip r g)"

definition rule_of :: "http_request \<Rightarrow> guard \<Rightarrow> decision" where
  "rule_of r g = match_rules (ps_rules (gd_snap g)) (req_of r g)"

definition gate_open :: "guard \<Rightarrow> bool" where
  "gate_open g \<longleftrightarrow> gd_license_enforced g \<longrightarrow> gd_licensed g"

lemma guard_enter_eq:
  "guard_enter env r g =
     (if \<not> gate_open g then (Unlicensed, count_total g)
      else if is_allowed (gd_bans g) (req_ip r g) then (serve_request (gd_snap g) (req_of r g) False, count_total g)
      else case checks env (gd_snap g) (req_ip r g) (req_of r g) (count_total g) of
             Inl res \<Rightarrow> res | Inr g' \<Rightarrow> st_conns (gd_snap g) (req_ip r g) (req_of r g) g')"
  unfolding guard_enter_def Let_def gate_open_def req_ip_def req_of_def by (simp split: if_split)

text \<open>A small concrete guard: one policy without rules, a per-IP burst, dry-run or not.\<close>

definition example_env :: guard_env where
  "example_env = \<lparr>ge_now_clear = 0, ge_now_banned = 0, ge_now_remaining = 0, ge_rand16 = [], ge_now_serve = 0,
     ge_now_global = 0, ge_now_ip = 0, ge_ord_ip = [], ge_now_ban = 0, ge_ord_ban = [], ge_oor = 0\<rparr>"

definition example_request :: http_request where
  "example_request = blank_request\<lparr>rq_remote_addr := ''203.0.113.7:4711''\<rparr>"

definition example_snapshot :: "bool \<Rightarrow> real \<Rightarrow> snapshot" where
  "example_snapshot dry burst =
     \<lparr>ps_trusted = [], ps_deny_nets = [], ps_bad_uas = [], ps_default_per_ip = new_per_ip 1 burst 100,
      ps_global = new_global 0 1 1, ps_rules = [], ps_challenge_enabled = False, ps_challenge_always = False,
      ps_challenge_non_browser = False, ps_pressure_threshold = 0, ps_dry_run = dry, ps_max_body_bytes = 0,
      ps_block_status = 403, ps_block_message = ''Forbidden'', ps_tarpit_enabled = False, ps_tarpit_delay = 0,
      ps_fingerprint_enabled = False, ps_fingerprint_block = {}\<rparr>"

definition example_guard :: "bool \<Rightarrow> real \<Rightarrow> guard" where
  "example_guard dry burst = new_guard (new_store minute hour 2 100 []) None (new_conn_limiter 5) (new_metrics 0) 0
     (example_snapshot dry burst)"

lemma example_ip: "client_ip example_request [] = ''203.0.113.7''"
  by code_simp

lemmas example_simps = example_guard_def example_snapshot_def example_env_def new_guard_def guard_enter_def
  checks_def after_def st_denylist_def st_fingerprint_def st_rule_def st_banned_def st_bad_ua_def bad_ua_def
  st_challenge_def st_global_def st_per_ip_def route_allow_def match_rules_def no_decision_def enforce_def
  new_store_def set_allowlist_def is_allowed_def is_banned_def count_total_def global_allow_def new_global_def
  take_token_def per_ip_allow_def new_per_ip_def Let_def

section \<open>Properties\<close>

lemma served_past_checks:
  assumes "\<not> ps_dry_run (gd_snap g)" and "is_served (fst (guard_enter env r g))"
  shows "gate_open g \<and>
    (is_allowed (gd_bans g) (req_ip r g) \<or>
     (\<not> net_contains (ps_deny_nets (gd_snap g)) (req_ip r g) \<and> \<not> fingerprint_blocked (gd_snap g) (req_of r g) \<and>
      (de_action (rule_of r g) = ActionAllow \<or>
       (de_action (rule_of r g) \<noteq> ActionBlock \<and>
        \<not> is_banned (gd_bans g) (req_ip r g) (ge_now_banned env) \<and> \<not> bad_ua (gd_snap g) (req_of r g) \<and>
        (cleared env g (req_of r g) \<or> \<not> challenge_due env (gd_snap g) (rule_of r g) (req_of r g) g) \<and>
        fst (acquire (req_ip r g) (gd_conns g))))))"
proof (cases "gate_open g \<and> \<not> is_allowed (gd_bans g) (req_ip r g)")
  case True
  show ?thesis
  proof (cases "checks env (gd_snap g) (req_ip r g) (req_of r g) (count_total g)")
    case (Inl x)
    obtain res g' where x: "x = (res, g')" by (cases x)
    have "is_served res" using assms(2) True Inl by (simp add: guard_enter_eq x)
    then show ?thesis using checks_stop [OF Inl [unfolded x]] True assms(1) by (simp add: stopped_ok_def rule_of_def)
  next
    case (Inr g')
    have "is_served (fst (st_conns (gd_snap g) (req_ip r g) (req_of r g) g'))"
      using assms(2) True Inr by (simp add: guard_enter_eq)
    then show ?thesis using checks_pass [OF Inr] True assms(1)
      by (simp add: st_conns_cases rule_of_def split: if_splits)
  qed
qed (use assms in \<open>auto simp: guard_enter_eq split: if_splits\<close>)

text \<open>
  Nothing reaches the upstream past the checks: outside dry-run a request is served only if the
  license gate is open and its address is allowlisted, or it is neither denylisted nor fingerprint-blocked
  nor blocked by a rule and either an allow rule matches or the address is not banned, the user agent is
  not bad, a challenge is cleared or not due, and a connection slot was free.
\<close>

theorem served_requests_passed_every_check:
  assumes "\<not> ps_dry_run (gd_snap g)" and "is_served (fst (guard_enter env r g))"
  shows "gate_open g \<and>
    (is_allowed (gd_bans g) (req_ip r g) \<or>
     (\<not> net_contains (ps_deny_nets (gd_snap g)) (req_ip r g) \<and> \<not> fingerprint_blocked (gd_snap g) (req_of r g) \<and>
      (de_action (rule_of r g) = ActionAllow \<or>
       (de_action (rule_of r g) \<noteq> ActionBlock \<and>
        \<not> is_banned (gd_bans g) (req_ip r g) (ge_now_banned env) \<and> \<not> bad_ua (gd_snap g) (req_of r g) \<and>
        (cleared env g (req_of r g) \<or> \<not> challenge_due env (gd_snap g) (rule_of r g) (req_of r g) g) \<and>
        fst (acquire (req_ip r g) (gd_conns g))))))"
  using assms by (rule served_past_checks)

theorem served_requests_passed_every_check_witness:
  "gate_open (example_guard False 1)"
proof -
  have "is_served (fst (guard_enter example_env example_request (example_guard False 1)))"
    by (simp add: example_simps example_ip st_conns_def acquire_def new_conn_limiter_def active_of_def)
  moreover have "\<not> ps_dry_run (gd_snap (example_guard False 1))" by (simp add: example_simps)
  ultimately show ?thesis using served_requests_passed_every_check by blast
qed


text \<open>
  Dry-run never denies anybody: with the license gate open every request is served, and no ban is
  issued.
\<close>

theorem dry_run_never_denies:
  assumes "ps_dry_run (gd_snap g)" and "gate_open g"
  shows "is_served (fst (guard_enter env r g)) \<and> gd_bans (snd (guard_enter env r g)) = gd_bans g"
proof (cases "is_allowed (gd_bans g) (req_ip r g)")
  case False
  show ?thesis
  proof (cases "checks env (gd_snap g) (req_ip r g) (req_of r g) (count_total g)")
    case (Inl x)
    obtain res g' where x: "x = (res, g')" by (cases x)
    have "is_served res" "res \<noteq> TooMany" "gd_bans g' = gd_bans g"
      using checks_stop [OF Inl [unfolded x]] assms(1) by (auto simp: stopped_ok_def split: if_splits)
    then show ?thesis using False Inl assms(2) by (simp add: guard_enter_eq x)
  next
    case (Inr g')
    then show ?thesis using checks_pass [OF Inr] False assms by (simp add: guard_enter_eq st_conns_cases)
  qed
qed (use assms in \<open>simp add: guard_enter_eq\<close>)

theorem dry_run_never_denies_witness:
  "is_served (fst (guard_enter example_env example_request (example_guard True 0)))"
  by (rule dry_run_never_denies [THEN conjunct1]) (simp_all add: example_simps gate_open_def)

text \<open>The answer 429 for the rate comes with a ban, and a banned address is served by no rule but an allowing one.\<close>

lemma too_many_bans:
  assumes "fst (guard_enter env r g) = TooMany"
  shows "\<not> is_allowed (gd_bans g) (req_ip r g) \<and>
    gd_bans (snd (guard_enter env r g)) = snd (ban (ge_oor env) (ge_ord_ban env) (ge_now_ban env) (req_ip r g) (gd_bans g))"
proof -
  have open_gate: "gate_open g" "\<not> is_allowed (gd_bans g) (req_ip r g)"
    using assms by (auto simp: guard_enter_eq serve_request_def split: if_splits)
  show ?thesis
  proof (cases "checks env (gd_snap g) (req_ip r g) (req_of r g) (count_total g)")
    case (Inl x)
    obtain res g' where x: "x = (res, g')" by (cases x)
    have "res = TooMany" using assms open_gate Inl by (simp add: guard_enter_eq x)
    then show ?thesis using checks_stop [OF Inl [unfolded x]] open_gate Inl by (simp add: guard_enter_eq x stopped_ok_def)
  next
    case (Inr g')
    then show ?thesis using assms open_gate
      by (simp add: guard_enter_eq st_conns_cases serve_request_def split: if_splits)
  qed
qed

lemma banned_not_served:
  assumes "is_banned (gd_bans g) (req_ip r g) (ge_now_banned env)" "de_action (rule_of r g) \<noteq> ActionAllow" "\<not> ps_dry_run (gd_snap g)"
  shows "\<not> is_served (fst (guard_enter env r g))"
proof
  assume "is_served (fst (guard_enter env r g))"
  moreover have "\<not> is_allowed (gd_bans g) (req_ip r g)" using assms(1) by (simp add: is_banned_def split: if_splits)
  ultimately show False using served_past_checks [OF assms(3), of env r] assms(1,2) by blast
qed

interpretation web: ban_client gd_bans "\<lambda>(env, r) g. req_ip r g" "\<lambda>(env, r). ge_now_banned env"
    "\<lambda>(env, r) g. de_action (rule_of r g) = ActionAllow \<or> ps_dry_run (gd_snap g)"
    "\<lambda>(env, r) g. is_served (fst (guard_enter env r g))"
  by unfold_locales (auto simp: banned_not_served)



text \<open>
  A reload can be lost: when a reload completes between the load and the store of \<open>SetChallengeMode\<close>,
  the store puts the old policy back, here an empty denylist in place of the one just loaded.
\<close>

theorem challenge_mode_loses_reload:
  assumes "guard_reload regex now cfg g = (None, g1)"
  shows "ps_deny_nets (gd_snap g1) = parse_cidrs (cf_denylist cfg) \<and>
    ps_deny_nets (gd_snap (challenge_mode_store always (challenge_mode_load g) g1)) = ps_deny_nets (gd_snap g)"
  using assms
  by (auto simp: guard_reload_def build_snapshot_def challenge_mode_store_def challenge_mode_load_def Let_def split: sum.splits)

theorem challenge_mode_loses_reload_witness:
  "ps_deny_nets (gd_snap (challenge_mode_store True (challenge_mode_load (example_guard False 1))
     (snd (guard_reload (\<lambda>_. None) 0 (zero_config\<lparr>cf_denylist := [''10.0.0.0/8'']\<rparr>) (example_guard False 1))))) = []"
proof -
  have "guard_reload (\<lambda>_. None) 0 (zero_config\<lparr>cf_denylist := [''10.0.0.0/8'']\<rparr>) (example_guard False 1) =
    (None, snd (guard_reload (\<lambda>_. None) 0 (zero_config\<lparr>cf_denylist := [''10.0.0.0/8'']\<rparr>) (example_guard False 1)))"
    by (simp add: guard_reload_def build_snapshot_def compile_rules_def zero_config_fields Let_def)
  from challenge_mode_loses_reload [OF this] show ?thesis by (simp add: example_simps)
qed

end
