(* ===== verification/Guard_Runs.thy ===== *)
theory Guard_Runs
  imports Guard
begin

text \<open>
  Runs of the guard: requests entering and leaving, licensing and challenge-mode switches and reloads, in
  any order. The multiset of the addresses that hold a connection slot is carried beside the state. What
  holds over every run: all tables are bounded and the slots are exact.
\<close>

section \<open>The limiters of a snapshot\<close>

definition limiter_ok :: "int \<Rightarrow> per_ip \<Rightarrow> bool" where
  "limiter_ok bound p \<longleftrightarrow> per_ip_inv (pl_rps p) (pl_burst p) (pl_max_keys p) p \<and> pl_max_keys p \<le> bound"

definition limiters_ok :: "int \<Rightarrow> snapshot \<Rightarrow> bool" where
  "limiters_ok bound s \<longleftrightarrow> limiter_ok bound (ps_default_per_ip s) \<and>
     (\<forall>c\<in>set (ps_rules s). \<forall>p. rc_limiter c = Some p \<longrightarrow> limiter_ok bound p)"

definition limiter_of :: "decision \<Rightarrow> snapshot \<Rightarrow> per_ip option" where
  "limiter_of d s = (case de_limiter d of None \<Rightarrow> Some (ps_default_per_ip s) | Some i \<Rightarrow> rc_limiter (ps_rules s ! i))"

lemma per_ip_allow_fields [simp]:
  "pl_rps (snd (per_ip_allow ord now key p)) = pl_rps p"
  "pl_burst (snd (per_ip_allow ord now key p)) = pl_burst p"
  "pl_max_keys (snd (per_ip_allow ord now key p)) = pl_max_keys p"
  by (simp_all add: per_ip_allow_eq)

lemma limiter_ok_allow [go_inv]:
  assumes "limiter_ok bound p" "enumerates ord (pl_buckets p)" "key \<noteq> []"
  shows "limiter_ok bound (snd (per_ip_allow ord now key p))"
  using assms per_ip_step_inv [of "pl_rps p" "pl_burst p" "pl_max_keys p" p "PAllow ord now key"]
  by (simp add: limiter_ok_def)

lemma limiters_ok_allow [go_inv]:
  assumes "limiters_ok bound s" "\<And>p. limiter_of d s = Some p \<Longrightarrow> enumerates (ge_ord_ip env) (pl_buckets p)" "ip \<noteq> []"
    and "\<And>i. de_limiter d = Some i \<Longrightarrow> i < length (ps_rules s)"
  shows "limiters_ok bound (snd (route_allow env d ip s))"
proof (cases "de_limiter d")
  case None
  have "limiter_ok bound (snd (per_ip_allow (ge_ord_ip env) (ge_now_ip env) ip (ps_default_per_ip s)))"
    using assms(1,2) None by (intro limiter_ok_allow assms(3)) (auto simp: limiters_ok_def limiter_of_def)
  then show ?thesis using assms(1) None by (simp add: route_allow_def limiters_ok_def case_prod_beta)
next
  case (Some i)
  show ?thesis
  proof (cases "rc_limiter (ps_rules s ! i)")
    case None
    then show ?thesis using assms(1) Some by (simp add: route_allow_def)
  next
    case (Some p)
    have i: "i < length (ps_rules s)" using assms(4) \<open>de_limiter d = Some i\<close> by simp
    then have "limiter_ok bound p" using assms(1) Some by (auto simp: limiters_ok_def)
    then have "limiter_ok bound (snd (per_ip_allow (ge_ord_ip env) (ge_now_ip env) ip p))"
      using assms(2) \<open>de_limiter d = Some i\<close> Some by (intro limiter_ok_allow assms(3)) (auto simp: limiter_of_def)
    then show ?thesis using assms(1) \<open>de_limiter d = Some i\<close> Some i
      by (auto simp: route_allow_def limiters_ok_def case_prod_beta set_update_distinct dest!: subsetD [OF set_update_subset_insert])
  qed
qed

lemma match_from_index:
  "de_limiter (match_from j cs meth path) = Some i \<Longrightarrow> j \<le> i \<and> i < j + length cs"
  by (induction j cs meth path rule: match_from.induct) (auto simp: no_decision_def split: if_splits)

lemma limiters_ok_kept: "kept g g' \<Longrightarrow> limiters_ok bound (gd_snap g') = limiters_ok bound (gd_snap g)"
  by (simp add: kept_def limiters_ok_def)

lemma limiters_ok_charged:
  assumes "charged env (match_rules (ps_rules (gd_snap g)) r) ip g g'" "limiters_ok bound (gd_snap g)" "ip \<noteq> []"
    and "\<And>p. limiter_of (match_rules (ps_rules (gd_snap g)) r) (gd_snap g) = Some p \<Longrightarrow> enumerates (ge_ord_ip env) (pl_buckets p)"
  shows "limiters_ok bound (gd_snap g')"
  using assms(1) unfolding charged_def
proof
  let ?d = "match_rules (ps_rules (gd_snap g)) r"
  assume "\<exists>h. kept g h \<and> gd_snap g' = snd (route_allow env ?d ip (gd_snap h))"
  then obtain h where h: "kept g h" "gd_snap g' = snd (route_allow env ?d ip (gd_snap h))" by blast
  have "limiter_of ?d (gd_snap h) = limiter_of ?d (gd_snap g)" "ps_rules (gd_snap h) = ps_rules (gd_snap g)"
    using h(1) by (simp_all add: kept_def limiter_of_def split: option.split)
  moreover have "i < length (ps_rules (gd_snap g))" if "de_limiter ?d = Some i" for i
    using that match_from_index by (force simp: match_rules_def)
  ultimately show ?thesis unfolding h(2) using assms(2-4) h(1)
    by (intro limiters_ok_allow) (auto simp: limiters_ok_kept)
qed (use assms(2) in \<open>simp add: limiters_ok_kept\<close>)

section \<open>Steps\<close>

datatype guard_call =
  GEnter guard_env http_request
| GExit string outcome
| GSetLicensed bool
| GSetMode bool
| GReload "string \<Rightarrow> (string \<Rightarrow> bool) option" time config

fun holds_slot :: "outcome \<Rightarrow> bool" where
  "holds_slot (Served r mb slot) = slot"
| "holds_slot res = False"

lemma holds_slot_serve [simp]: "holds_slot (serve_request s r slot) = slot"
  by (simp add: serve_request_def)

fun guard_step :: "guard_call \<Rightarrow> guard \<times> string multiset \<Rightarrow> guard \<times> string multiset" where
  "guard_step (GEnter env r) (g, M) =
     (snd (guard_enter env r g), if holds_slot (fst (guard_enter env r g)) then add_mset (req_ip r g) M else M)"
| "guard_step (GExit ip res) (g, M) = (guard_exit ip res g, if holds_slot res then M - {#ip#} else M)"
| "guard_step (GSetLicensed ok) (g, M) = (set_licensed ok g, M)"
| "guard_step (GSetMode always) (g, M) = (set_challenge_mode always g, M)"
| "guard_step (GReload regex now cfg) (g, M) = (snd (guard_reload regex now cfg g), M)"

text \<open>The numbers of a configuration: rates not negative, bursts float64 values, table sizes within \<open>bound\<close>.\<close>

definition numbers_ok :: "int \<Rightarrow> config \<Rightarrow> bool" where
  "numbers_ok bound c \<longleftrightarrow> 1 \<le> ba_max_entries (cf_ban c) \<and> ba_max_entries (cf_ban c) \<le> bound \<and>
     0 \<le> rl_per_ip_rps (cf_rate_limit c) \<and> 0 \<le> rl_per_ip_burst (cf_rate_limit c) \<and>
     fl (rl_per_ip_burst (cf_rate_limit c)) = rl_per_ip_burst (cf_rate_limit c) \<and>
     (\<forall>r\<in>set (cf_rules c). fl (ru_per_ip_burst r) = ru_per_ip_burst r)"

text \<open>
  The ranges of a request visit the tables as they are, an address is not empty, and a response is
  completed only for a request that was admitted.
\<close>

fun guard_legal :: "int \<Rightarrow> guard \<times> string multiset \<Rightarrow> guard_call \<Rightarrow> bool" where
  "guard_legal bound (g, M) (GEnter env r) \<longleftrightarrow> req_ip r g \<noteq> [] \<and> enumerates (ge_ord_ban env) (bl_banned (gd_bans g)) \<and>
     (\<forall>p. limiter_of (rule_of r g) (gd_snap g) = Some p \<longrightarrow> enumerates (ge_ord_ip env) (pl_buckets p))"
| "guard_legal bound (g, M) (GExit ip res) \<longleftrightarrow> (holds_slot res \<longrightarrow> ip \<in># M)"
| "guard_legal bound (g, M) (GReload regex now cfg) \<longleftrightarrow> numbers_ok bound cfg"
| "guard_legal bound (g, M) c \<longleftrightarrow> True"

definition guard_inv :: "int \<Rightarrow> guard \<times> string multiset \<Rightarrow> bool" where
  "guard_inv bound s \<longleftrightarrow> table_ok bound (gd_bans (fst s)) \<and> limiters_ok bound (gd_snap (fst s)) \<and>
     represents (gd_conns (fst s)) (snd s)"

lemma ban_table_ok:
  "table_ok bound b \<Longrightarrow> enumerates ord (bl_banned b) \<Longrightarrow> ip \<noteq> [] \<Longrightarrow> table_ok bound (snd (ban oor ord now ip b))"
  using ban_step_ok [of bound b "CBan oor ord now ip"] by simp

lemma guard_enter_inv [go_inv]:
  assumes "guard_inv bound (g, M)" "guard_legal bound (g, M) (GEnter env r)"
  shows "guard_inv bound (guard_step (GEnter env r) (g, M))"
proof -
  have inv: "table_ok bound (gd_bans g)" "limiters_ok bound (gd_snap g)" "represents (gd_conns g) M"
    using assms(1) by (simp_all add: guard_inv_def)
  have ip: "req_ip r g \<noteq> []" and ban: "enumerates (ge_ord_ban env) (bl_banned (gd_bans g))"
    and ord: "\<And>p. limiter_of (match_rules (ps_rules (gd_snap g)) (req_of r g)) (gd_snap g) = Some p \<Longrightarrow> enumerates (ge_ord_ip env) (pl_buckets p)"
    using assms(2) by (simp_all add: rule_of_def)
  have lims: "limiters_ok bound (gd_snap g')"
    if "charged env (match_rules (ps_rules (gd_snap g)) (req_of r g)) (req_ip r g) (count_total g) g'" for g'
    using limiters_ok_charged [of env "count_total g" "req_of r g" "req_ip r g" g' bound] that inv(2) ip ord by simp
  show ?thesis
  proof (cases "gate_open g \<and> \<not> is_allowed (gd_bans g) (req_ip r g)")
    case True
    show ?thesis
    proof (cases "checks env (gd_snap g) (req_ip r g) (req_of r g) (count_total g)")
      case (Inl x)
      obtain res g' where x: "x = (res, g')" by (cases x)
      note s = checks_stop [OF Inl [unfolded x], unfolded stopped_ok_def]
      have "\<not> holds_slot res" using s by (cases res) (auto simp: serve_request_def)
      moreover have "table_ok bound (gd_bans g')" using s inv(1) ip ban by (simp add: ban_table_ok)
      moreover have "limiters_ok bound (gd_snap g')" using s by (intro lims) simp
      moreover have "represents (gd_conns g') M" using s inv(3) by simp
      ultimately show ?thesis using True Inl by (simp add: guard_inv_def guard_enter_eq x)
    next
      case (Inr g')
      note s = checks_pass [OF Inr]
      have r: "represents (gd_conns g') M" using s inv(3) by simp
      have "represents (snd (acquire (req_ip r g) (gd_conns g'))) (if fst (acquire (req_ip r g) (gd_conns g')) then add_mset (req_ip r g) M else M)"
        using acquire_refines [OF r, of "req_ip r g"] by simp
      moreover have "limiters_ok bound (gd_snap g')" using s by (intro lims) simp
      ultimately show ?thesis using True Inr s inv(1)
        by (auto simp: guard_inv_def guard_enter_eq st_conns_cases split: if_splits)
    qed
  qed (use inv in \<open>auto simp: guard_inv_def guard_enter_eq serve_request_def\<close>)
qed

lemma compile_limiters:
  "compile_from regex mk i rs = Inr cs \<Longrightarrow> 1 \<le> mk \<Longrightarrow> mk \<le> bound \<Longrightarrow> \<forall>r\<in>set rs. fl (ru_per_ip_burst r) = ru_per_ip_burst r \<Longrightarrow>
   c \<in> set cs \<Longrightarrow> rc_limiter c = Some p \<Longrightarrow> limiter_ok bound p"
proof (induction rs arbitrary: i cs)
  case (Cons r rs)
  then obtain c1 cs1 where c1: "compile_rule regex mk r = Some c1" "compile_from regex mk (i + 1) rs = Inr cs1" "cs = c1 # cs1"
    by (auto split: option.splits sum.splits)
  show ?case
  proof (cases "c = c1")
    case True
    have pos: "0 < ru_per_ip_rps r" using compile_rule_fields(4) [OF c1(1)] True Cons.prems(6) by auto
    define burst where "burst = (if ru_per_ip_burst r \<le> 0 then fl (ru_per_ip_rps r * 2) else ru_per_ip_burst r)"
    have "p = new_per_ip (ru_per_ip_rps r) burst mk"
      using c1(1) Cons.prems(6) pos True by (auto simp: compile_rule_def Let_def burst_def split: if_splits)
    moreover have "0 \<le> burst" "fl burst = burst" using pos Cons.prems(4) by (auto simp: burst_def intro: fl_nonneg)
    ultimately have "per_ip_inv (ru_per_ip_rps r) burst mk p" using pos Cons.prems(2) by (simp add: new_per_ip_inv)
    then show ?thesis using Cons.prems(3) by (simp add: limiter_ok_def per_ip_inv_def)
  next
    case False
    then show ?thesis using Cons.IH [OF c1(2)] Cons.prems by (simp add: c1(3))
  qed
qed simp

lemma build_limiters_ok:
  assumes "build_snapshot regex now c = Inr s" "numbers_ok bound c"
  shows "limiters_ok bound s"
proof -
  obtain rs where rs: "compile_from regex (ba_max_entries (cf_ban c)) 0 (cf_rules c) = Inr rs"
    "ps_rules s = rs" "ps_default_per_ip s = new_per_ip (rl_per_ip_rps (cf_rate_limit c)) (rl_per_ip_burst (cf_rate_limit c)) (ba_max_entries (cf_ban c))"
    using assms(1) by (auto simp: build_snapshot_def compile_rules_def split: sum.splits)
  have n: "1 \<le> ba_max_entries (cf_ban c)" "ba_max_entries (cf_ban c) \<le> bound"
    "0 \<le> rl_per_ip_rps (cf_rate_limit c)" "0 \<le> rl_per_ip_burst (cf_rate_limit c)"
    "fl (rl_per_ip_burst (cf_rate_limit c)) = rl_per_ip_burst (cf_rate_limit c)"
    "\<forall>r\<in>set (cf_rules c). fl (ru_per_ip_burst r) = ru_per_ip_burst r"
    using assms(2) by (simp_all add: numbers_ok_def)
  have "per_ip_inv (rl_per_ip_rps (cf_rate_limit c)) (rl_per_ip_burst (cf_rate_limit c)) (ba_max_entries (cf_ban c)) (ps_default_per_ip s)"
    unfolding rs(3) using n by (intro new_per_ip_inv)
  then have "limiter_ok bound (ps_default_per_ip s)" using n(2) by (simp add: limiter_ok_def per_ip_inv_def)
  then show ?thesis using compile_limiters [OF rs(1) n(1,2,6)] by (simp add: limiters_ok_def rs(2))
qed

lemma guard_step_inv [go_inv]:
  assumes "guard_inv bound s" "guard_legal bound s c"
  shows "guard_inv bound (guard_step c s)"
proof -
  obtain g M where s: "s = (g, M)" by (cases s)
  show ?thesis
  proof (cases c)
    case (GEnter env r)
    then show ?thesis using guard_enter_inv assms by (simp only: s)
  next
    case (GExit ip res)
    have "represents (gd_conns g) M" using assms(1) by (simp add: s guard_inv_def)
    from release_refines [OF this] show ?thesis using assms
      by (cases res) (auto simp: s GExit guard_inv_def guard_exit_def split: bool.splits)
  next
    case (GSetLicensed ok)
    then show ?thesis using assms(1) by (simp add: s guard_inv_def set_licensed_def)
  next
    case (GSetMode always)
    then show ?thesis using assms(1)
      by (simp add: s guard_inv_def set_challenge_mode_def challenge_mode_store_def challenge_mode_load_def limiters_ok_def)
  next
    case (GReload regex now cfg)
    show ?thesis
    proof (cases "build_snapshot regex now cfg")
      case (Inl e)
      then show ?thesis using assms(1) by (simp add: s GReload guard_reload_def)
    next
      case (Inr snap)
      have "limiters_ok bound snap" using assms(2) by (intro build_limiters_ok [OF Inr]) (simp add: s GReload)
      then show ?thesis using assms Inr
        by (simp add: s GReload guard_reload_def guard_inv_def table_ok_def set_params_def set_allowlist_def
            set_max_def represents_def numbers_ok_def Let_def)
    qed
  qed
qed

interpretation guards: invariant guard_step "guard_legal bound" "guard_inv bound" for bound
  by unfold_locales (rule guard_step_inv)

section \<open>Properties\<close>

text \<open>
  A flood cannot exhaust the proxy: over every sequence of requests, completions, mode switches and
  reloads the ban table and every rate-limit table stay within the largest size configured, and the
  connection map counts exactly the admitted requests that have not completed.
\<close>

theorem guard_memory_bounded:
  assumes "guard_inv bound (g, M)" and "legal_run (guard_legal bound) guard_step cs (g, M)"
    and "go_run guard_step cs (g, M) = (g', M')"
  shows "count_entries (gd_bans g') \<le> bound \<and> int (gm_len (pl_buckets (ps_default_per_ip (gd_snap g')))) \<le> bound \<and>
    (\<forall>c\<in>set (ps_rules (gd_snap g')). \<forall>p. rc_limiter c = Some p \<longrightarrow> int (gm_len (pl_buckets p)) \<le> bound) \<and>
    represents (gd_conns g') M'"
proof -
  have "guard_inv bound (g', M')" using guards.run_keeps [OF assms(1,2)] assms(3) by simp
  moreover have "int (gm_len (pl_buckets p)) \<le> bound" if "limiter_ok bound p" for p
    using that by (simp add: limiter_ok_def per_ip_inv_def)
  ultimately show ?thesis by (auto simp: guard_inv_def limiters_ok_def table_ok_def count_entries_def)
qed

theorem guard_memory_bounded_witness:
  "count_entries (gd_bans (fst (go_run guard_step [GEnter example_env example_request, GSetLicensed True]
     (example_guard False 0, {#})))) \<le> 100"
proof -
  have "guard_inv 100 (example_guard False 0, {#})"
    by (simp add: guard_inv_def example_guard_def new_guard_def example_snapshot_def limiters_ok_def limiter_ok_def
        per_ip_inv_def new_per_ip_def table_ok_def new_store_def set_allowlist_def represents_new)
  moreover have "legal_run (guard_legal 100) guard_step [GEnter example_env example_request, GSetLicensed True]
     (example_guard False 0, {#})"
    by (simp add: req_ip_def rule_of_def example_guard_def new_guard_def example_snapshot_def example_ip
        match_rules_def no_decision_def limiter_of_def example_env_def new_store_def set_allowlist_def new_per_ip_def)
  ultimately show ?thesis using guard_memory_bounded [OF _ _ prod.collapse [symmetric]] by blast
qed

end
