(* ===== verification/License.thy ===== *)
theory License
  imports Config Go_Crypto Go_Net
begin

text \<open>
  \<^verbatim>\<open>internal/license\<close>: the store of the control plane with its issued keys, the status of their agents,
  the policies pushed to them, the fleet blocklist and the audit trail. Every operation holds the mutex
  of the store and is one function here. \<open>ok\<close> is the outcome of \<open>save\<close>: the file is replaced by a
  rename, so a failed save leaves the old content; what an operation changed in memory stays changed.
  Random bytes and the clock are arguments.
\<close>

section \<open>The data\<close>

record key =
  ky_id :: string
  ky_name :: string
  ky_hash :: string
  ky_note :: string
  ky_created :: time
  ky_revoked :: bool
  ky_revoked_at :: "time option"

record agent_status =
  as_key_id :: string
  as_hostname :: string
  as_version :: string
  as_protecting :: string
  as_source_ip :: string
  as_reported_ip :: string
  as_first_seen :: time
  as_last_seen :: time
  as_stats :: "(string, int) fmap"

record policy_doc =
  pd_rate_limit :: "rate_limit_config option"
  pd_ban :: "ban_config option"
  pd_challenge :: "challenge_config option"
  pd_connection :: "connection_config option"
  pd_allowlist :: "string list option"
  pd_denylist :: "string list option"
  pd_bad_user_agents :: "string list option"
  pd_block :: "block_config option"
  pd_rules :: "rule_config list option"
  pd_dry_run :: "bool option"

record policy_record =
  pr_doc :: policy_doc
  pr_version :: int

record audit_entry =
  au_time :: time
  au_action :: string
  au_target :: string
  au_source_ip :: string

record data =
  dt_keys :: "(string, key) fmap"
  dt_agents :: "(string, agent_status) fmap"
  dt_policies :: "(string, policy_record) fmap"
  dt_fleet :: "(string, time) fmap"
  dt_fleet_version :: int
  dt_audit :: "audit_entry list"

definition empty_data :: data where
  "empty_data = \<lparr>dt_keys = fmempty, dt_agents = fmempty, dt_policies = fmempty, dt_fleet = fmempty,
     dt_fleet_version = 0, dt_audit = []\<rparr>"

text \<open>\<open>ls_disk\<close> is what the last successful \<open>save\<close> wrote.\<close>

record license_store =
  ls_data :: data
  ls_by_hash :: "(string, string) fmap"
  ls_disk :: "data option"

section \<open>Policies\<close>

text \<open>\<open>ApplyTo\<close>.\<close>

definition overlay :: "'a option \<Rightarrow> 'a \<Rightarrow> 'a" where
  "overlay pushed base = (case pushed of None \<Rightarrow> base | Some x \<Rightarrow> x)"

definition overlay_challenge :: "challenge_config option \<Rightarrow> challenge_config \<Rightarrow> challenge_config" where
  "overlay_challenge pushed base =
     (case pushed of None \<Rightarrow> base
      | Some c \<Rightarrow> if ch_secret c = [] then c\<lparr>ch_secret := ch_secret base\<rparr> else c)"

definition apply_to :: "policy_doc \<Rightarrow> config \<Rightarrow> config" where
  "apply_to p c =
     c\<lparr>cf_rate_limit := overlay (pd_rate_limit p) (cf_rate_limit c),
       cf_ban := overlay (pd_ban p) (cf_ban c),
       cf_challenge := overlay_challenge (pd_challenge p) (cf_challenge c),
       cf_connection := overlay (pd_connection p) (cf_connection c),
       cf_allowlist := overlay (pd_allowlist p) (cf_allowlist c),
       cf_denylist := overlay (pd_denylist p) (cf_denylist c),
       cf_bad_user_agents := overlay (pd_bad_user_agents p) (cf_bad_user_agents c),
       cf_block := overlay (pd_block p) (cf_block c),
       cf_rules := overlay (pd_rules p) (cf_rules c),
       cf_dry_run := overlay (pd_dry_run p) (cf_dry_run c)\<rparr>"

text \<open>
  A policy written to JSON and decoded again, as the license file and the agent do with it. Sections
  without durations come back as they were; of the others every duration field has to be read back.
\<close>

definition transmit_ban :: "ban_config \<Rightarrow> ban_config option" where
  "transmit_ban b =
     (case (transmit_duration (ba_base_duration b), transmit_duration (ba_max_duration b),
            transmit_duration (ba_sweep_interval b)) of
        (Some x, Some y, Some z) \<Rightarrow> Some (b\<lparr>ba_base_duration := x, ba_max_duration := y, ba_sweep_interval := z\<rparr>)
      | _ \<Rightarrow> None)"

definition transmit_challenge :: "challenge_config \<Rightarrow> challenge_config option" where
  "transmit_challenge c =
     map_option (\<lambda>d. c\<lparr>ch_clearance_ttl := d\<rparr>) (transmit_duration (ch_clearance_ttl c))"

definition transmit_connection :: "connection_config \<Rightarrow> connection_config option" where
  "transmit_connection c =
     (case (transmit_duration (co_read_header_timeout c), transmit_duration (co_read_timeout c),
            transmit_duration (co_write_timeout c), transmit_duration (co_idle_timeout c)) of
        (Some w, Some x, Some y, Some z) \<Rightarrow>
          Some (c\<lparr>co_read_header_timeout := w, co_read_timeout := x, co_write_timeout := y, co_idle_timeout := z\<rparr>)
      | _ \<Rightarrow> None)"

text \<open>An optional section: absent sections are left out of the JSON.\<close>

definition transmit_section :: "('a \<Rightarrow> 'a option) \<Rightarrow> 'a option \<Rightarrow> 'a option option" where
  "transmit_section f x = (case x of None \<Rightarrow> Some None | Some a \<Rightarrow> map_option Some (f a))"

definition transmit_policy :: "policy_doc \<Rightarrow> policy_doc option" where
  "transmit_policy p =
     (case (transmit_section transmit_ban (pd_ban p), transmit_section transmit_challenge (pd_challenge p),
            transmit_section transmit_connection (pd_connection p)) of
        (Some b, Some c, Some d) \<Rightarrow> Some (p\<lparr>pd_ban := b, pd_challenge := c, pd_connection := d\<rparr>)
      | _ \<Rightarrow> None)"

section \<open>Opening and saving\<close>

text \<open>\<open>save\<close>: \<open>True\<close> is an error.\<close>

definition save :: "bool \<Rightarrow> license_store \<Rightarrow> bool \<times> license_store" where
  "save ok s = (if ok then (False, s\<lparr>ls_disk := Some (ls_data s)\<rparr>) else (True, s))"

text \<open>The decoded content of the license file: every stored policy has to be read back.\<close>

definition read_policies :: "data \<Rightarrow> (string, policy_record) fmap option" where
  "read_policies d =
     (if fBall (fmran (dt_policies d)) (\<lambda>r. transmit_policy (pr_doc r) \<noteq> None)
      then Some (fmmap (\<lambda>r. r\<lparr>pr_doc := the (transmit_policy (pr_doc r))\<rparr>) (dt_policies d)) else None)"

definition read_data :: "data \<Rightarrow> data option" where
  "read_data d = map_option (\<lambda>ps. d\<lparr>dt_policies := ps\<rparr>) (read_policies d)"

datatype license_file = NoFile | Unreadable | Written data

datatype open_error = ReadError | DecodeError

fun index_keys :: "(string, key) fmap \<Rightarrow> string list \<Rightarrow> (string, string) fmap \<Rightarrow> (string, string) fmap" where
  "index_keys keys [] ix = ix"
| "index_keys keys (k # ks) ix =
     (case fmlookup keys k of None \<Rightarrow> index_keys keys ks ix
      | Some v \<Rightarrow> index_keys keys ks (fmupd (ky_hash v) (ky_id v) ix))"

text \<open>\<open>Open\<close>: a missing file is created; the flag is the error of that save.\<close>

definition open_store :: "string list \<Rightarrow> bool \<Rightarrow> license_file \<Rightarrow> open_error + bool \<times> license_store" where
  "open_store ord ok f =
     (case f of
        NoFile \<Rightarrow> Inr (save ok \<lparr>ls_data = empty_data, ls_by_hash = fmempty, ls_disk = None\<rparr>)
      | Unreadable \<Rightarrow> Inl ReadError
      | Written d \<Rightarrow>
          (case read_data d of None \<Rightarrow> Inl DecodeError
           | Some d' \<Rightarrow> Inr (False, \<lparr>ls_data = d', ls_by_hash = index_keys (dt_keys d') ord fmempty, ls_disk = Some d\<rparr>)))"

section \<open>Keys and agents\<close>

definition key_prefix :: string where "key_prefix = ''agsk_''"

definition hash_key :: "string \<Rightarrow> string" where
  "hash_key plaintext = hex_of (sha256 (bytes_of plaintext))"

definition generate :: "byte list \<Rightarrow> byte list \<Rightarrow> time \<Rightarrow> bool \<Rightarrow> string \<Rightarrow> string \<Rightarrow> license_store \<Rightarrow>
    (string \<times> key \<times> bool) \<times> license_store" where
  "generate rnd24 rnd5 now ok name memo s =
     (let plaintext = key_prefix @ hex_of rnd24;
          kid = ''k_'' @ hex_of rnd5;
          k = \<lparr>ky_id = kid, ky_name = name, ky_hash = hash_key plaintext, ky_note = memo, ky_created = now,
               ky_revoked = False, ky_revoked_at = None\<rparr>;
          s = s\<lparr>ls_data := (ls_data s)\<lparr>dt_keys := fmupd kid k (dt_keys (ls_data s))\<rparr>,
                ls_by_hash := fmupd (ky_hash k) kid (ls_by_hash s)\<rparr>;
          (err, s) = save ok s
      in ((plaintext, k, err), s))"

definition validate_key :: "string \<Rightarrow> license_store \<Rightarrow> key option \<times> bool" where
  "validate_key plaintext s =
     (case fmlookup (ls_by_hash s) (hash_key plaintext) of
        None \<Rightarrow> (None, False)
      | Some kid \<Rightarrow>
          (case fmlookup (dt_keys (ls_data s)) kid of
             None \<Rightarrow> (None, False)
           | Some k \<Rightarrow> (Some k, \<not> ky_revoked k)))"

definition mark_revoked :: "time \<Rightarrow> key \<Rightarrow> key" where
  "mark_revoked now k = (if ky_revoked k then k else k\<lparr>ky_revoked := True, ky_revoked_at := Some now\<rparr>)"

definition revoke :: "string \<Rightarrow> time \<Rightarrow> bool \<Rightarrow> license_store \<Rightarrow> (bool \<times> bool) \<times> license_store" where
  "revoke kid now ok s =
     (case fmlookup (dt_keys (ls_data s)) kid of
        None \<Rightarrow> ((False, False), s)
      | Some k \<Rightarrow>
          let (err, s) = save ok (s\<lparr>ls_data := (ls_data s)\<lparr>dt_keys := fmupd kid (mark_revoked now k) (dt_keys (ls_data s))\<rparr>\<rparr>)
          in ((True, err), s))"

definition record_heartbeat :: "string \<Rightarrow> agent_status \<Rightarrow> time \<Rightarrow> bool \<Rightarrow> license_store \<Rightarrow> bool \<times> license_store" where
  "record_heartbeat key_id st now ok s =
     (let first = (case fmlookup (dt_agents (ls_data s)) key_id of None \<Rightarrow> now | Some prev \<Rightarrow> as_first_seen prev);
          st = st\<lparr>as_key_id := key_id, as_last_seen := now, as_first_seen := first\<rparr>
      in save ok (s\<lparr>ls_data := (ls_data s)\<lparr>dt_agents := fmupd key_id st (dt_agents (ls_data s))\<rparr>\<rparr>))"

text \<open>
  \<open>Keys\<close> sorts by creation time, newest first, and leaves ties in any order: a stable sort of an arbitrary
  order of the map reaches them all.
\<close>

definition all_keys :: "string list \<Rightarrow> license_store \<Rightarrow> key list" where
  "all_keys ord s = sort_key (\<lambda>k. - ky_created k) (List.map_filter (fmlookup (dt_keys (ls_data s))) ord)"

definition agent_of :: "string \<Rightarrow> license_store \<Rightarrow> agent_status option" where
  "agent_of key_id s = fmlookup (dt_agents (ls_data s)) key_id"

definition set_policy :: "string \<Rightarrow> policy_doc \<Rightarrow> bool \<Rightarrow> license_store \<Rightarrow> (int \<times> bool) \<times> license_store" where
  "set_policy key_id doc ok s =
     (let version = (case fmlookup (dt_policies (ls_data s)) key_id of None \<Rightarrow> 0 | Some r \<Rightarrow> pr_version r) + 1;
          r = \<lparr>pr_doc = doc, pr_version = version\<rparr>;
          (err, s) = save ok (s\<lparr>ls_data := (ls_data s)\<lparr>dt_policies := fmupd key_id r (dt_policies (ls_data s))\<rparr>\<rparr>)
      in ((version, err), s))"

definition policy_of :: "string \<Rightarrow> license_store \<Rightarrow> policy_doc option \<times> int" where
  "policy_of key_id s =
     (case fmlookup (dt_policies (ls_data s)) key_id of
        None \<Rightarrow> (None, 0) | Some r \<Rightarrow> (Some (pr_doc r), pr_version r))"

section \<open>The fleet blocklist\<close>

fun fleet_add :: "time \<Rightarrow> string list \<Rightarrow> (string, time) fmap \<Rightarrow> (string, time) fmap \<times> bool" where
  "fleet_add till [] m = (m, False)"
| "fleet_add till (ip # ips) m =
     (let (m', changed) = fleet_add till ips (fmupd ip till m) in (m', fmlookup m ip = None \<or> changed))"

text \<open>\<open>evictFleetLocked\<close>: sort by expiry, delete from the front down to \<open>cap\<close> entries.\<close>

definition fleet_entries :: "string list \<Rightarrow> (string, time) fmap \<Rightarrow> (string \<times> time) list" where
  "fleet_entries ord m = List.map_filter (\<lambda>ip. map_option (Pair ip) (fmlookup m ip)) ord"

definition evict_fleet :: "string list \<Rightarrow> int \<Rightarrow> (string, time) fmap \<Rightarrow> (string, time) fmap" where
  "evict_fleet ord cap m =
     (let all = sort_key snd (fleet_entries ord m)
      in foldl (\<lambda>m kv. fmdrop (fst kv) m) m (take (nat (int (length all) - cap)) all))"

definition add_fleet_bans :: "string list \<Rightarrow> time \<Rightarrow> bool \<Rightarrow> string list \<Rightarrow> duration \<Rightarrow> int \<Rightarrow> license_store \<Rightarrow> bool \<times> license_store" where
  "add_fleet_bans ord now ok ips ttl cap s =
     (if ips = [] then (False, s)
      else
        let (m, changed) = fleet_add (now + ttl) ips (dt_fleet (ls_data s));
            full = (0 < cap \<and> cap < int (gm_len m));
            m = (if full then evict_fleet ord cap m else m);
            version = dt_fleet_version (ls_data s) + (if changed \<or> full then 1 else 0)
        in save ok (s\<lparr>ls_data := (ls_data s)\<lparr>dt_fleet := m, dt_fleet_version := version\<rparr>\<rparr>))"

definition fleet_blocklist :: "string list \<Rightarrow> time \<Rightarrow> bool \<Rightarrow> license_store \<Rightarrow> (string list \<times> int) \<times> license_store" where
  "fleet_blocklist ord now ok s =
     (let m = dt_fleet (ls_data s);
          live = fmfilter (\<lambda>ip. case fmlookup m ip of Some e \<Rightarrow> now < e | None \<Rightarrow> False) m;
          out = filter (\<lambda>ip. fmlookup live ip \<noteq> None) ord;
          removed = (\<exists>ip\<in>set ord. fmlookup live ip = None);
          version = dt_fleet_version (ls_data s) + (if removed then 1 else 0);
          s = s\<lparr>ls_data := (ls_data s)\<lparr>dt_fleet := live, dt_fleet_version := version\<rparr>\<rparr>;
          s = (if removed then snd (save ok s) else s)
      in ((sort out, version), s))"

section \<open>The audit trail\<close>

definition audit_cap :: nat where "audit_cap = 500"

definition audit :: "string \<Rightarrow> string \<Rightarrow> string \<Rightarrow> time \<Rightarrow> bool \<Rightarrow> license_store \<Rightarrow> license_store" where
  "audit action target source_ip now ok s =
     (let l = dt_audit (ls_data s) @ [\<lparr>au_time = now, au_action = action, au_target = target, au_source_ip = source_ip\<rparr>];
          l = (if audit_cap < length l then drop (length l - audit_cap) l else l)
      in snd (save ok (s\<lparr>ls_data := (ls_data s)\<lparr>dt_audit := l\<rparr>\<rparr>)))"

definition audit_log :: "license_store \<Rightarrow> audit_entry list" where
  "audit_log s = rev (dt_audit (ls_data s))"

section \<open>The index of the keys\<close>

definition keys_ok :: "(string, key) fmap \<Rightarrow> bool" where
  "keys_ok keys \<longleftrightarrow>
     (\<forall>i k. fmlookup keys i = Some k \<longrightarrow> ky_id k = i) \<and>
     (\<forall>i j k l. fmlookup keys i = Some k \<longrightarrow> fmlookup keys j = Some l \<longrightarrow> ky_hash k = ky_hash l \<longrightarrow> i = j)"

text \<open>The index finds every key under its hash, and nothing else.\<close>

definition index_ok :: "(string, key) fmap \<Rightarrow> (string, string) fmap \<Rightarrow> bool" where
  "index_ok keys ix \<longleftrightarrow>
     (\<forall>h i. fmlookup ix h = Some i \<longleftrightarrow> (\<exists>k. fmlookup keys i = Some k \<and> ky_hash k = h))"

definition store_ok :: "license_store \<Rightarrow> bool" where
  "store_ok s \<longleftrightarrow> keys_ok (dt_keys (ls_data s)) \<and> index_ok (dt_keys (ls_data s)) (ls_by_hash s) \<and>
     (\<forall>d. ls_disk s = Some d \<longrightarrow> keys_ok (dt_keys d))"

lemma index_keys_lookup:
  assumes "keys_ok keys"
  shows "fmlookup (index_keys keys ord ix) h = Some i \<longleftrightarrow>
    (\<exists>k. i \<in> set ord \<and> fmlookup keys i = Some k \<and> ky_hash k = h) \<or>
    ((\<forall>j\<in>set ord. \<forall>k. fmlookup keys j = Some k \<longrightarrow> ky_hash k \<noteq> h) \<and> fmlookup ix h = Some i)"
proof (induction ord arbitrary: ix)
  case (Cons j ord)
  show ?case
  proof (cases "fmlookup keys j")
    case None
    then show ?thesis using Cons by auto
  next
    case (Some v)
    have j: "ky_id v = j" and uniq: "\<And>l k. fmlookup keys l = Some k \<Longrightarrow> ky_hash k = ky_hash v \<Longrightarrow> l = j"
      using assms Some by (simp_all add: keys_ok_def)
    have step: "index_keys keys (j # ord) ix = index_keys keys ord (fmupd (ky_hash v) j ix)"
      by (simp add: Some j)
    show ?thesis
    proof (cases "h = ky_hash v")
      case True
      have one: "(\<exists>k. fmlookup keys i = Some k \<and> ky_hash k = h) \<longleftrightarrow> i = j" for i
        using Some uniq True by blast
      have none: "(\<forall>l\<in>set ord. \<forall>k. fmlookup keys l = Some k \<longrightarrow> ky_hash k \<noteq> h) \<longleftrightarrow> j \<notin> set ord"
        by (metis one)
      have some: "(\<exists>k. i \<in> set ord \<and> fmlookup keys i = Some k \<and> ky_hash k = h) \<longleftrightarrow> i \<in> set ord \<and> i = j"
        by (simp add: one)
      have top: "fmlookup (fmupd (ky_hash v) j ix) h = Some i \<longleftrightarrow> i = j" using True by auto
      have "fmlookup (index_keys keys (j # ord) ix) h = Some i \<longleftrightarrow> i = j"
        unfolding step Cons [of "fmupd (ky_hash v) j ix"] some none top by blast
      moreover have "\<not> (\<forall>l\<in>set (j # ord). \<forall>k. fmlookup keys l = Some k \<longrightarrow> ky_hash k \<noteq> h)"
        using Some True by simp
      moreover have "(\<exists>k. i \<in> set (j # ord) \<and> fmlookup keys i = Some k \<and> ky_hash k = h) \<longleftrightarrow> i = j"
        using one [of i] by auto
      ultimately show ?thesis by argo
    next
      case False
      then show ?thesis unfolding step Cons [of "fmupd (ky_hash v) j ix"] using Some by auto
    qed
  qed
qed simp

lemma index_keys_ok:
  assumes "keys_ok keys" "enumerates ord keys"
  shows "index_ok keys (index_keys keys ord fmempty)"
proof -
  have "i \<in> set ord" if "fmlookup keys i = Some k" for i k
    using assms(2) that by (simp add: enumerates_iff)
  then show ?thesis using index_keys_lookup [OF assms(1), of ord fmempty] by (auto simp: index_ok_def)
qed

lemma index_ok_unique: "index_ok keys ix \<Longrightarrow> index_ok keys jx \<Longrightarrow> ix = jx"
  by (rule fmap_ext) (metis index_ok_def not_Some_eq)

lemma keys_ok_upd:
  assumes "keys_ok keys" "ky_id k = i"
    and "\<And>j l. j \<noteq> i \<Longrightarrow> fmlookup keys j = Some l \<Longrightarrow> ky_hash l \<noteq> ky_hash k"
  shows "keys_ok (fmupd i k keys)"
  using assms unfolding keys_ok_def by (auto split: if_splits) metis+

text \<open>A key validates if and only if it was issued and is not revoked.\<close>

lemma validate_key_iff:
  assumes "store_ok s"
  shows "validate_key p s = (Some k, True) \<longleftrightarrow>
    (fmlookup (dt_keys (ls_data s)) (ky_id k) = Some k \<and> ky_hash k = hash_key p \<and> \<not> ky_revoked k)"
proof -
  have ix: "fmlookup (ls_by_hash s) h = Some i \<longleftrightarrow> (\<exists>k. fmlookup (dt_keys (ls_data s)) i = Some k \<and> ky_hash k = h)" for h i
    using assms by (simp add: store_ok_def index_ok_def)
  have name: "fmlookup (dt_keys (ls_data s)) i = Some k \<Longrightarrow> ky_id k = i" for i k
    using assms by (simp add: store_ok_def keys_ok_def)
  show ?thesis
  proof
    assume v: "validate_key p s = (Some k, True)"
    then obtain i where i: "fmlookup (ls_by_hash s) (hash_key p) = Some i"
      "fmlookup (dt_keys (ls_data s)) i = Some k" "\<not> ky_revoked k"
      by (auto simp: validate_key_def split: option.splits)
    then show "fmlookup (dt_keys (ls_data s)) (ky_id k) = Some k \<and> ky_hash k = hash_key p \<and> \<not> ky_revoked k"
      using name [OF i(2)] ix [of "hash_key p" i] by simp
  next
    assume k: "fmlookup (dt_keys (ls_data s)) (ky_id k) = Some k \<and> ky_hash k = hash_key p \<and> \<not> ky_revoked k"
    then have "fmlookup (ls_by_hash s) (hash_key p) = Some (ky_id k)" using ix by blast
    then show "validate_key p s = (Some k, True)" using k by (simp add: validate_key_def)
  qed
qed

lemma validate_key_false:
  assumes "store_ok s" "fmlookup (dt_keys (ls_data s)) i = Some k" "ky_hash k = hash_key p" "ky_revoked k"
  shows "\<not> snd (validate_key p s)"
proof -
  have "fmlookup (ls_by_hash s) (hash_key p) = Some i" using assms by (auto simp: store_ok_def index_ok_def)
  then show ?thesis using assms(2,4) by (simp add: validate_key_def)
qed

section \<open>Runs of the store\<close>

datatype license_call =
  LGenerate "byte list" "byte list" time bool string string
| LRevoke string time bool
| LHeartbeat string agent_status time bool
| LPolicy string policy_doc bool
| LFleetAdd "string list" time bool "string list" duration int
| LFleetList "string list" time bool
| LAudit string string string time bool
| LRestart "string list" bool

definition file_of :: "license_store \<Rightarrow> license_file" where
  "file_of s = (case ls_disk s of None \<Rightarrow> NoFile | Some d \<Rightarrow> Written d)"

fun license_step :: "license_call \<Rightarrow> license_store \<Rightarrow> license_store" where
  "license_step (LGenerate r24 r5 now ok name memo) s = snd (generate r24 r5 now ok name memo s)"
| "license_step (LRevoke kid now ok) s = snd (revoke kid now ok s)"
| "license_step (LHeartbeat kid st now ok) s = snd (record_heartbeat kid st now ok s)"
| "license_step (LPolicy kid doc ok) s = snd (set_policy kid doc ok s)"
| "license_step (LFleetAdd ord now ok ips ttl mx) s = snd (add_fleet_bans ord now ok ips ttl mx s)"
| "license_step (LFleetList ord now ok) s = snd (fleet_blocklist ord now ok s)"
| "license_step (LAudit action target src now ok) s = audit action target src now ok s"
| "license_step (LRestart ord ok) s = (case open_store ord ok (file_of s) of Inl e \<Rightarrow> s | Inr (err, s') \<Rightarrow> s')"

text \<open>The random identifiers of a new key are fresh, and a restart finds a readable file.\<close>

fun license_legal :: "license_store \<Rightarrow> license_call \<Rightarrow> bool" where
  "license_legal s (LGenerate r24 r5 now ok name memo) \<longleftrightarrow>
     fmlookup (dt_keys (ls_data s)) (''k_'' @ hex_of r5) = None \<and>
     fmlookup (ls_by_hash s) (hash_key (key_prefix @ hex_of r24)) = None"
| "license_legal s (LRestart ord ok) \<longleftrightarrow>
     (case ls_disk s of None \<Rightarrow> True | Some d \<Rightarrow> read_data d \<noteq> None \<and> enumerates ord (dt_keys d))"
| "license_legal s c \<longleftrightarrow> True"

lemma save_fields [simp]:
  "ls_data (snd (save ok s)) = ls_data s" "ls_by_hash (snd (save ok s)) = ls_by_hash s"
  "ls_disk (snd (save ok s)) = (if ok then Some (ls_data s) else ls_disk s)" "fst (save ok s) = (\<not> ok)"
  by (simp_all add: save_def)

lemma generate_fields [simp]:
  "dt_keys (ls_data (snd (generate r24 r5 now ok name memo s))) =
     fmupd (''k_'' @ hex_of r5) (fst (snd (fst (generate r24 r5 now ok name memo s)))) (dt_keys (ls_data s))"
  "ls_by_hash (snd (generate r24 r5 now ok name memo s)) =
     fmupd (hash_key (key_prefix @ hex_of r24)) (''k_'' @ hex_of r5) (ls_by_hash s)"
  "ls_disk (snd (generate r24 r5 now ok name memo s)) =
     (if ok then Some (ls_data (snd (generate r24 r5 now ok name memo s))) else ls_disk s)"
  "ky_id (fst (snd (fst (generate r24 r5 now ok name memo s)))) = ''k_'' @ hex_of r5"
  "ky_hash (fst (snd (fst (generate r24 r5 now ok name memo s)))) = hash_key (key_prefix @ hex_of r24)"
  "ky_revoked (fst (snd (fst (generate r24 r5 now ok name memo s)))) = False"
  "fst (fst (generate r24 r5 now ok name memo s)) = key_prefix @ hex_of r24"
  by (simp_all add: generate_def Let_def case_prod_beta)

lemma mark_revoked_fields [simp]:
  "ky_id (mark_revoked now k) = ky_id k" "ky_hash (mark_revoked now k) = ky_hash k" "ky_revoked (mark_revoked now k)"
  by (simp_all add: mark_revoked_def)

lemma revoke_fields [simp]:
  "ls_by_hash (snd (revoke kid now ok s)) = ls_by_hash s"
  "fmlookup (dt_keys (ls_data (snd (revoke kid now ok s)))) i =
     (if i = kid then map_option (mark_revoked now) (fmlookup (dt_keys (ls_data s)) i)
      else fmlookup (dt_keys (ls_data s)) i)"
  by (auto simp: revoke_def case_prod_beta Let_def split: option.splits)

lemma revoke_disk [simp]:
  "ls_disk (snd (revoke kid now ok s)) =
     (if ok \<and> fmlookup (dt_keys (ls_data s)) kid \<noteq> None then Some (ls_data (snd (revoke kid now ok s))) else ls_disk s)"
  by (auto simp: revoke_def case_prod_beta Let_def split: option.splits)

text \<open>What the operations that do not touch the keys leave unchanged.\<close>

definition same_keys :: "license_store \<Rightarrow> license_store \<Rightarrow> bool" where
  "same_keys s s' \<longleftrightarrow> dt_keys (ls_data s') = dt_keys (ls_data s) \<and> ls_by_hash s' = ls_by_hash s \<and>
     (ls_disk s' = ls_disk s \<or> ls_disk s' = Some (ls_data s'))"

lemma same_keys_ops [simp]:
  "same_keys s (snd (record_heartbeat kid st now ok s))"
  "same_keys s (snd (set_policy kid doc ok s))"
  "same_keys s (snd (add_fleet_bans ord now ok ips ttl cap s))"
  "same_keys s (snd (fleet_blocklist ord now ok s))"
  "same_keys s (audit action target src now ok s)"
  by (simp_all add: same_keys_def record_heartbeat_def set_policy_def add_fleet_bans_def fleet_blocklist_def
      audit_def Let_def case_prod_beta)

text \<open>What holds of the keys on disk and in memory is kept by such an operation.\<close>

lemma same_keys_keeps:
  assumes "same_keys s s'" "P (dt_keys (ls_data s))" "\<forall>d. ls_disk s = Some d \<longrightarrow> P (dt_keys d)"
  shows "P (dt_keys (ls_data s'))" "\<forall>d. ls_disk s' = Some d \<longrightarrow> P (dt_keys d)"
  using assms by (auto simp: same_keys_def)

lemma read_data_keys: "read_data d = Some d' \<Longrightarrow> dt_keys d' = dt_keys d"
  by (auto simp: read_data_def)

lemma store_ok_generate:
  assumes "store_ok s" "license_legal s (LGenerate r24 r5 now ok name memo)"
  shows "store_ok (snd (generate r24 r5 now ok name memo s))"
proof -
  let ?s = "snd (generate r24 r5 now ok name memo s)" and ?k = "fst (snd (fst (generate r24 r5 now ok name memo s)))"
  let ?i = "''k_'' @ hex_of r5" and ?h = "hash_key (key_prefix @ hex_of r24)"
  have ix: "fmlookup (ls_by_hash s) h = Some i \<longleftrightarrow> (\<exists>k. fmlookup (dt_keys (ls_data s)) i = Some k \<and> ky_hash k = h)" for h i
    using assms(1) by (simp add: store_ok_def index_ok_def)
  have new: "fmlookup (dt_keys (ls_data s)) ?i = None" "fmlookup (ls_by_hash s) ?h = None"
    using assms(2) by simp_all
  have other: "ky_hash l \<noteq> ?h" if "fmlookup (dt_keys (ls_data s)) j = Some l" for j l
    using ix [of ?h j] new(2) that by auto
  have "keys_ok (dt_keys (ls_data ?s))"
    using assms(1) other by (simp only: generate_fields, intro keys_ok_upd) (auto simp: store_ok_def)
  moreover have "index_ok (dt_keys (ls_data ?s)) (ls_by_hash ?s)"
    unfolding index_ok_def generate_fields using ix new other by (auto split: if_splits)
  ultimately show ?thesis using assms(1) by (auto simp: store_ok_def)
qed

lemma keys_ok_revoke: "keys_ok (dt_keys (ls_data s)) \<Longrightarrow> keys_ok (dt_keys (ls_data (snd (revoke kid now ok s))))"
  unfolding keys_ok_def revoke_fields by (auto split: if_splits)

lemma store_ok_revoke:
  assumes "store_ok s"
  shows "store_ok (snd (revoke kid now ok s))"
proof -
  have "index_ok (dt_keys (ls_data (snd (revoke kid now ok s)))) (ls_by_hash s)"
    using assms unfolding store_ok_def index_ok_def revoke_fields
    by (auto split: if_splits)
  then show ?thesis using assms keys_ok_revoke [of s kid now ok] by (auto simp: store_ok_def)
qed

lemma store_ok_open:
  assumes "open_store ord ok (file_of s) = Inr (err, s')" "license_legal s (LRestart ord ok)" "store_ok s"
  shows "store_ok s'"
proof (cases "ls_disk s")
  case None
  then show ?thesis using assms(1)
    by (auto simp: open_store_def file_of_def save_def store_ok_def keys_ok_def index_ok_def empty_data_def split: if_splits)
next
  case (Some d)
  then obtain d' where d': "read_data d = Some d'"
    "s' = \<lparr>ls_data = d', ls_by_hash = index_keys (dt_keys d') ord fmempty, ls_disk = Some d\<rparr>"
    using assms(1) by (auto simp: open_store_def file_of_def split: option.splits)
  then show ?thesis using assms(2,3) Some read_data_keys [OF d'(1)] by (simp add: store_ok_def index_keys_ok)
qed

lemma store_ok_step [go_inv]:
  assumes "store_ok s" "license_legal s c"
  shows "store_ok (license_step c s)"
proof -
  have same: "store_ok s'" if "same_keys s s'" for s'
    using assms(1) same_keys_keeps [OF that, of keys_ok] that by (simp add: store_ok_def same_keys_def)
  show ?thesis
  proof (cases c)
    case (LRestart ord ok)
    then show ?thesis using assms store_ok_open by (auto split: sum.split prod.split)
  qed (use assms same store_ok_generate store_ok_revoke in \<open>simp_all del: license_legal.simps\<close>)
qed

interpretation licenses: invariant license_step license_legal store_ok
  by unfold_locales (rule store_ok_step)

text \<open>The key \<open>kid\<close> is on record with a hash, and revoked or not.\<close>

definition recorded :: "bool \<Rightarrow> string \<Rightarrow> string \<Rightarrow> (string, key) fmap \<Rightarrow> bool" where
  "recorded gone kid h keys \<longleftrightarrow> (\<exists>k. fmlookup keys kid = Some k \<and> ky_hash k = h \<and> ky_revoked k = gone)"

definition recorded_everywhere :: "bool \<Rightarrow> string \<Rightarrow> string \<Rightarrow> license_store \<Rightarrow> bool" where
  "recorded_everywhere gone kid h s \<longleftrightarrow> recorded gone kid h (dt_keys (ls_data s)) \<and>
     (\<exists>d. ls_disk s = Some d \<and> recorded gone kid h (dt_keys d))"

lemma recorded_generate:
  "recorded gone kid h (dt_keys (ls_data s)) \<Longrightarrow> license_legal s (LGenerate r24 r5 now ok name memo) \<Longrightarrow>
   recorded gone kid h (dt_keys (ls_data (snd (generate r24 r5 now ok name memo s))))"
  by (auto simp: recorded_def)

lemma recorded_revoke:
  "recorded gone kid h (dt_keys (ls_data s)) \<Longrightarrow> (i = kid \<longrightarrow> gone) \<Longrightarrow>
   recorded gone kid h (dt_keys (ls_data (snd (revoke i now ok s))))"
  by (auto simp: recorded_def mark_revoked_def)

text \<open>A key stays on record through any operation but its own revocation, and through restarts.\<close>

lemma recorded_step:
  assumes "recorded_everywhere gone kid h s" "license_legal s c" "\<And>now ok. c = LRevoke kid now ok \<Longrightarrow> gone"
  shows "recorded_everywhere gone kid h (license_step c s)"
proof -
  have same: "recorded_everywhere gone kid h s'" if "same_keys s s'" for s'
    using assms(1) that by (auto simp: recorded_everywhere_def same_keys_def)
  show ?thesis
  proof (cases c)
    case (LGenerate r24 r5 now ok name memo)
    then show ?thesis
      using assms(1,2) recorded_generate [of gone kid h s r24 r5 now ok name memo] by (auto simp: recorded_everywhere_def simp del: license_legal.simps generate_fields(1))
  next
    case (LRevoke i now ok)
    then show ?thesis
      using assms(1,3) recorded_revoke [of gone kid h s i now ok] by (auto simp: recorded_everywhere_def)
  next
    case (LRestart ord ok)
    obtain d where d: "ls_disk s = Some d" "recorded gone kid h (dt_keys d)"
      using assms(1) by (auto simp: recorded_everywhere_def)
    then obtain d' where "read_data d = Some d'" using assms(2) LRestart by auto
    then show ?thesis using d read_data_keys [of d d'] LRestart
      by (auto simp: open_store_def file_of_def recorded_everywhere_def)
  qed (use same in simp_all)
qed

lemma recorded_run:
  assumes "recorded_everywhere gone kid h s" "legal_run license_legal license_step cs s"
    and "\<And>now ok. LRevoke kid now ok \<in> set cs \<Longrightarrow> gone"
  shows "recorded_everywhere gone kid h (go_run license_step cs s)"
  using assms
proof (induction cs arbitrary: s)
  case (Cons c cs)
  have "recorded_everywhere gone kid h (license_step c s)"
    using Cons.prems by (intro recorded_step) auto
  then show ?case using Cons.prems by (auto intro!: Cons.IH)
qed simp

section \<open>Properties of the keys\<close>

text \<open>
  C7. Revoking a key is final: once \<open>Revoke\<close> has saved, the plaintext of the key does not validate again,
  whatever keys are issued, policies set, agents heard, saves lost and however often the control plane
  is restarted from its file afterwards, as long as the random identifiers of new keys are fresh.
\<close>

theorem revocation_is_final:
  assumes "store_ok s" "fmlookup (dt_keys (ls_data s)) kid = Some k" "hash_key p = ky_hash k"
    and "legal_run license_legal license_step cs (snd (revoke kid now True s))"
  shows "\<not> snd (validate_key p (go_run license_step cs (snd (revoke kid now True s))))"
proof -
  let ?s = "snd (revoke kid now True s)"
  have "recorded_everywhere True kid (ky_hash k) ?s"
    using assms(2) by (simp add: recorded_everywhere_def recorded_def)
  then have "recorded_everywhere True kid (ky_hash k) (go_run license_step cs ?s)"
    by (rule recorded_run [OF _ assms(4)]) simp
  moreover have "store_ok (go_run license_step cs ?s)"
    using store_ok_revoke [OF assms(1)] assms(4) by (rule licenses.run_keeps)
  ultimately show ?thesis using validate_key_false assms(3) by (force simp: recorded_everywhere_def recorded_def)
qed

text \<open>
  A key works from its issue until its revocation: a plaintext returned by a saved \<open>Generate\<close> validates,
  to the record returned with it, after any run that does not revoke that key, restarts included.
\<close>

theorem key_valid_until_revoked:
  assumes "store_ok s" "license_legal s (LGenerate r24 r5 now True name memo)"
    and "generate r24 r5 now True name memo s = ((p, k, err), s')"
    and "legal_run license_legal license_step cs s'" "\<And>now ok. LRevoke (ky_id k) now ok \<notin> set cs"
  shows "\<exists>k'. validate_key p (go_run license_step cs s') = (Some k', True) \<and> ky_id k' = ky_id k \<and> ky_hash k' = ky_hash k"
proof -
  have p: "p = key_prefix @ hex_of r24" "ky_hash k = hash_key p" "\<not> ky_revoked k" "fmlookup (dt_keys (ls_data s')) (ky_id k) = Some k"
    "ls_disk s' = Some (ls_data s')"
    using generate_fields [of r24 r5 now True name memo s] unfolding assms(3) by simp_all
  have "recorded_everywhere False (ky_id k) (ky_hash k) s'"
    using p by (simp add: recorded_everywhere_def recorded_def)
  then have r: "recorded_everywhere False (ky_id k) (ky_hash k) (go_run license_step cs s')"
    by (rule recorded_run [OF _ assms(4)]) (use assms(5) in blast)
  then obtain k' where k': "fmlookup (dt_keys (ls_data (go_run license_step cs s'))) (ky_id k) = Some k'"
    "ky_hash k' = ky_hash k" "\<not> ky_revoked k'" by (auto simp: recorded_everywhere_def recorded_def)
  have ok: "store_ok (go_run license_step cs s')"
    using store_ok_generate [OF assms(1,2)] assms(3,4) by (auto intro: licenses.run_keeps)
  then have "ky_id k' = ky_id k" using k'(1) by (simp add: store_ok_def keys_ok_def)
  then show ?thesis using validate_key_iff [OF ok, of p k'] k' p(2) by auto
qed

text \<open>A small store for concrete instances: one key, issued and saved.\<close>

definition example_license :: license_store where
  "example_license =
     snd (generate [1] [2] 10 True ''shop'' [] \<lparr>ls_data = empty_data, ls_by_hash = fmempty, ls_disk = None\<rparr>)"

definition example_key :: key where
  "example_key = \<lparr>ky_id = ''k_02'', ky_name = ''shop'', ky_hash = hash_key ''agsk_01'', ky_note = [], ky_created = 10,
     ky_revoked = False, ky_revoked_at = None\<rparr>"

lemma hex_example: "hex_of [1] = ''01''" "hex_of [2] = ''02''" "hex_of [3] = ''03''"
  by code_simp+

lemma example_key_fields [simp]:
  "ky_id example_key = ''k_02''" "ky_hash example_key = hash_key ''agsk_01''" "\<not> ky_revoked example_key"
  by (simp_all add: example_key_def)

lemma example_license_eq:
  "example_license = \<lparr>ls_data = empty_data\<lparr>dt_keys := fmupd ''k_02'' example_key fmempty\<rparr>,
     ls_by_hash = fmupd (hash_key ''agsk_01'') ''k_02'' fmempty,
     ls_disk = Some (empty_data\<lparr>dt_keys := fmupd ''k_02'' example_key fmempty\<rparr>)\<rparr>"
  by (simp add: example_license_def generate_def Let_def save_def empty_data_def hex_example key_prefix_def example_key_def)

lemma example_license_ok [simp]: "store_ok example_license"
  unfolding example_license_def
  by (rule store_ok_generate) (simp_all add: store_ok_def keys_ok_def index_ok_def empty_data_def)

theorem revocation_is_final_witness:
  "\<not> snd (validate_key ''agsk_01'' (go_run license_step [LAudit ''key.revoke'' ''k_02'' [] 20 False, LRestart [''k_02''] True]
      (snd (revoke ''k_02'' 20 True example_license))))"
proof (rule revocation_is_final [where k = example_key, OF example_license_ok])
  show "legal_run license_legal license_step [LAudit ''key.revoke'' ''k_02'' [] 20 False, LRestart [''k_02''] True]
      (snd (revoke ''k_02'' 20 True example_license))"
    by (simp add: example_license_eq revoke_def audit_def Let_def save_def empty_data_def read_data_def read_policies_def)
qed (simp_all add: example_license_eq)

theorem key_valid_until_revoked_witness:
  "\<exists>k'. validate_key (key_prefix @ hex_of [1]) (go_run license_step [LRevoke ''k_77'' 20 True, LRestart [''k_02''] True] example_license) = (Some k', True) \<and>
     ky_id k' = ky_id example_key \<and> ky_hash k' = ky_hash example_key"
proof (rule key_valid_until_revoked)
  let ?s = "\<lparr>ls_data = empty_data, ls_by_hash = fmempty, ls_disk = None\<rparr>"
  show "store_ok ?s" by (simp add: store_ok_def keys_ok_def index_ok_def empty_data_def)
  show "license_legal ?s (LGenerate [1] [2] 10 True ''shop'' [])" by (simp add: empty_data_def)
  show "generate [1] [2] 10 True ''shop'' [] ?s = ((key_prefix @ hex_of [1], example_key, False), example_license)"
    by (simp add: example_license_def generate_def Let_def save_def hex_example key_prefix_def example_key_def)
  show "legal_run license_legal license_step [LRevoke ''k_77'' 20 True, LRestart [''k_02''] True] example_license"
    by (simp add: example_license_eq revoke_def empty_data_def read_data_def read_policies_def)
qed simp

section \<open>The file\<close>

lemma transmit_policy_eq:
  "transmit_policy p = (if pd_ban p = None \<and> pd_challenge p = None \<and> pd_connection p = None then Some p else None)"
  by (auto simp: transmit_policy_def transmit_section_def transmit_ban_def transmit_challenge_def transmit_connection_def
      split: option.splits)

lemma read_data_eq:
  "read_data d = (if \<forall>i r. fmlookup (dt_policies d) i = Some r \<longrightarrow> transmit_policy (pr_doc r) \<noteq> None then Some d else None)"
proof (cases "\<forall>i r. fmlookup (dt_policies d) i = Some r \<longrightarrow> transmit_policy (pr_doc r) \<noteq> None")
  case True
  have "fmmap (\<lambda>r. r\<lparr>pr_doc := the (transmit_policy (pr_doc r))\<rparr>) (dt_policies d) = dt_policies d"
  proof (rule fmap_ext)
    fix i
    have "pr_doc r = the (transmit_policy (pr_doc r))" if "fmlookup (dt_policies d) i = Some r" for r
    proof -
      have "transmit_policy (pr_doc r) \<noteq> None" using True that by blast
      then show ?thesis by (simp add: transmit_policy_eq split: if_splits)
    qed
    then show "fmlookup (fmmap (\<lambda>r. r\<lparr>pr_doc := the (transmit_policy (pr_doc r))\<rparr>) (dt_policies d)) i = fmlookup (dt_policies d) i"
      by (cases "fmlookup (dt_policies d) i") simp_all
  qed
  moreover have "fBall (fmran (dt_policies d)) (\<lambda>r. transmit_policy (pr_doc r) \<noteq> None)"
    using True by auto
  ultimately show ?thesis using True by (simp add: read_data_def read_policies_def)
next
  case False
  then have "\<not> fBall (fmran (dt_policies d)) (\<lambda>r. transmit_policy (pr_doc r) \<noteq> None)"
    by (auto intro: fmranI)
  then show ?thesis using False by (auto simp: read_data_def read_policies_def)
qed



text \<open>
  A policy with a duration makes the license file unreadable: once a policy that sets the \<open>ban\<close>,
  \<open>challenge\<close> or \<open>connection\<close> section has been stored and saved, the control plane cannot be restarted from
  its file, because durations are written as numbers and read as strings.
\<close>

theorem duration_policy_bricks_store:
  assumes "pd_ban doc \<noteq> None \<or> pd_challenge doc \<noteq> None \<or> pd_connection doc \<noteq> None"
  shows "open_store ord ok (file_of (snd (set_policy kid doc True s))) = Inl DecodeError"
proof -
  have "transmit_policy doc = None" using assms by (simp add: transmit_policy_eq)
  then show ?thesis
    by (auto simp: set_policy_def case_prod_beta Let_def save_def open_store_def file_of_def read_data_eq)
qed

definition empty_policy :: policy_doc where
  "empty_policy = \<lparr>pd_rate_limit = None, pd_ban = None, pd_challenge = None, pd_connection = None, pd_allowlist = None,
     pd_denylist = None, pd_bad_user_agents = None, pd_block = None, pd_rules = None, pd_dry_run = None\<rparr>"

theorem duration_policy_bricks_store_witness:
  "open_store [] True (file_of (snd (set_policy ''k_02''
     (empty_policy\<lparr>pd_ban := Some (default_ban (cf_ban zero_config))\<rparr>) True example_license))) = Inl DecodeError"
  by (rule duration_policy_bricks_store) simp

section \<open>The scope of a policy\<close>

lemma overlay_simps [simp]:
  "overlay None x = x" "overlay p (overlay p x) = overlay p x"
  "overlay_challenge None c = c" "overlay_challenge q (overlay_challenge q c) = overlay_challenge q c"
  by (simp_all add: overlay_def overlay_challenge_def split: option.split)

text \<open>
  A pushed policy changes protection settings only: everything about deployment keeps its local value,
  a section the policy leaves out keeps its local value, a policy without a secret keeps the local signing
  secret, and pushing the same policy again changes nothing.
\<close>

theorem policy_scope:
  "cf_listen (apply_to p c) = cf_listen c \<and> cf_upstream (apply_to p c) = cf_upstream c \<and> cf_sites (apply_to p c) = cf_sites c \<and>
   cf_trusted_proxies (apply_to p c) = cf_trusted_proxies c \<and> cf_tls (apply_to p c) = cf_tls c \<and>
   cf_minecraft (apply_to p c) = cf_minecraft c \<and> cf_license (apply_to p c) = cf_license c \<and>
   cf_admin (apply_to p c) = cf_admin c \<and> cf_scrubber (apply_to p c) = cf_scrubber c \<and>
   ((\<forall>ch. pd_challenge p = Some ch \<longrightarrow> ch_secret ch = []) \<longrightarrow>
      ch_secret (cf_challenge (apply_to p c)) = ch_secret (cf_challenge c)) \<and>
   apply_to empty_policy c = c \<and> apply_to p (apply_to p c) = apply_to p c"
proof (intro conjI)
  show "(\<forall>ch. pd_challenge p = Some ch \<longrightarrow> ch_secret ch = []) \<longrightarrow>
      ch_secret (cf_challenge (apply_to p c)) = ch_secret (cf_challenge c)"
    by (simp add: apply_to_def overlay_challenge_def split: option.split)
  show "apply_to empty_policy c = c"
    by (simp add: apply_to_def empty_policy_def)
  show "apply_to p (apply_to p c) = apply_to p c"
    by (simp add: apply_to_def)
qed (simp_all add: apply_to_def)

theorem policy_scope_witness:
  "ch_secret (cf_challenge (apply_to (empty_policy\<lparr>pd_dry_run := Some True\<rparr>) zero_config)) = ch_secret (cf_challenge zero_config)"
  using policy_scope [of "empty_policy\<lparr>pd_dry_run := Some True\<rparr>" zero_config] by (simp add: empty_policy_def)

text \<open>The secret itself can be pushed, though: it is only kept when the policy leaves it empty.\<close>

lemma pushed_secret_wins:
  "pd_challenge p = Some ch \<Longrightarrow> ch_secret ch \<noteq> [] \<Longrightarrow> ch_secret (cf_challenge (apply_to p c)) = ch_secret ch"
  by (simp add: apply_to_def overlay_challenge_def)

end
