(* ===== verification/Fleet.thy ===== *)
theory Fleet
  imports License "HOL-Library.Multiset"
begin

text \<open>
  What the fleet blocklist and the audit trail of the license store promise: the list an agent is sent, its
  bound, the version that tells agents whether they are up to date, and the part of the history the
  audit trail keeps.
\<close>

section \<open>Adding and evicting\<close>

lemma fleet_add_lookup [simp]:
  "fmlookup (fst (fleet_add till ips m)) ip = (if ip \<in> set ips then Some till else fmlookup m ip)"
  by (induction till ips m rule: fleet_add.induct) (auto simp: case_prod_beta)

lemma fleet_add_changed: "snd (fleet_add till ips m) \<longleftrightarrow> (\<exists>ip\<in>set ips. fmlookup m ip = None)"
proof (induction till ips m rule: fleet_add.induct)
  case (2 till ip ips m)
  have "(\<exists>j\<in>set ips. fmlookup (fmupd ip till m) j = None) \<longleftrightarrow> (\<exists>j\<in>set ips. fmlookup m j = None)" if "fmlookup m ip \<noteq> None"
    using that by (metis fmupd_lookup option.distinct(1))
  then show ?case using 2 by (cases "fmlookup m ip") (simp_all add: case_prod_beta)
qed simp

lemma fleet_entries_set: "set (fleet_entries ord m) = {(ip, e). ip \<in> set ord \<and> fmlookup m ip = Some e}"
  by (induction ord) (auto simp: fleet_entries_def List.map_filter_simps split: option.splits)

lemma fleet_entries_fst:
  assumes "enumerates ord m"
  shows "map fst (fleet_entries ord m) = ord"
proof -
  have "map fst (fleet_entries xs m) = xs" if "\<forall>x\<in>set xs. fmlookup m x \<noteq> None" for xs
    using that by (induction xs) (auto simp: fleet_entries_def List.map_filter_simps)
  then show ?thesis using assms by (simp add: enumerates_iff)
qed

definition drop_all :: "('k \<times> 'v) list \<Rightarrow> ('k, 'v) fmap \<Rightarrow> ('k, 'v) fmap" where
  "drop_all kvs m = foldl (\<lambda>m kv. fmdrop (fst kv) m) m kvs"

lemma drop_all_lookup [simp]: "fmlookup (drop_all kvs m) k = (if k \<in> fst ` set kvs then None else fmlookup m k)"
  by (induction kvs arbitrary: m) (auto simp: drop_all_def)

lemma drop_all_len:
  assumes "distinct (map fst kvs)" "\<forall>kv\<in>set kvs. fmlookup m (fst kv) \<noteq> None"
  shows "gm_len (drop_all kvs m) = gm_len m - length kvs"
  using assms
proof (induction kvs arbitrary: m)
  case (Cons kv kvs)
  then have "gm_len (drop_all kvs (fmdrop (fst kv) m)) = gm_len (fmdrop (fst kv) m) - length kvs"
    by (intro Cons.IH) (auto simp: image_iff)
  then show ?case using Cons.prems by (auto simp: drop_all_def gm_len_drop)
qed (simp add: drop_all_def)

text \<open>The eviction keeps the \<open>cap\<close> entries that live longest.\<close>

lemma evict_fleet_spec:
  assumes "enumerates ord m" "0 < cap" "cap < int (gm_len m)"
  shows "int (gm_len (evict_fleet ord cap m)) = cap"
    and "fmlookup (evict_fleet ord cap m) ip = Some e \<Longrightarrow> fmlookup m ip = Some e"
    and "fmlookup (evict_fleet ord cap m) ip = Some e \<Longrightarrow> fmlookup m jp = Some f \<Longrightarrow>
      fmlookup (evict_fleet ord cap m) jp = None \<Longrightarrow> f \<le> e"
proof -
  define all where "all = sort_key snd (fleet_entries ord m)"
  define n where "n = nat (int (length all) - cap)"
  have ev: "evict_fleet ord cap m = drop_all (take n all) m"
    by (simp add: evict_fleet_def drop_all_def all_def n_def Let_def)
  have members: "(ip, e) \<in> set all \<longleftrightarrow> fmlookup m ip = Some e" for ip e
    using assms(1) by (auto simp: all_def fleet_entries_set enumerates_iff)
  have len: "length all = gm_len m"
    using arg_cong [OF fleet_entries_fst [OF assms(1)], of length] enumerates_length [OF assms(1)] by (simp add: all_def)
  have dist: "distinct (map fst all)"
  proof -
    have "mset (map fst all) = mset (map fst (fleet_entries ord m))" by (simp add: all_def)
    then have "mset (map fst all) = mset ord" by (simp only: fleet_entries_fst [OF assms(1)])
    then show ?thesis using assms(1) by (metis enumerates_def mset_eq_imp_distinct_iff)
  qed
  have "distinct (map fst (take n all))" using dist by (metis distinct_take take_map)
  then show "int (gm_len (evict_fleet ord cap m)) = cap"
    unfolding ev using assms(2,3) len members
    by (subst drop_all_len) (auto simp: n_def dest!: in_set_takeD)
  show "fmlookup (evict_fleet ord cap m) ip = Some e \<Longrightarrow> fmlookup m ip = Some e"
    by (simp add: ev split: if_splits)
  assume e: "fmlookup (evict_fleet ord cap m) ip = Some e" and f: "fmlookup m jp = Some f" "fmlookup (evict_fleet ord cap m) jp = None"
  have "(jp, f) \<in> set (take n all)"
  proof -
    obtain g where g: "(jp, g) \<in> set (take n all)" using f by (auto simp: ev split: if_splits)
    then have "fmlookup m jp = Some g" using members by (meson in_set_takeD)
    then show ?thesis using f g by simp
  qed
  moreover have "(ip, e) \<in> set (drop n all)"
  proof -
    have "(ip, e) \<in> set all" "ip \<notin> fst ` set (take n all)" using e members by (simp_all add: ev split: if_splits)
    then show ?thesis by (metis append_take_drop_id UnE fst_conv image_eqI set_append)
  qed
  moreover have "sorted (map snd (take n all) @ map snd (drop n all))"
    by (simp only: map_append [symmetric] append_take_drop_id) (simp add: all_def)
  ultimately show "f \<le> e" by (fastforce simp: sorted_append)
qed

definition fleet_of :: "license_store \<Rightarrow> (string, time) fmap" where
  "fleet_of s = dt_fleet (ls_data s)"

definition version_of :: "license_store \<Rightarrow> int" where
  "version_of s = dt_fleet_version (ls_data s)"

lemma add_fleet_bans_fleet:
  assumes "ips \<noteq> []"
  shows "fleet_of (snd (add_fleet_bans ord now ok ips ttl cap s)) =
     (let m = fst (fleet_add (now + ttl) ips (fleet_of s)) in if 0 < cap \<and> cap < int (gm_len m) then evict_fleet ord cap m else m)"
    and "version_of (snd (add_fleet_bans ord now ok ips ttl cap s)) = version_of s +
     (let m = fst (fleet_add (now + ttl) ips (fleet_of s)) in
       if (\<exists>ip\<in>set ips. fmlookup (fleet_of s) ip = None) \<or> 0 < cap \<and> cap < int (gm_len m) then 1 else 0)"
  using assms by (simp_all add: fleet_of_def version_of_def add_fleet_bans_def Let_def case_prod_beta fleet_add_changed)

lemma add_fleet_bans_Nil [simp]: "add_fleet_bans ord now ok [] ttl cap s = (False, s)"
  by (simp add: add_fleet_bans_def)

text \<open>
  A report of the agents enters the fleet blocklist without making it grow past its cap: afterwards the list
  has at most \<open>cap\<close> addresses, every address it gained was reported, and an address is only dropped for
  addresses that expire no earlier. Below the cap every reported address is listed with the full
  lifetime and nothing is dropped.
\<close>

theorem fleet_report_within_cap:
  fixes s ips and now ttl :: int
  defines "m \<equiv> fleet_of s" and "reported \<equiv> fst (fleet_add (now + ttl) ips (fleet_of s))"
  assumes "ips \<noteq> []" "0 < cap" "enumerates ord reported"
    and "m' = fleet_of (snd (add_fleet_bans ord now ok ips ttl cap s))"
  shows "int (gm_len m') \<le> cap \<and>
    (\<forall>ip e. fmlookup m' ip = Some e \<longrightarrow> (if ip \<in> set ips then e = now + ttl else fmlookup m ip = Some e)) \<and>
    (\<forall>ip e jp f. fmlookup m' ip = Some e \<and> fmlookup m jp = Some f \<and> fmlookup m' jp = None \<longrightarrow> jp \<in> set ips \<or> f \<le> e) \<and>
    (int (gm_len reported) \<le> cap \<longrightarrow> (\<forall>ip. fmlookup m' ip = (if ip \<in> set ips then Some (now + ttl) else fmlookup m ip)))"
proof (cases "cap < int (gm_len reported)")
  case True
  then have m': "m' = evict_fleet ord cap reported"
    using assms add_fleet_bans_fleet(1) [OF assms(3), of ord now ok ttl cap s] by simp
  have look: "fmlookup reported ip = (if ip \<in> set ips then Some (now + ttl) else fmlookup m ip)" for ip
    by (simp add: reported_def m_def)
  note spec = evict_fleet_spec [OF assms(5,4) True, folded m']
  have "fmlookup m' ip = Some e \<longrightarrow> (if ip \<in> set ips then e = now + ttl else fmlookup m ip = Some e)" for ip e
    using spec(2) [of ip e] look [of ip] by auto
  moreover have "jp \<in> set ips \<or> f \<le> e"
    if "fmlookup m' ip = Some e" "fmlookup m jp = Some f" "fmlookup m' jp = None" for ip e jp f
    using spec(3) [of ip e jp f] that look [of jp] by (cases "jp \<in> set ips") auto
  ultimately show ?thesis using spec(1) True by (intro conjI allI impI) (simp, simp, blast, simp)
next
  case False
  then have m': "m' = reported"
    using assms add_fleet_bans_fleet(1) [OF assms(3), of ord now ok ttl cap s] by simp
  have look: "fmlookup m' ip = (if ip \<in> set ips then Some (now + ttl) else fmlookup m ip)" for ip
    by (simp add: m' reported_def m_def)
  show ?thesis using False by (auto simp: look) (simp add: m')
qed

theorem fleet_report_within_cap_witness:
  "int (gm_len (fleet_of (snd (add_fleet_bans [''b'', ''a''] 5 True [''b''] 10 1
      (example_license\<lparr>ls_data := empty_data\<lparr>dt_fleet := fmupd ''a'' 7 fmempty\<rparr>\<rparr>))))) \<le> 1"
  by (rule fleet_report_within_cap [THEN conjunct1])
    (auto simp: fleet_of_def enumerates_iff)

section \<open>What the agents are sent\<close>

lemma fleet_blocklist_spec:
  assumes "enumerates ord (fleet_of s)" "fleet_blocklist ord now ok s = ((ips, ver), s')"
  shows "sorted ips \<and> distinct ips \<and> set ips = {ip. \<exists>e. fmlookup (fleet_of s) ip = Some e \<and> now < e} \<and>
    set ips = fmdom' (fleet_of s') \<and> ver = version_of s' \<and>
    version_of s' = version_of s + (if fmdom' (fleet_of s') = fmdom' (fleet_of s) then 0 else 1)"
proof -
  let ?live = "fmfilter (\<lambda>ip. case fmlookup (fleet_of s) ip of Some e \<Rightarrow> now < e | None \<Rightarrow> False) (fleet_of s)"
  let ?in = "\<lambda>ip. \<exists>e. fmlookup (fleet_of s) ip = Some e \<and> now < e"
  have live: "fmlookup ?live ip = (if ?in ip then fmlookup (fleet_of s) ip else None)" for ip
    by (simp split: option.split)
  have ord: "ip \<in> set ord \<longleftrightarrow> fmlookup (fleet_of s) ip \<noteq> None" "distinct ord" for ip
    using assms(1) by (simp_all add: enumerates_iff)
  have s': "fleet_of s' = ?live" "ver = version_of s'"
    "version_of s' = version_of s + (if \<exists>ip\<in>set ord. fmlookup ?live ip = None then 1 else 0)"
    "ips = sort (filter (\<lambda>ip. fmlookup ?live ip \<noteq> None) ord)"
    using assms(2) unfolding fleet_of_def version_of_def fleet_blocklist_def Let_def by auto
  have ips: "set ips = {ip. ?in ip}"
    unfolding s'(4) live by (auto simp: ord(1))
  moreover have dom: "fmdom' (fleet_of s') = {ip. ?in ip}"
    unfolding s'(1) set_eq_iff mem_Collect_eq by (metis (no_types, lifting) fmdom'I fmdom'_notI live not_Some_eq)
  moreover have "(\<exists>ip\<in>set ord. fmlookup ?live ip = None) \<longleftrightarrow> fmdom' (fleet_of s') \<noteq> fmdom' (fleet_of s)"
  proof -
    have "fmdom' (fleet_of s) = set ord" using enumerates_set [OF assms(1)] by simp
    then show ?thesis unfolding dom live by (auto simp: ord(1))
  qed
  ultimately show ?thesis using s' ord(2) by simp
qed

text \<open>
  The list sent to the agents is exactly what is in force: \<open>FleetBlocklist\<close> returns, sorted and without
  duplicates, the addresses whose ban has not expired, forgets the others, and moves the version exactly
  when it has forgotten one.
\<close>

theorem fleet_blocklist_exact:
  assumes "enumerates ord (fleet_of s)" "fleet_blocklist ord now ok s = ((ips, ver), s')"
  shows "sorted ips \<and> distinct ips \<and> set ips = {ip. \<exists>e. fmlookup (fleet_of s) ip = Some e \<and> now < e} \<and>
    set ips = fmdom' (fleet_of s') \<and> ver = version_of s' \<and>
    version_of s' = version_of s + (if fmdom' (fleet_of s') = fmdom' (fleet_of s) then 0 else 1)"
  by (rule fleet_blocklist_spec [OF assms])

theorem fleet_blocklist_exact_witness:
  "sorted (fst (fst (fleet_blocklist [''b'', ''a''] 6 True
      (example_license\<lparr>ls_data := empty_data\<lparr>dt_fleet := fmupd ''a'' 7 (fmupd ''b'' 5 fmempty)\<rparr>\<rparr>))))"
  by (rule fleet_blocklist_exact [THEN conjunct1])
    (auto simp: fleet_of_def enumerates_iff prod_eq_iff)

section \<open>The version over a run\<close>

lemma fleet_unchanged [simp]:
  "fleet_of (snd (generate r24 r5 now ok name memo s)) = fleet_of s"
  "fleet_of (snd (revoke kid now ok s)) = fleet_of s"
  "fleet_of (snd (record_heartbeat kid st now ok s)) = fleet_of s"
  "fleet_of (snd (set_policy kid doc ok s)) = fleet_of s"
  "fleet_of (audit action target src now ok s) = fleet_of s"
  "version_of (snd (generate r24 r5 now ok name memo s)) = version_of s"
  "version_of (snd (revoke kid now ok s)) = version_of s"
  "version_of (snd (record_heartbeat kid st now ok s)) = version_of s"
  "version_of (snd (set_policy kid doc ok s)) = version_of s"
  "version_of (audit action target src now ok s) = version_of s"
  by (simp_all add: fleet_of_def version_of_def generate_def revoke_def record_heartbeat_def set_policy_def audit_def
      Let_def case_prod_beta split: option.split)

fun is_restart :: "license_call \<Rightarrow> bool" where
  "is_restart (LRestart ord ok) = True"
| "is_restart c = False"

definition restart_free :: "license_call list \<Rightarrow> bool" where
  "restart_free cs \<longleftrightarrow> list_all (\<lambda>c. \<not> is_restart c) cs"

lemma restart_free_simps [simp]:
  "restart_free []" "restart_free (c # cs) \<longleftrightarrow> \<not> is_restart c \<and> restart_free cs"
  by (simp_all add: restart_free_def)

text \<open>The orders of the ranges over the blocklist are enumerations of it.\<close>

fun fleet_legal :: "license_store \<Rightarrow> license_call \<Rightarrow> bool" where
  "fleet_legal s (LFleetAdd ord now ok ips ttl cap) \<longleftrightarrow> enumerates ord (fst (fleet_add (now + ttl) ips (fleet_of s)))"
| "fleet_legal s (LFleetList ord now ok) \<longleftrightarrow> enumerates ord (fleet_of s)"
| "fleet_legal s c \<longleftrightarrow> True"

text \<open>One step either moves the version, or keeps it and the set.\<close>

lemma fleet_step:
  assumes "fleet_legal s c" "\<not> is_restart c"
  shows "version_of s < version_of (license_step c s) \<or>
    version_of (license_step c s) = version_of s \<and> fmdom' (fleet_of (license_step c s)) = fmdom' (fleet_of s)"
proof (cases c)
  case (LFleetAdd ord now ok ips ttl cap)
  let ?m = "fst (fleet_add (now + ttl) ips (fleet_of s))"
  show ?thesis
  proof (cases "ips = [] \<or> (\<exists>ip\<in>set ips. fmlookup (fleet_of s) ip = None) \<or> 0 < cap \<and> cap < int (gm_len ?m)")
    case True
    then show ?thesis using add_fleet_bans_fleet(2) [of ips ord now ok ttl cap s] LFleetAdd by (cases "ips = []") auto
  next
    case False
    have "fmdom' ?m = fmdom' (fleet_of s)"
      using False by (intro set_eqI) (auto simp: fmlookup_dom'_iff)
    then show ?thesis using False add_fleet_bans_fleet [of ips ord now ok ttl cap s] LFleetAdd by auto
  qed
next
  case (LFleetList ord now ok)
  then show ?thesis
    using assms(1) fleet_blocklist_spec [of ord s now ok "fst (fst (fleet_blocklist ord now ok s))" _ "license_step c s"]
    by (auto simp: prod_eq_iff)
qed (use assms(2) in simp_all)

lemma version_order:
  "(v :: int) < v1 \<or> v1 = v \<and> d1 = d \<Longrightarrow> v1 \<le> v2 \<and> (v2 = v1 \<longrightarrow> d2 = d1) \<Longrightarrow> v \<le> v2 \<and> (v2 = v \<longrightarrow> d2 = d)"
  by auto



section \<open>The audit trail\<close>

text \<open>The entries a run adds.\<close>

fun audited :: "license_call \<Rightarrow> audit_entry list" where
  "audited (LAudit action target src now ok) =
     [\<lparr>au_time = now, au_action = action, au_target = target, au_source_ip = src\<rparr>]"
| "audited c = []"

lemma audit_kept:
  assumes "\<not> is_restart c"
  shows "dt_audit (ls_data (license_step c s)) =
    (let l = dt_audit (ls_data s) @ audited c in if audited c = [] then l else drop (length l - audit_cap) l)"
  using assms
  by (cases c) (simp_all add: generate_def revoke_def record_heartbeat_def set_policy_def add_fleet_bans_def
      fleet_blocklist_def audit_def Let_def case_prod_beta split: option.split)

lemma drop_last_append:
  "drop (length (drop (length l - k) l @ r) - k) (drop (length l - k) l @ r) = drop (length (l @ r) - k) (l @ r)"
  by (cases "length l \<le> k") (auto simp: drop_append add.commute)

text \<open>
  The audit trail is the recent history of administration: after any run without a restart, starting
  from an empty trail, the log shows exactly the last 500 recorded actions, the newest first; nothing
  else removes or reorders an entry.
\<close>

theorem audit_log_is_recent_history:
  assumes "restart_free cs" "audit_log s = []"
  shows "audit_log (go_run license_step cs s) = take 500 (rev (concat (map audited cs)))"
proof -
  have "dt_audit (ls_data (go_run license_step cs s)) =
      (let l = dt_audit (ls_data s) @ concat (map audited cs) in drop (length l - audit_cap) l)"
    if "length (dt_audit (ls_data s)) \<le> audit_cap" for s
    using assms(1) that
  proof (induction cs arbitrary: s)
    case (Cons c cs)
    let ?l = "dt_audit (ls_data s)"
    have c: "dt_audit (ls_data (license_step c s)) = drop (length (?l @ audited c) - audit_cap) (?l @ audited c)"
      using Cons.prems audit_kept [of c s] by (auto simp: Let_def)
    have "dt_audit (ls_data (go_run license_step cs (license_step c s))) =
      (let l = dt_audit (ls_data (license_step c s)) @ concat (map audited cs) in drop (length l - audit_cap) l)"
      using Cons.prems c by (intro Cons.IH) simp_all
    then show ?case
      unfolding c Let_def using drop_last_append [of "?l @ audited c" audit_cap "concat (map audited cs)"]
      by (simp del: drop_append length_append)
  qed (simp add: Let_def)
  then show ?thesis using assms(2) by (simp add: audit_log_def Let_def take_rev audit_cap_def)
qed

theorem audit_log_is_recent_history_witness:
  "audit_log (go_run license_step [LAudit ''login.ok'' [] ''10.0.0.1'' 5 True, LRevoke ''k_02'' 6 True,
      LAudit ''key.revoke'' ''k_02'' ''10.0.0.1'' 7 False] example_license) =
    take 500 (rev (concat (map audited [LAudit ''login.ok'' [] ''10.0.0.1'' 5 True, LRevoke ''k_02'' 6 True,
      LAudit ''key.revoke'' ''k_02'' ''10.0.0.1'' 7 False])))"
  by (rule audit_log_is_recent_history) (auto simp: audit_log_def example_license_eq empty_data_def)

end
