(* ===== verification/Server.thy ===== *)
theory Server
  imports Fleet Ratelimit Go_Http
begin

text \<open>
  \<^verbatim>\<open>cmd/aggershield-server/main.go\<close>: the control plane. One request is one call of \<open>serve_http\<close>, which
  dispatches as the mux of \<open>main\<close> does and runs the handler with its middleware. The calls a handler makes
  to the license store follow one another without another request in between; the store itself is safe
  under any interleaving (theory Fleet). \<open>server_env\<close> is what the environment gives to one request: clock
  readings, orders of map ranges, random bytes, outcomes of saves, and the decoded bodies.
\<close>

section \<open>State and messages\<close>

record server =
  sv_store :: license_store
  sv_admin_token :: string
  sv_limiter :: per_ip
  sv_login_limiter :: per_ip
  sv_session_secret :: "byte list"
  sv_session_ttl :: duration
  sv_fleet_ttl :: duration
  sv_fleet_max :: int

text \<open>The part of \<open>main\<close> that builds the server; \<open>None\<close> is the exit without an admin token.\<close>

definition new_server :: "string \<Rightarrow> byte list \<Rightarrow> real \<Rightarrow> real \<Rightarrow> duration \<Rightarrow> int \<Rightarrow> license_store \<Rightarrow> server option" where
  "new_server token secret rps burst fleet_ttl fleet_max st =
     (if token = [] then None
      else Some \<lparr>sv_store = st, sv_admin_token = token, sv_limiter = new_per_ip rps burst 100000,
        sv_login_limiter = new_per_ip (1 / 2) 5 100000, sv_session_secret = secret, sv_session_ttl = 12 * hour,
        sv_fleet_ttl = fleet_ttl, sv_fleet_max = fleet_max\<rparr>)"

record validate_resp =
  vr_valid :: bool
  vr_key_id :: string
  vr_name :: string
  vr_reason :: string
  vr_policy_version :: int
  vr_policy :: "policy_doc option"

record heartbeat_req =
  hb_hostname :: string
  hb_version :: string
  hb_protecting :: string
  hb_reported_ip :: string
  hb_policy_version :: int
  hb_stats :: "(string, int) fmap"
  hb_recent_bans :: "string list"
  hb_blocklist_version :: int

record heartbeat_resp =
  hr_licensed :: bool
  hr_reason :: string
  hr_policy_version :: int
  hr_policy :: "policy_doc option"
  hr_blocklist_version :: int
  hr_blocklist :: "string list option"

record row_view =
  rv_key :: key
  rv_agent :: "agent_status option"
  rv_stale :: bool
  rv_policy_version :: int
  rv_policy :: "policy_doc option"

record dashboard =
  db_rows :: "row_view list"
  db_new_key :: string
  db_new_key_name :: string
  db_audit :: "audit_entry list"

text \<open>The \<open>Set-Cookie\<close> headers: value, \<open>Secure\<close> and \<open>MaxAge\<close> of a session, or its removal.\<close>

datatype set_cookie = SessionCookie string bool int | ClearCookie

datatype reply =
  ValidateReply int validate_resp
| HeartbeatReply int heartbeat_resp
| KeysReply "key list"
| AgentsReply "agent_status list"
| AuditReply "audit_entry list"
| DashboardReply dashboard
| LoginPage
| RedirectReply string "set_cookie option"
| TextReply string
| ErrorReply int string
| NoHandler

record server_env =
  se_now_limit :: time
  se_ord_limit :: "string list"
  se_now_session :: time
  se_now :: time
  se_now_audit :: time
  se_ord_keys :: "string list"
  se_ord_add :: "string list"
  se_ord_list :: "string list"
  se_rand24 :: "byte list"
  se_rand5 :: "byte list"
  se_ok_change :: bool
  se_ok_fleet :: bool
  se_ok_sweep :: bool
  se_ok_audit :: bool
  se_body :: heartbeat_req
  se_decode_policy :: "string \<Rightarrow> policy_doc option"

definition server_host_of :: "string \<Rightarrow> string" where
  "server_host_of addr = (case split_host_port addr of Some (h, _) \<Rightarrow> h | None \<Rightarrow> addr)"

section \<open>The agent API\<close>

definition header_key :: string where "header_key = ''X-AggerShield-Key''"
definition header_admin :: string where "header_admin = ''X-AggerShield-Admin''"

definition validate_denied :: validate_resp where
  "validate_denied = \<lparr>vr_valid = False, vr_key_id = [], vr_name = [], vr_reason = ''invalid or revoked key'',
     vr_policy_version = 0, vr_policy = None\<rparr>"

definition heartbeat_denied :: heartbeat_resp where
  "heartbeat_denied = \<lparr>hr_licensed = False, hr_reason = ''invalid or revoked key'', hr_policy_version = 0,
     hr_policy = None, hr_blocklist_version = 0, hr_blocklist = None\<rparr>"

definition handle_validate :: "server_env \<Rightarrow> http_request \<Rightarrow> server \<Rightarrow> reply \<times> server" where
  "handle_validate env r s =
     (case validate_key (rq_header r header_key) (sv_store s) of
        (Some k, True) \<Rightarrow>
          let (doc, ver) = policy_of (ky_id k) (sv_store s)
          in (ValidateReply status_ok \<lparr>vr_valid = True, vr_key_id = ky_id k, vr_name = ky_name k, vr_reason = [],
               vr_policy_version = ver, vr_policy = doc\<rparr>, s)
      | _ \<Rightarrow> (ValidateReply status_unauthorized validate_denied, s))"

definition status_of :: "http_request \<Rightarrow> heartbeat_req \<Rightarrow> agent_status" where
  "status_of r req = \<lparr>as_key_id = [], as_hostname = hb_hostname req, as_version = hb_version req,
     as_protecting = hb_protecting req, as_source_ip = server_host_of (rq_remote_addr r),
     as_reported_ip = hb_reported_ip req, as_first_seen = zero_time, as_last_seen = zero_time, as_stats = hb_stats req\<rparr>"

definition heartbeat_answer :: "heartbeat_req \<Rightarrow> policy_doc option \<times> int \<Rightarrow> string list \<times> int \<Rightarrow> heartbeat_resp" where
  "heartbeat_answer req pol list =
     (let resp = \<lparr>hr_licensed = True, hr_reason = [], hr_policy_version = 0, hr_policy = None,
            hr_blocklist_version = 0, hr_blocklist = None\<rparr>;
          resp = (if snd pol \<noteq> hb_policy_version req
                  then resp\<lparr>hr_policy_version := snd pol, hr_policy := fst pol\<rparr> else resp)
      in if snd list \<noteq> hb_blocklist_version req
         then resp\<lparr>hr_blocklist_version := snd list, hr_blocklist := Some (fst list)\<rparr> else resp)"

definition handle_heartbeat :: "server_env \<Rightarrow> http_request \<Rightarrow> server \<Rightarrow> reply \<times> server" where
  "handle_heartbeat env r s =
     (case validate_key (rq_header r header_key) (sv_store s) of
        (Some k, True) \<Rightarrow>
          let req = se_body env;
              st = snd (record_heartbeat (ky_id k) (status_of r req) (se_now env) (se_ok_change env) (sv_store s));
              st = (if hb_recent_bans req \<noteq> []
                    then snd (add_fleet_bans (se_ord_add env) (se_now env) (se_ok_fleet env) (hb_recent_bans req)
                           (sv_fleet_ttl s) (sv_fleet_max s) st) else st);
              pol = policy_of (ky_id k) st;
              (list, st) = fleet_blocklist (se_ord_list env) (se_now env) (se_ok_sweep env) st
          in (HeartbeatReply status_ok (heartbeat_answer req pol list), s\<lparr>sv_store := st\<rparr>)
      | _ \<Rightarrow> (HeartbeatReply status_unauthorized heartbeat_denied, s))"

section \<open>Sessions\<close>

definition session_cookie :: string where "session_cookie = ''ags_session''"

definition session_mac :: "server \<Rightarrow> string \<Rightarrow> string" where
  "session_mac s till = hex_of (hmac_sha256 (sv_session_secret s) (bytes_of till))"

definition issue_session :: "time \<Rightarrow> server \<Rightarrow> string" where
  "issue_session now s =
     (let till = itoa (to_unix (now + sv_session_ttl s)) in till @ ''.'' @ session_mac s till)"

definition valid_session :: "time \<Rightarrow> http_request \<Rightarrow> server \<Rightarrow> bool" where
  "valid_session now r s =
     (case rq_cookie r session_cookie of
        None \<Rightarrow> False
      | Some v \<Rightarrow>
          (case cut (CHR ''.'') v of
             None \<Rightarrow> False
           | Some (till, sig) \<Rightarrow>
               sig = session_mac s till \<and>
               (case parse_int till of None \<Rightarrow> False | Some ts \<Rightarrow> to_unix now < ts)))"

section \<open>The admin interface\<close>

definition add_audit :: "server_env \<Rightarrow> http_request \<Rightarrow> string \<Rightarrow> string \<Rightarrow> server \<Rightarrow> server" where
  "add_audit env r action target s =
     s\<lparr>sv_store := audit action target (server_host_of (rq_remote_addr r)) (se_now_audit env) (se_ok_audit env) (sv_store s)\<rparr>"

definition row_of :: "server_env \<Rightarrow> license_store \<Rightarrow> key \<Rightarrow> row_view" where
  "row_of env st k =
     (let a = agent_of (ky_id k) st; (doc, ver) = policy_of (ky_id k) st
      in \<lparr>rv_key = k, rv_agent = a,
          rv_stale = (case a of None \<Rightarrow> False | Some a \<Rightarrow> 2 * minute < time_sub (se_now env) (as_last_seen a)),
          rv_policy_version = ver, rv_policy = doc\<rparr>)"

definition render :: "server_env \<Rightarrow> string \<Rightarrow> string \<Rightarrow> server \<Rightarrow> reply" where
  "render env new_key new_key_name s =
     DashboardReply \<lparr>db_rows = map (row_of env (sv_store s)) (all_keys (se_ord_keys env) (sv_store s)),
       db_new_key = new_key, db_new_key_name = new_key_name, db_audit = take 20 (audit_log (sv_store s))\<rparr>"

definition handle_dashboard :: "server_env \<Rightarrow> http_request \<Rightarrow> server \<Rightarrow> reply \<times> server" where
  "handle_dashboard env r s = (render env [] [] s, s)"

definition handle_generate :: "server_env \<Rightarrow> http_request \<Rightarrow> server \<Rightarrow> reply \<times> server" where
  "handle_generate env r s =
     (let name = rq_form r ''name''
      in if name = [] then (ErrorReply status_bad_request ''name is required'', s)
      else
        let ((plaintext, k, err), st) =
              generate (se_rand24 env) (se_rand5 env) (se_now env) (se_ok_change env) name (rq_form r ''note'') (sv_store s);
            s = s\<lparr>sv_store := st\<rparr>
        in if err then (ErrorReply status_internal_server_error ''save'', s)
           else let s = add_audit env r ''key.generate'' (ky_id k @ '' ('' @ name @ '')'') s
                in (render env plaintext name s, s))"

definition handle_revoke :: "server_env \<Rightarrow> http_request \<Rightarrow> server \<Rightarrow> reply \<times> server" where
  "handle_revoke env r s =
     (let kid = rq_form r ''id'';
          ((found, err), st) = revoke kid (se_now env) (se_ok_change env) (sv_store s);
          s = s\<lparr>sv_store := st\<rparr>
      in if err then (ErrorReply status_internal_server_error ''save'', s)
         else (RedirectReply ''/admin'' None, add_audit env r ''key.revoke'' kid s))"

definition handle_set_policy :: "server_env \<Rightarrow> http_request \<Rightarrow> server \<Rightarrow> reply \<times> server" where
  "handle_set_policy env r s =
     (let kid = rq_form r ''id''; raw = trim_space (rq_form r ''policy'')
      in if kid = [] then (ErrorReply status_bad_request ''missing key id'', s)
      else
        (case (if raw = [] then Some empty_policy else se_decode_policy env raw) of
           None \<Rightarrow> (ErrorReply status_bad_request ''invalid policy JSON'', s)
         | Some doc \<Rightarrow>
             let ((ver, err), st) = set_policy kid doc (se_ok_change env) (sv_store s);
                 s = s\<lparr>sv_store := st\<rparr>
             in if err then (ErrorReply status_internal_server_error ''save'', s)
                else (RedirectReply ''/admin'' None, add_audit env r ''policy.set'' kid s)))"

definition handle_keys_json :: "server_env \<Rightarrow> http_request \<Rightarrow> server \<Rightarrow> reply \<times> server" where
  "handle_keys_json env r s = (KeysReply (all_keys (se_ord_keys env) (sv_store s)), s)"

definition handle_audit_json :: "server_env \<Rightarrow> http_request \<Rightarrow> server \<Rightarrow> reply \<times> server" where
  "handle_audit_json env r s = (AuditReply (audit_log (sv_store s)), s)"

definition handle_agents_json :: "server_env \<Rightarrow> http_request \<Rightarrow> server \<Rightarrow> reply \<times> server" where
  "handle_agents_json env r s =
     (AgentsReply (List.map_filter (\<lambda>k. agent_of (ky_id k) (sv_store s)) (all_keys (se_ord_keys env) (sv_store s))), s)"

definition handle_login_get :: "server_env \<Rightarrow> http_request \<Rightarrow> server \<Rightarrow> reply \<times> server" where
  "handle_login_get env r s =
     (if valid_session (se_now_session env) r s then (RedirectReply ''/admin'' None, s) else (LoginPage, s))"

definition handle_login_post :: "server_env \<Rightarrow> http_request \<Rightarrow> server \<Rightarrow> reply \<times> server" where
  "handle_login_post env r s =
     (let (ok, l) = per_ip_allow (se_ord_limit env) (se_now_limit env) (server_host_of (rq_remote_addr r)) (sv_login_limiter s);
          s = s\<lparr>sv_login_limiter := l\<rparr>
      in if \<not> ok then (ErrorReply status_too_many_requests ''too many login attempts'', s)
         else if rq_form r ''token'' \<noteq> sv_admin_token s
         then (ErrorReply status_unauthorized ''invalid token'', add_audit env r ''login.fail'' [] s)
         else (RedirectReply ''/admin'' (Some (SessionCookie (issue_session (se_now env) s) (rq_tls r)
                 (trunc (dur_seconds (sv_session_ttl s))))),
               add_audit env r ''login.ok'' [] s))"

definition handle_logout :: "server_env \<Rightarrow> http_request \<Rightarrow> server \<Rightarrow> reply \<times> server" where
  "handle_logout env r s = (RedirectReply ''/admin/login'' (Some ClearCookie), s)"

section \<open>Middleware and dispatch\<close>

type_synonym handler = "server_env \<Rightarrow> http_request \<Rightarrow> server \<Rightarrow> reply \<times> server"

definition admin_html :: "handler \<Rightarrow> handler" where
  "admin_html h env r s =
     (if valid_session (se_now_session env) r s then h env r s else (RedirectReply ''/admin/login'' None, s))"

definition rate_limited :: "handler \<Rightarrow> handler" where
  "rate_limited h env r s =
     (let (ok, l) = per_ip_allow (se_ord_limit env) (se_now_limit env) (server_host_of (rq_remote_addr r)) (sv_limiter s);
          s = s\<lparr>sv_limiter := l\<rparr>
      in if ok then h env r s else (ErrorReply status_too_many_requests ''rate limited'', s))"

definition admin_json :: "handler \<Rightarrow> handler" where
  "admin_json h env r s =
     (if rq_header r header_admin = sv_admin_token s then h env r s else (ErrorReply status_unauthorized ''unauthorized'', s))"

definition gauge_line :: "string \<Rightarrow> nat \<Rightarrow> string" where
  "gauge_line name n = ''# TYPE '' @ name @ '' gauge'' @ [CHR 0x0A] @ name @ '' '' @ itoa (int n) @ [CHR 0x0A]"

definition handle_metrics :: "server_env \<Rightarrow> http_request \<Rightarrow> server \<Rightarrow> reply \<times> server" where
  "handle_metrics env r s =
     (let ks = all_keys (se_ord_keys env) (sv_store s)
      in (TextReply (gauge_line ''aggershield_license_keys_total'' (length ks) @
            gauge_line ''aggershield_license_keys_revoked'' (length (filter ky_revoked ks)) @
            gauge_line ''aggershield_license_agents_total''
              (length (filter (\<lambda>k. agent_of (ky_id k) (sv_store s) \<noteq> None) ks))), s))"

definition healthz :: "server_env \<Rightarrow> http_request \<Rightarrow> server \<Rightarrow> reply \<times> server" where
  "healthz env r s = (TextReply ''ok'', s)"

text \<open>
  The routes of \<open>main\<close>; a pattern for GET also serves HEAD. \<open>NoHandler\<close> stands for what the mux answers by
  itself: 404, 405, or the redirect to a cleaned path.
\<close>

definition routes :: "(string \<times> string \<times> handler) list" where
  "routes =
     [(''POST'', ''/api/v1/validate'', rate_limited handle_validate),
      (''POST'', ''/api/v1/heartbeat'', rate_limited handle_heartbeat),
      (''GET'', ''/api/v1/admin/keys'', admin_json handle_keys_json),
      (''GET'', ''/api/v1/admin/agents'', admin_json handle_agents_json),
      (''GET'', ''/api/v1/admin/audit'', admin_json handle_audit_json),
      (''GET'', ''/admin/login'', handle_login_get),
      (''POST'', ''/admin/login'', handle_login_post),
      (''POST'', ''/admin/logout'', handle_logout),
      (''GET'', ''/admin'', admin_html handle_dashboard),
      (''POST'', ''/admin/keys'', admin_html handle_generate),
      (''POST'', ''/admin/keys/revoke'', admin_html handle_revoke),
      (''POST'', ''/admin/keys/policy'', admin_html handle_set_policy),
      (''GET'', ''/healthz'', healthz),
      (''GET'', ''/metrics'', handle_metrics)]"

definition pattern_matches :: "http_request \<Rightarrow> string \<times> string \<times> handler \<Rightarrow> bool" where
  "pattern_matches r p \<longleftrightarrow> rq_path r = fst (snd p) \<and> (rq_method r = fst p \<or> fst p = ''GET'' \<and> rq_method r = ''HEAD'')"

definition route :: "http_request \<Rightarrow> handler option" where
  "route r = map_option (\<lambda>p. snd (snd p)) (List.find (pattern_matches r) routes)"

definition serve_http :: handler where
  "serve_http env r s = (case route r of None \<Rightarrow> (NoHandler, s) | Some h \<Rightarrow> h env r s)"

lemma route_Some: "route r = Some h \<Longrightarrow> \<exists>p\<in>set routes. pattern_matches r p \<and> h = snd (snd p)"
proof -
  assume "route r = Some h"
  then obtain p where p: "List.find (pattern_matches r) routes = Some p" "h = snd (snd p)" by (auto simp: route_def)
  from p(1) have "p \<in> set routes \<and> pattern_matches r p" by (auto simp: find_Some_iff)
  then show ?thesis using p(2) by blast
qed

section \<open>Session cookies\<close>

lemma valid_session_iff:
  "valid_session now r s \<longleftrightarrow>
    (\<exists>till ts. CHR ''.'' \<notin> set till \<and> rq_cookie r session_cookie = Some (till @ ''.'' @ session_mac s till) \<and>
       parse_int till = Some ts \<and> to_unix now < ts)" (is "?l \<longleftrightarrow> ?r")
proof
  assume ?l
  then obtain v till sig ts where v: "rq_cookie r session_cookie = Some v" "cut (CHR ''.'') v = Some (till, sig)"
    "sig = session_mac s till" "parse_int till = Some ts" "to_unix now < ts"
    by (auto simp: valid_session_def split: option.splits)
  moreover have "v = till @ CHR ''.'' # sig \<and> CHR ''.'' \<notin> set till" using v(2) by (rule cut_Some)
  ultimately show ?r by auto
qed (auto simp: valid_session_def cut_append)

text \<open>
  A session is worth what it says: the cookie set by a login opens the dashboard until the second it
  names and not after it, and any accepted cookie carries the signature of the server over its own expiry.
\<close>

theorem session_lasts_its_ttl:
  assumes "- (2 ^ 63) \<le> to_unix (login + sv_session_ttl s)" "to_unix (login + sv_session_ttl s) < 2 ^ 63"
  shows "(rq_cookie r session_cookie = Some (issue_session login s) \<longrightarrow>
      (valid_session now r s \<longleftrightarrow> to_unix now < to_unix (login + sv_session_ttl s))) \<and>
    (valid_session now r s \<longrightarrow> (\<exists>till ts. rq_cookie r session_cookie = Some (till @ ''.'' @ session_mac s till) \<and>
      parse_int till = Some ts \<and> to_unix now < ts))"
proof (intro conjI impI)
  assume c: "rq_cookie r session_cookie = Some (issue_session login s)"
  let ?till = "itoa (to_unix (login + sv_session_ttl s))"
  have "cut (CHR ''.'') (?till @ CHR ''.'' # session_mac s ?till) = Some (?till, session_mac s ?till)"
    by (rule cut_append) (rule itoa_no_dot)
  then show "valid_session now r s \<longleftrightarrow> to_unix now < to_unix (login + sv_session_ttl s)"
    using c parse_int_itoa [OF assms] by (simp add: valid_session_def issue_session_def Let_def)
qed (auto simp: valid_session_iff)

definition example_server :: server where
  "example_server = \<lparr>sv_store = example_license, sv_admin_token = ''s3cret'', sv_limiter = new_per_ip 10 20 100000,
     sv_login_limiter = new_per_ip (1 / 2) 5 100000, sv_session_secret = [1, 2, 3], sv_session_ttl = 12 * hour,
     sv_fleet_ttl = hour, sv_fleet_max = 10000\<rparr>"

definition example_server_env :: server_env where
  "example_server_env = \<lparr>se_now_limit = 0, se_ord_limit = [], se_now_session = 0, se_now = 0, se_now_audit = 0,
     se_ord_keys = [''k_02''], se_ord_add = [], se_ord_list = [], se_rand24 = [3], se_rand5 = [3], se_ok_change = True,
     se_ok_fleet = True, se_ok_sweep = True, se_ok_audit = True,
     se_body = \<lparr>hb_hostname = ''web1'', hb_version = ''0.1.0'', hb_protecting = ''shop'', hb_reported_ip = [],
       hb_policy_version = 0, hb_stats = fmempty, hb_recent_bans = [], hb_blocklist_version = 0\<rparr>,
     se_decode_policy = (\<lambda>_. None)\<rparr>"

theorem session_lasts_its_ttl_witness:
  "\<not> valid_session (12 * hour) (blank_request\<lparr>rq_cookie := (\<lambda>n. Some (issue_session 0 example_server))\<rparr>) example_server"
  using session_lasts_its_ttl [of 0 example_server "blank_request\<lparr>rq_cookie := (\<lambda>n. Some (issue_session 0 example_server))\<rparr>" "12 * hour"]
  by (simp add: example_server_def hour_def minute_def second_def to_unix_def)

section \<open>Authorisation\<close>

text \<open>What a reply shows of the administration.\<close>

fun reveals :: "reply \<Rightarrow> bool" where
  "reveals (KeysReply ks) = True"
| "reveals (AgentsReply as) = True"
| "reveals (AuditReply es) = True"
| "reveals (DashboardReply d) = True"
| "reveals _ = False"

definition admin_state :: "server \<Rightarrow> (string, key) fmap \<times> (string, string) fmap \<times> (string, policy_record) fmap" where
  "admin_state s = (dt_keys (ls_data (sv_store s)), ls_by_hash (sv_store s), dt_policies (ls_data (sv_store s)))"

lemma store_admin_simps [simp]:
  "dt_policies (ls_data (snd (record_heartbeat kid st now ok ls))) = dt_policies (ls_data ls)"
  "dt_policies (ls_data (snd (add_fleet_bans ord now ok ips ttl cap ls))) = dt_policies (ls_data ls)"
  "dt_policies (ls_data (snd (fleet_blocklist ord now ok ls))) = dt_policies (ls_data ls)"
  "dt_policies (ls_data (audit action target src now ok ls)) = dt_policies (ls_data ls)"
  "dt_keys (ls_data (snd (record_heartbeat kid st now ok ls))) = dt_keys (ls_data ls)"
  "dt_keys (ls_data (snd (add_fleet_bans ord now ok ips ttl cap ls))) = dt_keys (ls_data ls)"
  "dt_keys (ls_data (snd (fleet_blocklist ord now ok ls))) = dt_keys (ls_data ls)"
  "dt_keys (ls_data (audit action target src now ok ls)) = dt_keys (ls_data ls)"
  "ls_by_hash (snd (record_heartbeat kid st now ok ls)) = ls_by_hash ls"
  "ls_by_hash (snd (add_fleet_bans ord now ok ips ttl cap ls)) = ls_by_hash ls"
  "ls_by_hash (snd (fleet_blocklist ord now ok ls)) = ls_by_hash ls"
  "ls_by_hash (audit action target src now ok ls) = ls_by_hash ls"
  using same_keys_ops [of ls] unfolding same_keys_def
  by (simp_all add: record_heartbeat_def add_fleet_bans_def fleet_blocklist_def audit_def Let_def case_prod_beta)

text \<open>A request that changes and shows nothing, and gets a session only for the admin token.\<close>

definition harmless :: "http_request \<Rightarrow> server \<Rightarrow> reply \<times> server \<Rightarrow> bool" where
  "harmless r s x \<longleftrightarrow> admin_state (snd x) = admin_state s \<and> \<not> reveals (fst x) \<and>
     (\<forall>loc v secure age. fst x = RedirectReply loc (Some (SessionCookie v secure age)) \<longrightarrow> rq_form r ''token'' = sv_admin_token s)"

lemma harmless_open:
  "harmless r s (handle_validate env r s)" "harmless r s (handle_heartbeat env r s)"
  "harmless r s (handle_login_get env r s)" "harmless r s (handle_login_post env r s)"
  "harmless r s (handle_logout env r s)" "harmless r s (handle_metrics env r s)" "harmless r s (healthz env r s)"
  by (simp_all add: harmless_def admin_state_def handle_validate_def handle_heartbeat_def handle_login_get_def
      handle_login_post_def handle_logout_def handle_metrics_def healthz_def add_audit_def Let_def case_prod_beta
      split: prod.split option.split bool.split)

lemma harmless_rate_limited:
  assumes "\<And>s. harmless r s (h env r s)"
  shows "harmless r s (rate_limited h env r s)"
proof -
  have "admin_state (s\<lparr>sv_limiter := l\<rparr>) = admin_state s" for l by (simp add: admin_state_def)
  then show ?thesis using assms by (simp add: rate_limited_def Let_def case_prod_beta harmless_def)
qed

lemma harmless_serve:
  assumes "\<not> valid_session (se_now_session env) r s" and "rq_header r header_admin \<noteq> sv_admin_token s"
  shows "harmless r s (serve_http env r s)"
proof -
  have gate: "harmless r s (admin_html h env r s)" "harmless r s (admin_json h env r s)" for h
    using assms by (simp_all add: admin_html_def admin_json_def harmless_def)
  show ?thesis
  proof (cases "route r")
    case (Some h)
    then have "h \<in> (\<lambda>p. snd (snd p)) ` set routes" using route_Some by fastforce
    then have "harmless r s (h env r s)"
      by (auto simp: routes_def gate harmless_open harmless_rate_limited)
    then show ?thesis using Some by (simp add: serve_http_def)
  qed (simp add: serve_http_def harmless_def)
qed

text \<open>
  C9. Nobody administers the control plane without the token or a session: a request with neither a valid
  session cookie nor the admin token header issues, revokes and changes nothing (keys, their index and
  policies stay as they are) and is shown neither keys, agents, audit trail nor dashboard. A session
  cookie is handed out only for the admin token.
\<close>

theorem administration_is_authorised:
  assumes "serve_http env r s = (res, s')"
    and "\<not> valid_session (se_now_session env) r s" "rq_header r header_admin \<noteq> sv_admin_token s"
  shows "admin_state s' = admin_state s \<and> \<not> reveals res \<and>
    (\<forall>loc v secure age. res = RedirectReply loc (Some (SessionCookie v secure age)) \<longrightarrow> rq_form r ''token'' = sv_admin_token s)"
  using harmless_serve [OF assms(2,3)] by (simp add: harmless_def assms(1))

theorem administration_is_authorised_witness:
  "admin_state (snd (serve_http example_server_env (blank_request\<lparr>rq_method := ''POST'', rq_path := ''/admin/keys/revoke'',
      rq_form := (\<lambda>k. ''k_02'')\<rparr>) example_server)) = admin_state example_server"
  by (rule administration_is_authorised [THEN conjunct1, OF prod.collapse [symmetric]])
    (simp_all add: valid_session_def blank_request_def example_server_def)

section \<open>Guessing the token\<close>

definition is_login :: "http_request \<Rightarrow> bool" where
  "is_login r \<longleftrightarrow> rq_method r = ''POST'' \<and> rq_path r = ''/admin/login''"

text \<open>The login attempts of a run of requests, with the verdict: was the token looked at?\<close>

fun login_trace :: "(server_env \<times> http_request) list \<Rightarrow> server \<Rightarrow> (string \<times> bool) list" where
  "login_trace [] s = []"
| "login_trace ((env, r) # cs) s =
     (let (res, s') = serve_http env r s
      in (if is_login r then [(server_host_of (rq_remote_addr r), res \<noteq> ErrorReply status_too_many_requests ''too many login attempts'')] else [])
         @ login_trace cs s')"

definition login_calls :: "(server_env \<times> http_request) list \<Rightarrow> (string list \<times> time \<times> string) list" where
  "login_calls cs = map (\<lambda>(env, r). (se_ord_limit env, se_now_limit env, server_host_of (rq_remote_addr r)))
     (filter (\<lambda>(env, r). is_login r) cs)"

lemma login_limiter_kept:
  "sv_login_limiter (snd (handle_validate env r s)) = sv_login_limiter s"
  "sv_login_limiter (snd (handle_heartbeat env r s)) = sv_login_limiter s"
  "sv_login_limiter (snd (handle_login_get env r s)) = sv_login_limiter s"
  "sv_login_limiter (snd (handle_logout env r s)) = sv_login_limiter s"
  "sv_login_limiter (snd (handle_metrics env r s)) = sv_login_limiter s"
  "sv_login_limiter (snd (healthz env r s)) = sv_login_limiter s"
  "sv_login_limiter (snd (handle_keys_json env r s)) = sv_login_limiter s"
  "sv_login_limiter (snd (handle_agents_json env r s)) = sv_login_limiter s"
  "sv_login_limiter (snd (handle_audit_json env r s)) = sv_login_limiter s"
  "sv_login_limiter (snd (handle_dashboard env r s)) = sv_login_limiter s"
  "sv_login_limiter (snd (handle_generate env r s)) = sv_login_limiter s"
  "sv_login_limiter (snd (handle_revoke env r s)) = sv_login_limiter s"
  "sv_login_limiter (snd (handle_set_policy env r s)) = sv_login_limiter s"
  by (simp_all add: handle_validate_def handle_heartbeat_def handle_login_get_def handle_logout_def handle_metrics_def
      healthz_def handle_keys_json_def handle_agents_json_def handle_audit_json_def handle_dashboard_def
      handle_generate_def handle_revoke_def handle_set_policy_def add_audit_def Let_def case_prod_beta
      split: prod.split option.split bool.split)

lemma middleware_kept:
  "(\<And>s. sv_login_limiter (snd (h env r s)) = sv_login_limiter s) \<Longrightarrow> sv_login_limiter (snd (rate_limited h env r s)) = sv_login_limiter s"
  "(\<And>s. sv_login_limiter (snd (h env r s)) = sv_login_limiter s) \<Longrightarrow> sv_login_limiter (snd (admin_html h env r s)) = sv_login_limiter s"
  "(\<And>s. sv_login_limiter (snd (h env r s)) = sv_login_limiter s) \<Longrightarrow> sv_login_limiter (snd (admin_json h env r s)) = sv_login_limiter s"
  by (simp_all add: rate_limited_def admin_html_def admin_json_def Let_def case_prod_beta)

lemma no_login_kept:
  assumes "\<not> is_login r"
  shows "sv_login_limiter (snd (serve_http env r s)) = sv_login_limiter s"
proof (cases "route r")
  case (Some h)
  then obtain p where p: "p \<in> set routes" "pattern_matches r p" "h = snd (snd p)" using route_Some by blast
  have "p \<noteq> (''POST'', ''/admin/login'', handle_login_post)"
    using assms p(2) by (auto simp: is_login_def pattern_matches_def)
  then have "sv_login_limiter (snd (h env r s)) = sv_login_limiter s"
    using p(1,3) unfolding routes_def
    by (simp only: list.set insert_iff empty_iff) (elim disjE; simp add: login_limiter_kept middleware_kept)
  then show ?thesis using Some by (simp add: serve_http_def)
qed (simp add: serve_http_def)

lemma login_served:
  assumes "is_login r"
  shows "sv_login_limiter (snd (serve_http env r s)) =
      snd (per_ip_allow (se_ord_limit env) (se_now_limit env) (server_host_of (rq_remote_addr r)) (sv_login_limiter s))"
    and "fst (serve_http env r s) \<noteq> ErrorReply status_too_many_requests ''too many login attempts'' \<longleftrightarrow>
      fst (per_ip_allow (se_ord_limit env) (se_now_limit env) (server_host_of (rq_remote_addr r)) (sv_login_limiter s))"
proof -
  have "serve_http env r s = handle_login_post env r s"
    using assms by (simp add: serve_http_def route_def routes_def pattern_matches_def is_login_def)
  then show "sv_login_limiter (snd (serve_http env r s)) =
      snd (per_ip_allow (se_ord_limit env) (se_now_limit env) (server_host_of (rq_remote_addr r)) (sv_login_limiter s))"
    and "fst (serve_http env r s) \<noteq> ErrorReply status_too_many_requests ''too many login attempts'' \<longleftrightarrow>
      fst (per_ip_allow (se_ord_limit env) (se_now_limit env) (server_host_of (rq_remote_addr r)) (sv_login_limiter s))"
    by (simp_all add: handle_login_post_def add_audit_def Let_def case_prod_beta status_too_many_requests_def status_unauthorized_def)
qed

lemma login_trace_allow: "login_trace cs s = allow_trace (login_calls cs) (sv_login_limiter s)"
proof (induction cs arbitrary: s)
  case (Cons c cs)
  obtain env r where c: "c = (env, r)" by (cases c)
  show ?case
  proof (cases "is_login r")
    case True
    then show ?thesis using Cons.IH login_served [OF True, of env s]
      by (simp add: c login_calls_def case_prod_beta)
  next
    case False
    then show ?thesis using Cons.IH no_login_kept [OF False, of env s]
      by (simp add: c login_calls_def case_prod_beta)
  qed
qed (simp add: login_calls_def)



end
