(* ===== verification/Agent.thy ===== *)
theory Agent
  imports Server Guard Secmon
begin

text \<open>
  \<^verbatim>\<open>cmd/aggershield/main.go\<close> and \<^verbatim>\<open>internal/license/client.go\<close>: the proxy process as a whole. \<open>new_agent\<close> is
  the part of \<open>main\<close> that builds the components from the configuration; \<open>agent_start\<close>, \<open>agent_send\<close> and
  \<open>agent_receive\<close> are the parts of \<open>runLicenseAgent\<close> before, at and after a call to the control plane, so
  that other steps of the process can come between; \<open>local_reload\<close> is the closure \<open>reload\<close> of \<open>main\<close>.
\<close>

section \<open>The client of the control plane\<close>

record client =
  cl_base :: string
  cl_key :: string

definition new_client :: "string \<Rightarrow> string \<Rightarrow> client" where
  "new_client server_url k = \<lparr>cl_base = trim_right (CHR ''/'') server_url, cl_key = k\<rparr>"

definition client_url :: "client \<Rightarrow> string \<Rightarrow> string" where
  "client_url c path = cl_base c @ path"

text \<open>The request that arrives at a control plane whose base URL has no path of its own.\<close>

definition client_request :: "client \<Rightarrow> string \<Rightarrow> string \<Rightarrow> http_request" where
  "client_request c path addr =
     blank_request\<lparr>rq_remote_addr := addr, rq_method := ''POST'', rq_path := path, rq_uri := path,
       rq_header := (\<lambda>h. if h = header_key then cl_key c
                         else if h = ''Content-Type'' then ''application/json'' else []), rq_has_body := True\<rparr>"

text \<open>
  The outcome of the HTTP call: no response, or the status, what \<open>Decode\<close> left in \<open>out\<close> and whether it
  reported no error. \<open>do\<close> gives the decoded value, or \<open>None\<close> for an error.
\<close>

datatype 'a http_result = NoResponse | Response int 'a bool

definition client_do :: "'a http_result \<Rightarrow> 'a option" where
  "client_do res =
     (case res of
        NoResponse \<Rightarrow> None
      | Response status out decoded \<Rightarrow>
          if status = status_unauthorized then Some out
          else if status \<noteq> status_ok then None
          else if decoded then Some out else None)"

text \<open>
  What the replies of the control plane are to the client. A policy in the answer is written to JSON and
  read back; the zero value stands for a body that is no such answer.
\<close>

definition zero_validate_resp :: validate_resp where
  "zero_validate_resp = \<lparr>vr_valid = False, vr_key_id = [], vr_name = [], vr_reason = [], vr_policy_version = 0, vr_policy = None\<rparr>"

definition zero_heartbeat_resp :: heartbeat_resp where
  "zero_heartbeat_resp = \<lparr>hr_licensed = False, hr_reason = [], hr_policy_version = 0, hr_policy = None,
     hr_blocklist_version = 0, hr_blocklist = None\<rparr>"

fun validate_on_wire :: "reply \<Rightarrow> validate_resp http_result" where
  "validate_on_wire (ValidateReply st v) =
     (case transmit_section transmit_policy (vr_policy v) of
        Some p \<Rightarrow> Response st (v\<lparr>vr_policy := p\<rparr>) True
      | None \<Rightarrow> Response st zero_validate_resp False)"
| "validate_on_wire (ErrorReply st msg) = Response st zero_validate_resp False"
| "validate_on_wire _ = Response status_not_found zero_validate_resp False"

fun heartbeat_on_wire :: "reply \<Rightarrow> heartbeat_resp http_result" where
  "heartbeat_on_wire (HeartbeatReply st v) =
     (case transmit_section transmit_policy (hr_policy v) of
        Some p \<Rightarrow> Response st (v\<lparr>hr_policy := p\<rparr>) True
      | None \<Rightarrow> Response st zero_heartbeat_resp False)"
| "heartbeat_on_wire (ErrorReply st msg) = Response st zero_heartbeat_resp False"
| "heartbeat_on_wire _ = Response status_not_found zero_heartbeat_resp False"

section \<open>Building the process\<close>

text \<open>\<open>cfg\<close> of \<open>main\<close>, the configuration shown by the admin API, the guard, and the variables of the license loop.\<close>

record agent =
  ag_cfg :: config
  ag_current :: config
  ag_guard :: guard
  ag_applied_policy :: int
  ag_applied_blocklist :: int

record boot_env =
  bo_file :: file_read
  bo_ord :: "string list"
  bo_now :: time
  bo_secret :: string
  bo_regex :: "string \<Rightarrow> (string \<Rightarrow> bool) option"

text \<open>The ban store with its persisted bans; a file that cannot be read is logged and the process goes on.\<close>

definition start_bans :: "boot_env \<Rightarrow> config \<Rightarrow> store" where
  "start_bans env cfg =
     (let b = new_store (ba_base_duration (cf_ban cfg)) (ba_max_duration (cf_ban cfg)) (ba_escalation_factor (cf_ban cfg))
            (ba_max_entries (cf_ban cfg)) (cf_allowlist cfg)
      in if ba_persist_path (cf_ban cfg) \<noteq> []
         then snd (enable_persistence (ba_persist_path (cf_ban cfg)) (bo_ord env) (bo_now env) (bo_file env) b)
         else b)"

text \<open>The closure \<open>main\<close> hands to the security monitor.\<close>

definition monitor_counters :: "metrics \<Rightarrow> counters" where
  "monitor_counters m =
     \<lparr>ct_total = mt_total m, ct_allowed = mt_allowed m,
      ct_blocked = i64 (mt_blocked_banned m + mt_rate_limited_ip m + mt_rate_limited_gl m + mt_conn_rejected m + mt_fp_blocked m),
      ct_challenged = mt_challenged m, ct_bans = mt_bans_issued m\<rparr>"

definition license_start :: "config \<Rightarrow> guard \<Rightarrow> guard" where
  "license_start cfg g =
     (if li_enabled (cf_license cfg)
      then if li_fail_open (cf_license cfg) then set_licensed True g else enforce_license g
      else g)"

definition new_agent :: "boot_env \<Rightarrow> config \<Rightarrow> nat \<times> string + agent" where
  "new_agent env cfg =
     (case build_snapshot (bo_regex env) (bo_now env) cfg of
        Inl e \<Rightarrow> Inl e
      | Inr snap \<Rightarrow>
          let chal = new_chal_manager (bo_secret env) (ch_secret (cf_challenge cfg)) (ch_difficulty_bits (cf_challenge cfg))
                (ch_clearance_ttl (cf_challenge cfg));
              g = new_guard (start_bans env cfg) (Some chal) (new_conn_limiter (co_max_per_ip (cf_connection cfg)))
                (new_metrics (bo_now env)) (tp_max_concurrent (cf_tarpit cfg)) snap
          in Inr \<lparr>ag_cfg = cfg, ag_current = cfg, ag_guard = license_start cfg g, ag_applied_policy = 0,
               ag_applied_blocklist = 0\<rparr>)"

text \<open>\<open>reload\<close>: \<open>loaded\<close> is what \<open>config.Load\<close> returns. The flag is \<open>err == nil\<close>.\<close>

definition local_reload :: "(string \<Rightarrow> (string \<Rightarrow> bool) option) \<Rightarrow> time \<Rightarrow> load_error + config \<Rightarrow> agent \<Rightarrow> bool \<times> agent" where
  "local_reload regex now loaded a =
     (case loaded of
        Inl e \<Rightarrow> (False, a)
      | Inr nc \<Rightarrow>
          (case guard_reload regex now nc (ag_guard a) of
             (Some e, g) \<Rightarrow> (False, a\<lparr>ag_guard := g\<rparr>)
           | (None, g) \<Rightarrow> (True, a\<lparr>ag_guard := g, ag_current := nc\<rparr>)))"

section \<open>The license loop\<close>

definition agent_version :: string where "agent_version = ''0.1.0''"

definition protecting_of :: "config \<Rightarrow> string" where
  "protecting_of cfg =
     (if li_protecting (cf_license cfg) = [] then
        (case cf_sites cfg of s # ss \<Rightarrow> st_host s | [] \<Rightarrow> cf_upstream cfg)
      else li_protecting (cf_license cfg))"

definition apply_license :: "bool \<Rightarrow> agent \<Rightarrow> agent" where
  "apply_license licensed a =
     (if li_fail_open (cf_license (ag_cfg a)) then a else a\<lparr>ag_guard := set_licensed licensed (ag_guard a)\<rparr>)"

definition apply_policy :: "(string \<Rightarrow> (string \<Rightarrow> bool) option) \<Rightarrow> time \<Rightarrow> policy_doc option \<Rightarrow> int \<Rightarrow> agent \<Rightarrow> agent" where
  "apply_policy regex now doc version a =
     (case doc of
        None \<Rightarrow> a
      | Some p \<Rightarrow>
          if version = ag_applied_policy a then a
          else
            (case guard_reload regex now (normalize (apply_to p (ag_cfg a))) (ag_guard a) of
               (Some e, g) \<Rightarrow> a\<lparr>ag_guard := g\<rparr>
             | (None, g) \<Rightarrow> a\<lparr>ag_guard := g, ag_applied_policy := version\<rparr>))"

text \<open>The environment of one check-in: the policy build, and order and clock of each fleet ban.\<close>

record agent_env =
  ae_regex :: "string \<Rightarrow> (string \<Rightarrow> bool) option"
  ae_now :: time
  ae_ban :: "nat \<Rightarrow> string list \<times> time"

definition agent_start :: "agent_env \<Rightarrow> validate_resp option \<Rightarrow> agent \<Rightarrow> agent" where
  "agent_start env resp a =
     (case resp of
        None \<Rightarrow> a
      | Some v \<Rightarrow>
          if vr_valid v
          then apply_policy (ae_regex env) (ae_now env) (vr_policy v) (vr_policy_version v) (apply_license True a)
          else apply_license False a)"

definition stats_map :: "metrics \<Rightarrow> (string, int) fmap" where
  "stats_map m =
     fmupd ''total_requests'' (mt_total m)
    (fmupd ''allowed'' (mt_allowed m)
    (fmupd ''blocked_banned'' (mt_blocked_banned m)
    (fmupd ''bans_issued'' (mt_bans_issued m)
    (fmupd ''challenged'' (mt_challenged m) fmempty))))"

text \<open>The status report; with fleet bans it empties the buffer of recent bans.\<close>

definition agent_send :: "string \<Rightarrow> agent \<Rightarrow> heartbeat_req \<times> agent" where
  "agent_send host a =
     (let req = \<lparr>hb_hostname = host, hb_version = agent_version, hb_protecting = protecting_of (ag_cfg a),
            hb_reported_ip = [], hb_policy_version = ag_applied_policy a,
            hb_stats = stats_map (gd_metrics (ag_guard a)), hb_recent_bans = [], hb_blocklist_version = 0\<rparr>
      in if li_fleet_bans (cf_license (ag_cfg a)) then
           (let (ips, b) = drain_recent (gd_bans (ag_guard a))
            in (req\<lparr>hb_recent_bans := ips, hb_blocklist_version := ag_applied_blocklist a\<rparr>,
                a\<lparr>ag_guard := (ag_guard a)\<lparr>gd_bans := b\<rparr>\<rparr>))
         else (req, a))"

fun apply_blocklist :: "(nat \<Rightarrow> string list \<times> time) \<Rightarrow> nat \<Rightarrow> duration \<Rightarrow> string list \<Rightarrow> store \<Rightarrow> store" where
  "apply_blocklist env i ttl [] b = b"
| "apply_blocklist env i ttl (ip # ips) b =
     apply_blocklist env (Suc i) ttl ips (ban_fleet (fst (env i)) (snd (env i)) ip ttl b)"

text \<open>The rest of the loop: \<open>None\<close> is an error of the call, which keeps the last state.\<close>

definition agent_receive :: "agent_env \<Rightarrow> heartbeat_resp option \<Rightarrow> agent \<Rightarrow> agent" where
  "agent_receive env resp a =
     (case resp of
        None \<Rightarrow> a
      | Some v \<Rightarrow>
          let a = apply_license (hr_licensed v) a;
              a = apply_policy (ae_regex env) (ae_now env) (hr_policy v) (hr_policy_version v) a
          in (case hr_blocklist v of
                None \<Rightarrow> a
              | Some ips \<Rightarrow>
                  if li_fleet_bans (cf_license (ag_cfg a)) then
                    a\<lparr>ag_guard := (ag_guard a)\<lparr>gd_bans := apply_blocklist (ae_ban env) 0 (ba_max_duration (cf_ban (ag_cfg a))) ips
                        (gd_bans (ag_guard a))\<rparr>,
                      ag_applied_blocklist := hr_blocklist_version v\<rparr>
                  else a))"

end
