(* ===== verification/Agent_Runs.thy ===== *)
theory Agent_Runs
  imports Agent Guard_Runs
begin

text \<open>
  Runs of the proxy process: traffic, mode switches, reloads of the local file and check-ins with whatever
  answer the network brings. What the license gate depends on.
\<close>

section \<open>The license gate of the guard\<close>

definition gate :: "guard \<Rightarrow> bool \<times> bool" where
  "gate g = (gd_license_enforced g, gd_licensed g)"

text \<open>A stage that neither touches the gate nor answers as the gate does.\<close>

definition gated :: "stage \<Rightarrow> bool" where
  "gated f \<longleftrightarrow> (\<forall>g. case f g of Inl (res, g') \<Rightarrow> res \<noteq> Unlicensed \<and> gate g' = gate g | Inr g' \<Rightarrow> gate g' = gate g)"

lemma gated_after: "gated f \<Longrightarrow> gated h \<Longrightarrow> gated (after f h)"
  by (simp add: gated_def after_def split: sum.splits prod.splits)

lemma gated_Inl: "gated f \<Longrightarrow> f g = Inl x \<Longrightarrow> fst x \<noteq> Unlicensed \<and> gate (snd x) = gate g"
  unfolding gated_def by (drule spec [of _ g]) (simp add: case_prod_beta)

lemma gated_Inr: "gated f \<Longrightarrow> f g = Inr g' \<Longrightarrow> gate g' = gate g"
  unfolding gated_def by (drule spec [of _ g]) simp

lemma gated_deny: "gated (deny s bump)"
  by (simp add: gated_def deny_def enforce_eq block_def gate_def)

lemma gated_if: "gated f \<Longrightarrow> gated (\<lambda>g. if P g then f g else Inr g)"
  by (simp add: gated_def)

lemma gated_stages:
  "gated (st_denylist s ip)" "gated (st_fingerprint s r)" "gated (st_rule s d r)" "gated (st_banned env s ip)"
  "gated (st_bad_ua s r)"
proof -
  have "gated (\<lambda>g. if P then deny s bump g else Inr g)" for P bump
    using gated_deny by (rule gated_if)
  then show "gated (st_denylist s ip)" "gated (st_fingerprint s r)" "gated (st_bad_ua s r)"
    by (simp_all add: st_denylist_def [abs_def] st_fingerprint_eq [abs_def] st_bad_ua_def [abs_def])
  show "gated (st_banned env s ip)"
    unfolding st_banned_def [abs_def] by (rule gated_if [OF gated_deny])
  show "gated (st_rule s d r)"
    using gated_deny [of s id]
    by (cases "de_action d") (simp_all add: gated_def st_rule_def serve_request_def)
qed

lemma gated_late_stages: "gated (st_challenge env s d r)" "gated (st_global env s)" "gated (st_per_ip env s d ip)"
  by (simp_all add: gated_def st_challenge_def st_global_def st_per_ip_def enforce_eq auto_challenge_def gate_def
      Let_def case_prod_beta split: option.split)

lemma gated_checks: "gated (checks env s ip r)"
  unfolding checks_def Let_def by (intro gated_after gated_stages gated_late_stages)

lemma st_conns_gate: "fst (st_conns s ip r g) \<noteq> Unlicensed" "gate (snd (st_conns s ip r g)) = gate g"
  by (simp_all add: st_conns_def enforce_eq serve_request_def gate_def Let_def case_prod_beta)

lemma guard_enter_gate [simp]: "gate (snd (guard_enter env r g)) = gate g"
proof -
  have t: "gate (count_total g) = gate g" by (simp add: gate_def)
  show ?thesis
  proof (cases "checks env (gd_snap g) (req_ip r g) (req_of r g) (count_total g)")
    case (Inl x)
    then have "gate (snd x) = gate (count_total g)" using gated_Inl [OF gated_checks] by blast
    then show ?thesis using Inl t by (simp add: guard_enter_eq)
  next
    case (Inr g')
    then have "gate g' = gate (count_total g)" using gated_Inr [OF gated_checks] by blast
    then show ?thesis using Inr t by (simp add: guard_enter_eq st_conns_gate)
  qed
qed

lemma guard_enter_unlicensed: "fst (guard_enter env r g) = Unlicensed \<longleftrightarrow> \<not> gate_open g"
proof (cases "checks env (gd_snap g) (req_ip r g) (req_of r g) (count_total g)")
  case (Inl x)
  then have "fst x \<noteq> Unlicensed" using gated_Inl [OF gated_checks] by blast
  then show ?thesis using Inl by (simp add: guard_enter_eq serve_request_def)
qed (simp add: guard_enter_eq serve_request_def st_conns_gate)

lemma gate_ops [simp]:
  "gate (guard_exit ip res g) = gate g" "gate (set_challenge_mode m g) = gate g"
  "gate (snd (guard_reload regex now cfg g)) = gate g" "gate (g\<lparr>gd_bans := b\<rparr>) = gate g"
  "gate (set_licensed ok g) = (fst (gate g), ok)"
  by (simp_all add: gate_def guard_exit_def set_challenge_mode_def challenge_mode_store_def guard_reload_def set_licensed_def
      Let_def split: outcome.split bool.split sum.split)

lemma gate_open_iff: "gate_open g \<longleftrightarrow> fst (gate g) \<longrightarrow> snd (gate g)"
  by (simp add: gate_open_def gate_def)

section \<open>Steps of the process\<close>

datatype agent_event =
  AEnter guard_env http_request
| AExit string outcome
| AMode bool
| AReload "string \<Rightarrow> (string \<Rightarrow> bool) option" time "load_error + config"
| AHeartbeat agent_env string "heartbeat_resp http_result"

fun agent_step :: "agent_event \<Rightarrow> agent \<Rightarrow> agent" where
  "agent_step (AEnter env r) a = a\<lparr>ag_guard := snd (guard_enter env r (ag_guard a))\<rparr>"
| "agent_step (AExit ip res) a = a\<lparr>ag_guard := guard_exit ip res (ag_guard a)\<rparr>"
| "agent_step (AMode always) a = a\<lparr>ag_guard := set_challenge_mode always (ag_guard a)\<rparr>"
| "agent_step (AReload regex now loaded) a = snd (local_reload regex now loaded a)"
| "agent_step (AHeartbeat env host res) a = agent_receive env (client_do res) (snd (agent_send host a))"

lemma agent_cfg_simps [simp]:
  "ag_cfg (apply_license b a) = ag_cfg a" "ag_cfg (apply_policy regex now doc v a) = ag_cfg a"
  "ag_cfg (agent_receive env resp a) = ag_cfg a" "ag_cfg (snd (agent_send host a)) = ag_cfg a"
  "ag_cfg (agent_start env first a) = ag_cfg a" "ag_cfg (snd (local_reload regex now loaded a)) = ag_cfg a"
  by (simp_all add: apply_license_def apply_policy_def agent_receive_def agent_send_def agent_start_def local_reload_def
      Let_def case_prod_beta split: option.split sum.split prod.split)

lemma agent_step_cfg [simp]: "ag_cfg (agent_step e a) = ag_cfg a"
  by (cases e) simp_all

lemma agent_gate_simps [simp]:
  "gate (ag_guard (apply_license b a)) = (fst (gate (ag_guard a)), if li_fail_open (cf_license (ag_cfg a)) then snd (gate (ag_guard a)) else b)"
  "gate (ag_guard (snd (agent_send host a))) = gate (ag_guard a)"
  "gate (ag_guard (snd (local_reload regex now loaded a))) = gate (ag_guard a)"
  by (simp_all add: apply_license_def agent_send_def local_reload_def Let_def case_prod_beta split: sum.split prod.split option.split)

lemma apply_policy_gate [simp]: "gate (ag_guard (apply_policy regex now doc v a)) = gate (ag_guard a)"
proof (cases doc)
  case (Some p)
  show ?thesis
    using gate_ops(3) [of regex now "normalize (apply_to p (ag_cfg a))" "ag_guard a"]
    by (auto simp: apply_policy_def Some simp del: gate_ops split: option.split prod.split)
qed (simp add: apply_policy_def)

lemma agent_receive_gate:
  "gate (ag_guard (agent_receive env resp a)) =
     (case resp of None \<Rightarrow> gate (ag_guard a) | Some v \<Rightarrow> gate (ag_guard (apply_license (hr_licensed v) a)))"
  by (simp add: agent_receive_def Let_def split: option.split)

text \<open>The answers that decide: every answer the client decoded, in order.\<close>

fun verdicts :: "agent_event list \<Rightarrow> bool list" where
  "verdicts [] = []"
| "verdicts (AHeartbeat env host res # es) = (case client_do res of None \<Rightarrow> [] | Some v \<Rightarrow> [hr_licensed v]) @ verdicts es"
| "verdicts (e # es) = verdicts es"

lemma gate_run:
  "gate (ag_guard (go_run agent_step es a)) =
     (fst (gate (ag_guard a)),
      if li_fail_open (cf_license (ag_cfg a)) then snd (gate (ag_guard a)) else last (snd (gate (ag_guard a)) # verdicts es))"
proof (induction es arbitrary: a)
  case (Cons e es)
  show ?case
    by (cases e) (simp_all add: Cons.IH agent_receive_gate split: option.split)
qed simp

lemma new_agent_fields:
  assumes "new_agent boot cfg = Inr a" "li_enabled (cf_license cfg)"
  shows "ag_cfg a = cfg" "gate (ag_guard a) = (if li_fail_open (cf_license cfg) then (False, True) else (True, False))"
    "ag_applied_policy a = 0" "ag_applied_blocklist a = 0" "gd_bans (ag_guard a) = start_bans boot cfg"
    "build_snapshot (bo_regex boot) (bo_now boot) cfg = Inr (gd_snap (ag_guard a))"
  using assms by (auto simp: new_agent_def license_start_def enforce_license_def set_licensed_def new_guard_def gate_def Let_def
        split: sum.splits)

text \<open>
  C39. The license gate follows the last answer of the control plane: a process built with licensing and
  without fail-open answers a request as unlicensed exactly when the last check-in that got an answer
  was refused, or none has been answered yet; requests, reloads, mode switches and failed check-ins do
  not change that. With fail-open it never does.
\<close>

theorem license_gate_follows_answers:
  assumes "new_agent boot cfg = Inr a" "li_enabled (cf_license cfg)"
  shows "fst (guard_enter env r (ag_guard (go_run agent_step es (agent_start aenv resp a)))) = Unlicensed \<longleftrightarrow>
    \<not> li_fail_open (cf_license cfg) \<and>
    \<not> last (False # (case resp of None \<Rightarrow> [] | Some v \<Rightarrow> [vr_valid v]) @ verdicts es)"
proof -
  note a = new_agent_fields [OF assms]
  from a(1,2) have "gate (ag_guard (agent_start aenv resp a)) =
      (if li_fail_open (cf_license cfg) then (False, True)
       else (True, last (False # (case resp of None \<Rightarrow> [] | Some v \<Rightarrow> [vr_valid v]))))"
    by (simp add: agent_start_def split: option.split)
  then show ?thesis
    unfolding guard_enter_unlicensed gate_open_iff gate_run agent_cfg_simps a(1)
    by (cases resp) (auto simp: last_append)
qed

text \<open>A process with an empty configuration but for its license, for concrete instances.\<close>

definition example_config :: "bool \<Rightarrow> config" where
  "example_config fail_open = zero_config\<lparr>cf_ban := default_ban (cf_ban zero_config), cf_license := \<lparr>li_enabled = True, li_server_url = ''https://control.example/'',
     li_key = ''agsk_01'', li_protecting = [], li_heartbeat_interval = 30 * second, li_fail_open = fail_open,
     li_fleet_bans = True\<rparr>\<rparr>"

definition example_boot :: boot_env where
  "example_boot = \<lparr>bo_file = NotExist, bo_ord = [], bo_now = 0, bo_secret = ''00'', bo_regex = (\<lambda>_. None)\<rparr>"

definition example_agent :: "bool \<Rightarrow> agent" where
  "example_agent fail_open = projr (new_agent example_boot (example_config fail_open))"

definition example_agent_env :: agent_env where
  "example_agent_env = \<lparr>ae_regex = (\<lambda>_. None), ae_now = 0, ae_ban = (\<lambda>_. ([], 0))\<rparr>"

lemma example_agent_built: "new_agent example_boot (example_config fail_open) = Inr (example_agent fail_open)"
  by (simp add: example_agent_def new_agent_def build_snapshot_def compile_rules_def example_config_def zero_config_fields Let_def)

lemma example_config_fields [simp]:
  "li_enabled (cf_license (example_config b))" "li_key (cf_license (example_config b)) = ''agsk_01''"
  "li_fail_open (cf_license (example_config b)) = b" "li_fleet_bans (cf_license (example_config b))"
  "ba_max_duration (cf_ban (example_config b)) = hour"
  by (simp_all add: example_config_def default_ban_def zero_config_def or_default_def)

lemma example_bans: "start_bans example_boot (example_config b) = new_store (60 * second) hour 2 1000000 []"
  by (simp add: start_bans_def example_config_def default_ban_def zero_config_def or_default_def)

lemmas example_agent_fields = new_agent_fields [OF example_agent_built example_config_fields(1)]

theorem license_gate_follows_answers_witness:
  "fst (guard_enter example_env example_request (ag_guard (go_run agent_step
     [AHeartbeat example_agent_env ''web1'' (Response 401 zero_heartbeat_resp False),
      AHeartbeat example_agent_env ''web1'' NoResponse]
     (agent_start example_agent_env (Some (zero_validate_resp\<lparr>vr_valid := True\<rparr>)) (example_agent False))))) = Unlicensed"
  unfolding license_gate_follows_answers [OF example_agent_built, of False, simplified example_config_def, simplified]
  by (simp add: client_do_def status_unauthorized_def zero_heartbeat_resp_def)

end
