(* ===== verification/Control_Plane.thy ===== *)
theory Control_Plane
  imports Agent_Runs
begin

text \<open>
  A proxy process and its control plane together. A check-in is one round of the license loop over the real
  handler: the report of the agent goes through the mux, rate limit and handler of the server, and what
  comes back goes through the client; the request or the reply may be lost. Between check-ins the process
  serves traffic and reloads, and the server handles any request of administrators and other agents.
\<close>

section \<open>The system\<close>

datatype delivery = Delivered | RequestLost | ReplyLost

definition agent_client :: "agent \<Rightarrow> client" where
  "agent_client a = new_client (li_server_url (cf_license (ag_cfg a))) (li_key (cf_license (ag_cfg a)))"

definition heartbeat_path :: string where "heartbeat_path = ''/api/v1/heartbeat''"
definition validate_path :: string where "validate_path = ''/api/v1/validate''"

definition check_in :: "delivery \<Rightarrow> agent_env \<Rightarrow> server_env \<Rightarrow> string \<Rightarrow> string \<Rightarrow> agent \<times> server \<Rightarrow> agent \<times> server" where
  "check_in d aenv senv host addr sys =
     (let (a, s) = sys;
          req = fst (agent_send host a);
          (res, s') = serve_http (senv\<lparr>se_body := req\<rparr>) (client_request (agent_client a) heartbeat_path addr) s
      in (case d of
            Delivered \<Rightarrow> (agent_step (AHeartbeat aenv host (heartbeat_on_wire res)) a, s')
          | RequestLost \<Rightarrow> (agent_step (AHeartbeat aenv host NoResponse) a, s)
          | ReplyLost \<Rightarrow> (agent_step (AHeartbeat aenv host NoResponse) a, s')))"

datatype system_event =
  SAgent agent_event
| SCheckIn delivery agent_env server_env string string
| SServer server_env http_request

fun system_step :: "system_event \<Rightarrow> agent \<times> server \<Rightarrow> agent \<times> server" where
  "system_step (SAgent e) (a, s) = (agent_step e a, s)"
| "system_step (SCheckIn d aenv senv host addr) sys = check_in d aenv senv host addr sys"
| "system_step (SServer env r) (a, s) = (a, snd (serve_http env r s))"

fun is_heartbeat :: "agent_event \<Rightarrow> bool" where
  "is_heartbeat (AHeartbeat env host res) = True"
| "is_heartbeat e = False"

text \<open>The answers of the control plane come from the control plane, and the identifiers of new keys are fresh.\<close>

definition fresh_ids :: "server_env \<Rightarrow> server \<Rightarrow> bool" where
  "fresh_ids env s \<longleftrightarrow> license_legal (sv_store s) (LGenerate (se_rand24 env) (se_rand5 env) (se_now env) True [] [])"

fun system_legal :: "agent \<times> server \<Rightarrow> system_event \<Rightarrow> bool" where
  "system_legal (a, s) (SAgent e) \<longleftrightarrow> \<not> is_heartbeat e"
| "system_legal (a, s) (SServer env r) \<longleftrightarrow> fresh_ids env s"
| "system_legal (a, s) (SCheckIn d aenv senv host addr) \<longleftrightarrow> True"

section \<open>What a check-in sends and answers\<close>

lemma agent_send_fields [simp]:
  "hb_policy_version (fst (agent_send host a)) = ag_applied_policy a"
  "hb_recent_bans (fst (agent_send host a)) =
     (if li_fleet_bans (cf_license (ag_cfg a)) then fst (drain_recent (gd_bans (ag_guard a))) else [])"
  "hb_blocklist_version (fst (agent_send host a)) = (if li_fleet_bans (cf_license (ag_cfg a)) then ag_applied_blocklist a else 0)"
  "ag_applied_policy (snd (agent_send host a)) = ag_applied_policy a"
  "ag_current (snd (agent_send host a)) = ag_current a"
  "gd_snap (ag_guard (snd (agent_send host a))) = gd_snap (ag_guard a)"
  "gd_bans (ag_guard (snd (agent_send host a))) =
     (if li_fleet_bans (cf_license (ag_cfg a)) then snd (drain_recent (gd_bans (ag_guard a))) else gd_bans (ag_guard a))"
  by (simp_all add: agent_send_def Let_def case_prod_beta)

lemma heartbeat_routed:
  "serve_http env (client_request c heartbeat_path addr) s =
   rate_limited handle_heartbeat env (client_request c heartbeat_path addr) s"
  "serve_http env (client_request c validate_path addr) s =
   rate_limited handle_validate env (client_request c validate_path addr) s"
  by (simp_all add: serve_http_def route_def routes_def pattern_matches_def client_request_def heartbeat_path_def validate_path_def)

lemma client_request_fields [simp]:
  "rq_header (client_request c path addr) header_key = cl_key c" "rq_remote_addr (client_request c path addr) = addr"
  by (simp_all add: client_request_def)

lemma heartbeat_answer_fields [simp]:
  "hr_licensed (heartbeat_answer req pol l)"
  "hr_policy (heartbeat_answer req pol l) = (if snd pol \<noteq> hb_policy_version req then fst pol else None)"
  "hr_policy_version (heartbeat_answer req pol l) = (if snd pol \<noteq> hb_policy_version req then snd pol else 0)"
  "hr_blocklist (heartbeat_answer req pol l) = (if snd l \<noteq> hb_blocklist_version req then Some (fst l) else None)"
  "hr_blocklist_version (heartbeat_answer req pol l) = (if snd l \<noteq> hb_blocklist_version req then snd l else 0)"
  by (simp_all add: heartbeat_answer_def Let_def)

lemma heartbeat_denied_fields [simp]: "hr_policy heartbeat_denied = None" "\<not> hr_licensed heartbeat_denied"
  by (simp_all add: heartbeat_denied_def)

definition admitted :: "server_env \<Rightarrow> string \<Rightarrow> server \<Rightarrow> bool" where
  "admitted env addr s \<longleftrightarrow> fst (per_ip_allow (se_ord_limit env) (se_now_limit env) (server_host_of addr) (sv_limiter s))"

text \<open>The store after the report of an agent has been taken in.\<close>

definition reported :: "server_env \<Rightarrow> heartbeat_req \<Rightarrow> string \<Rightarrow> key \<Rightarrow> server \<Rightarrow> license_store" where
  "reported env req addr k s =
     (let st = snd (record_heartbeat (ky_id k) (status_of (blank_request\<lparr>rq_remote_addr := addr\<rparr>) req) (se_now env) (se_ok_change env) (sv_store s))
      in if hb_recent_bans req \<noteq> []
         then snd (add_fleet_bans (se_ord_add env) (se_now env) (se_ok_fleet env) (hb_recent_bans req) (sv_fleet_ttl s) (sv_fleet_max s) st)
         else st)"

lemma policy_of_ops [simp]:
  "policy_of kid (snd (record_heartbeat i st now ok ls)) = policy_of kid ls"
  "policy_of kid (snd (add_fleet_bans ord now ok ips ttl cap ls)) = policy_of kid ls"
  "policy_of kid (snd (fleet_blocklist ord now ok ls)) = policy_of kid ls"
  by (simp_all add: policy_of_def)

lemma heartbeat_served:
  assumes "validate_key (cl_key c) (sv_store s) = (Some k, True)" "admitted env addr s"
  shows "serve_http (env\<lparr>se_body := req\<rparr>) (client_request c heartbeat_path addr) s =
     (HeartbeatReply status_ok (heartbeat_answer req (policy_of (ky_id k) (sv_store s))
        (fst (fleet_blocklist (se_ord_list env) (se_now env) (se_ok_sweep env) (reported env req addr k s)))),
      s\<lparr>sv_limiter := snd (per_ip_allow (se_ord_limit env) (se_now_limit env) (server_host_of addr) (sv_limiter s)),
        sv_store := snd (fleet_blocklist (se_ord_list env) (se_now env) (se_ok_sweep env) (reported env req addr k s))\<rparr>)"
  using assms unfolding heartbeat_routed
  by (simp add: rate_limited_def admitted_def handle_heartbeat_def reported_def status_of_def Let_def case_prod_beta)

lemma heartbeat_limited:
  assumes "\<not> admitted env addr s"
  shows "fst (serve_http (env\<lparr>se_body := req\<rparr>) (client_request c heartbeat_path addr) s) = ErrorReply status_too_many_requests ''rate limited''"
  using assms unfolding heartbeat_routed by (simp add: rate_limited_def admitted_def Let_def case_prod_beta)

lemma heartbeat_refused:
  assumes "\<not> snd (validate_key (cl_key c) (sv_store s))" "admitted env addr s"
  shows "fst (serve_http (env\<lparr>se_body := req\<rparr>) (client_request c heartbeat_path addr) s) = HeartbeatReply status_unauthorized heartbeat_denied"
  using assms unfolding heartbeat_routed
  by (auto simp: rate_limited_def admitted_def handle_heartbeat_def Let_def case_prod_beta split: prod.splits option.splits bool.splits)

lemma client_do_answer:
  "client_do (heartbeat_on_wire (HeartbeatReply status_ok v)) =
     map_option (\<lambda>p. v\<lparr>hr_policy := p\<rparr>) (transmit_section transmit_policy (hr_policy v))"
  "client_do (heartbeat_on_wire (HeartbeatReply status_unauthorized heartbeat_denied)) = Some heartbeat_denied"
  "client_do (heartbeat_on_wire (ErrorReply status_too_many_requests msg)) = None"
  "client_do NoResponse = None"
  by (simp_all add: client_do_def status_ok_def status_unauthorized_def status_too_many_requests_def transmit_section_def
      heartbeat_denied_def split: option.split)

declare heartbeat_on_wire.simps [simp del]

section \<open>A revoked key\<close>

definition revoked_for_good :: "string \<Rightarrow> string \<Rightarrow> license_store \<Rightarrow> bool" where
  "revoked_for_good kid h s \<longleftrightarrow> store_ok s \<and> recorded_everywhere True kid h s"

lemma revoked_call:
  "revoked_for_good kid h s \<Longrightarrow> license_legal s c \<Longrightarrow> revoked_for_good kid h (license_step c s)"
  by (simp add: revoked_for_good_def store_ok_step recorded_step)

lemma revoked_ops:
  assumes "revoked_for_good kid h s"
  shows "revoked_for_good kid h (snd (record_heartbeat i st now ok s))"
    and "revoked_for_good kid h (snd (add_fleet_bans ord now ok ips ttl cap s))"
    and "revoked_for_good kid h (snd (fleet_blocklist ord now ok s))"
    and "revoked_for_good kid h (audit action target src now ok s)"
    and "revoked_for_good kid h (snd (revoke i now ok s))"
    and "revoked_for_good kid h (snd (set_policy i doc ok s))"
  using revoked_call [OF assms, of "LHeartbeat i st now ok"] revoked_call [OF assms, of "LFleetAdd ord now ok ips ttl cap"]
    revoked_call [OF assms, of "LFleetList ord now ok"] revoked_call [OF assms, of "LAudit action target src now ok"]
    revoked_call [OF assms, of "LRevoke i now ok"] revoked_call [OF assms, of "LPolicy i doc ok"]
  by simp_all

lemma revoked_generate:
  "revoked_for_good kid h (sv_store s) \<Longrightarrow> fresh_ids env s \<Longrightarrow>
   revoked_for_good kid h (snd (generate (se_rand24 env) (se_rand5 env) now ok name memo (sv_store s)))"
  using revoked_call [of kid h "sv_store s" "LGenerate (se_rand24 env) (se_rand5 env) now ok name memo"]
  by (simp add: fresh_ids_def)

lemma revoked_handlers:
  assumes "revoked_for_good kid h (sv_store s)"
  shows "revoked_for_good kid h (sv_store (snd (handle_validate env r s)))"
    "revoked_for_good kid h (sv_store (snd (handle_heartbeat env r s)))"
    "revoked_for_good kid h (sv_store (snd (handle_login_get env r s)))"
    "revoked_for_good kid h (sv_store (snd (handle_login_post env r s)))"
    "revoked_for_good kid h (sv_store (snd (handle_logout env r s)))"
    "revoked_for_good kid h (sv_store (snd (handle_metrics env r s)))"
    "revoked_for_good kid h (sv_store (snd (healthz env r s)))"
    "revoked_for_good kid h (sv_store (snd (handle_keys_json env r s)))"
    "revoked_for_good kid h (sv_store (snd (handle_agents_json env r s)))"
    "revoked_for_good kid h (sv_store (snd (handle_audit_json env r s)))"
    "revoked_for_good kid h (sv_store (snd (handle_dashboard env r s)))"
    "revoked_for_good kid h (sv_store (snd (handle_revoke env r s)))"
    "revoked_for_good kid h (sv_store (snd (handle_set_policy env r s)))"
  using assms
  by (simp_all add: handle_validate_def handle_heartbeat_def handle_login_get_def handle_login_post_def handle_logout_def
      handle_metrics_def healthz_def handle_keys_json_def handle_agents_json_def handle_audit_json_def handle_dashboard_def
      handle_revoke_def handle_set_policy_def add_audit_def revoked_ops Let_def case_prod_beta
      split: prod.split option.split bool.split)

lemma revoked_handle_generate:
  "revoked_for_good kid h (sv_store s) \<Longrightarrow> fresh_ids env s \<Longrightarrow> revoked_for_good kid h (sv_store (snd (handle_generate env r s)))"
  by (simp add: handle_generate_def add_audit_def revoked_generate revoked_ops Let_def case_prod_beta)

lemma revoked_middleware:
  "revoked_for_good kid h (sv_store (snd (f env r (s\<lparr>sv_limiter := snd (per_ip_allow (se_ord_limit env) (se_now_limit env)
       (server_host_of (rq_remote_addr r)) (sv_limiter s))\<rparr>)))) \<Longrightarrow> revoked_for_good kid h (sv_store s) \<Longrightarrow>
   revoked_for_good kid h (sv_store (snd (rate_limited f env r s)))"
  "revoked_for_good kid h (sv_store (snd (f env r s))) \<Longrightarrow> revoked_for_good kid h (sv_store s) \<Longrightarrow>
   revoked_for_good kid h (sv_store (snd (admin_html f env r s)))"
  "revoked_for_good kid h (sv_store (snd (f env r s))) \<Longrightarrow> revoked_for_good kid h (sv_store s) \<Longrightarrow>
   revoked_for_good kid h (sv_store (snd (admin_json f env r s)))"
  by (simp_all add: rate_limited_def admin_html_def admin_json_def Let_def case_prod_beta)

lemma revoked_served:
  assumes "revoked_for_good kid h (sv_store s)" "fresh_ids env s"
  shows "revoked_for_good kid h (sv_store (snd (serve_http env r s)))"
proof (cases "route r")
  case (Some f)
  then obtain p where p: "p \<in> set routes" "f = snd (snd p)" using route_Some by blast
  have "revoked_for_good kid h (sv_store (snd (f env r s)))"
    using p unfolding routes_def
    by (simp only: list.set insert_iff empty_iff)
      (elim disjE; simp add: assms revoked_handlers revoked_handle_generate revoked_middleware)
  then show ?thesis using Some by (simp add: serve_http_def)
qed (simp add: serve_http_def assms)

definition locked_out :: "string \<Rightarrow> string \<Rightarrow> agent \<times> server \<Rightarrow> bool" where
  "locked_out kid h sys \<longleftrightarrow> revoked_for_good kid h (sv_store (snd sys)) \<and>
     hash_key (li_key (cf_license (ag_cfg (fst sys)))) = h \<and> \<not> li_fail_open (cf_license (ag_cfg (fst sys))) \<and>
     gate (ag_guard (fst sys)) = (True, False)"

lemma revoked_refused:
  "revoked_for_good kid (hash_key p) s \<Longrightarrow> \<not> snd (validate_key p s)"
  using validate_key_false by (force simp: revoked_for_good_def recorded_everywhere_def recorded_def)

lemma agent_client_key [simp]: "cl_key (agent_client a) = li_key (cf_license (ag_cfg a))"
  by (simp add: agent_client_def new_client_def)

text \<open>A check-in with a revoked key never reopens the gate, and closes it when the answer arrives.\<close>

lemma check_in_revoked:
  assumes "revoked_for_good kid (hash_key (li_key (cf_license (ag_cfg a)))) (sv_store s)" "\<not> li_fail_open (cf_license (ag_cfg a))"
    and "check_in d aenv senv host addr (a, s) = (a', s')"
  shows "gate (ag_guard a') = (fst (gate (ag_guard a)), if d = Delivered \<and> admitted senv addr s then False else snd (gate (ag_guard a)))"
    and "revoked_for_good kid (hash_key (li_key (cf_license (ag_cfg a)))) (sv_store s')"
    and "ag_cfg a' = ag_cfg a"
proof -
  let ?req = "fst (agent_send host a)"
  let ?res = "serve_http (senv\<lparr>se_body := ?req\<rparr>) (client_request (agent_client a) heartbeat_path addr) s"
  have no: "\<not> snd (validate_key (cl_key (agent_client a)) (sv_store s))" using revoked_refused [OF assms(1)] by simp
  have "client_do (heartbeat_on_wire (fst ?res)) = (if admitted senv addr s then Some heartbeat_denied else None)"
    using heartbeat_refused [OF no] heartbeat_limited by (simp add: client_do_answer)
  then show "gate (ag_guard a') = (fst (gate (ag_guard a)), if d = Delivered \<and> admitted senv addr s then False else snd (gate (ag_guard a)))"
    using assms(2,3)
    by (auto simp: check_in_def case_prod_beta Let_def agent_receive_gate client_do_answer(4) heartbeat_denied_def split: delivery.splits if_splits)
  show "revoked_for_good kid (hash_key (li_key (cf_license (ag_cfg a)))) (sv_store s')"
    using assms(1,3)
    by (auto simp: check_in_def case_prod_beta Let_def heartbeat_routed revoked_middleware revoked_handlers split: delivery.splits)
  show "ag_cfg a' = ag_cfg a" using assms(3) by (auto simp: check_in_def case_prod_beta Let_def split: delivery.splits)
qed

lemma locked_out_step [go_inv]:
  assumes "locked_out kid h sys" "system_legal sys e"
  shows "locked_out kid h (system_step e sys)"
proof -
  obtain a s where sys: "sys = (a, s)" by (cases sys)
  have h: "h = hash_key (li_key (cf_license (ag_cfg a)))" using assms(1) by (simp add: sys locked_out_def)
  show ?thesis
  proof (cases e)
    case (SAgent ae)
    then show ?thesis using assms by (cases ae) (simp_all add: sys locked_out_def)
  next
    case (SCheckIn d aenv senv host addr)
    obtain a' s' where "check_in d aenv senv host addr (a, s) = (a', s')" by fastforce
    from check_in_revoked [OF _ _ this, of kid] show ?thesis
      using assms(1) SCheckIn \<open>check_in d aenv senv host addr (a, s) = (a', s')\<close> by (simp add: sys locked_out_def h)
  next
    case (SServer env r)
    then show ?thesis using assms revoked_served by (simp add: sys locked_out_def)
  qed
qed

interpretation systems: invariant system_step system_legal "locked_out kid h" for kid h
  by unfold_locales (rule locked_out_step)

text \<open>
  C6. Revocation reaches the agent and stays: once the key of a fail-closed agent is revoked, the first
  check-in that gets through closes its gate, and from then on every request is answered as
  unlicensed, whatever traffic, reloads, lost messages, administration and other agents come after.
\<close>

theorem revocation_reaches_agent:
  assumes "store_ok (sv_store s)" "recorded_everywhere True kid (hash_key (li_key (cf_license (ag_cfg a)))) (sv_store s)"
    and "gd_license_enforced (ag_guard a)" "\<not> li_fail_open (cf_license (ag_cfg a))" "admitted senv addr s"
    and "legal_run system_legal system_step es (check_in Delivered aenv senv host addr (a, s))"
    and "go_run system_step es (check_in Delivered aenv senv host addr (a, s)) = (a', s')"
  shows "fst (guard_enter env r (ag_guard a')) = Unlicensed"
proof -
  let ?h = "hash_key (li_key (cf_license (ag_cfg a)))"
  obtain a1 s1 where c: "check_in Delivered aenv senv host addr (a, s) = (a1, s1)" by fastforce
  have "revoked_for_good kid ?h (sv_store s)" using assms(1,2) by (simp add: revoked_for_good_def)
  from check_in_revoked [OF this assms(4) c] have "locked_out kid ?h (a1, s1)"
    using assms(3-5) by (simp add: locked_out_def gate_def)
  then have "locked_out kid ?h (a', s')"
    using systems.run_keeps [of kid ?h "(a1, s1)" es] assms(6,7) by (simp add: c)
  then show ?thesis by (simp add: locked_out_def guard_enter_unlicensed gate_open_iff)
qed

definition revoked_server :: server where
  "revoked_server = example_server\<lparr>sv_store := snd (revoke ''k_02'' 20 True example_license)\<rparr>"

theorem revocation_reaches_agent_witness:
  "fst (guard_enter example_env example_request (ag_guard (fst (go_run system_step
     [SAgent (AMode True), SCheckIn ReplyLost example_agent_env example_server_env ''web1'' ''192.0.2.1:999'']
     (check_in Delivered example_agent_env example_server_env ''web1'' ''192.0.2.1:999'' (example_agent False, revoked_server)))))) = Unlicensed"
proof (rule revocation_reaches_agent [OF _ _ _ _ _ _ prod.collapse [symmetric]])
  have "store_ok (snd (revoke ''k_02'' 20 True example_license))" by (rule store_ok_revoke) (rule example_license_ok)
  then show "store_ok (sv_store revoked_server)" by (simp add: revoked_server_def)
  show "recorded_everywhere True ''k_02'' (hash_key (li_key (cf_license (ag_cfg (example_agent False))))) (sv_store revoked_server)"
    by (simp add: example_agent_fields revoked_server_def recorded_everywhere_def recorded_def example_license_eq empty_data_def)
  show "gd_license_enforced (ag_guard (example_agent False))" "\<not> li_fail_open (cf_license (ag_cfg (example_agent False)))"
    using example_agent_fields(2) [of False] by (simp_all add: gate_def example_agent_fields(1))
  show "admitted example_server_env ''192.0.2.1:999'' revoked_server"
    by (simp add: admitted_def revoked_server_def example_server_def example_server_env_def new_per_ip_def per_ip_allow_def Let_def take_token_def)
  show "legal_run system_legal system_step
     [SAgent (AMode True), SCheckIn ReplyLost example_agent_env example_server_env ''web1'' ''192.0.2.1:999'']
     (check_in Delivered example_agent_env example_server_env ''web1'' ''192.0.2.1:999'' (example_agent False, revoked_server))"
    by (cases "check_in Delivered example_agent_env example_server_env ''web1'' ''192.0.2.1:999'' (example_agent False, revoked_server)")
      simp
qed

section \<open>Sharing bans\<close>

text \<open>A fleet ban of a table with room: nothing is evicted, nothing expires earlier.\<close>

lemma ban_fleet_room:
  assumes "int (gm_len (bl_banned b)) < bl_max_entries b"
  shows "is_allowed (ban_fleet ord now ip ttl b) jp = is_allowed b jp"
    and "bl_max_entries (ban_fleet ord now ip ttl b) = bl_max_entries b"
    and "gm_len (bl_banned (ban_fleet ord now ip ttl b)) \<le> Suc (gm_len (bl_banned b))"
    and "fmlookup (bl_banned b) jp = Some e \<Longrightarrow>
      \<exists>f. fmlookup (bl_banned (ban_fleet ord now ip ttl b)) jp = Some f \<and> en_expires e \<le> en_expires f"
    and "\<not> is_allowed b ip \<Longrightarrow>
      \<exists>f. fmlookup (bl_banned (ban_fleet ord now ip ttl b)) ip = Some f \<and> now + ttl \<le> en_expires f"
  using assms
  by (auto simp: ban_fleet_def entry_for_def is_allowed_def gm_len_upd Let_def split: option.splits)

lemma apply_blocklist_keeps:
  assumes "fmlookup (bl_banned b) ip = Some e" "int (gm_len (bl_banned b)) + int (length ips) \<le> bl_max_entries b"
  shows "\<exists>f. fmlookup (bl_banned (apply_blocklist env i ttl ips b)) ip = Some f \<and> en_expires e \<le> en_expires f"
  using assms
proof (induction ips arbitrary: i b e)
  case (Cons jp ips)
  let ?b = "ban_fleet (fst (env i)) (snd (env i)) jp ttl b"
  have room: "int (gm_len (bl_banned b)) < bl_max_entries b" using Cons.prems(2) by simp
  obtain f where f: "fmlookup (bl_banned ?b) ip = Some f" "en_expires e \<le> en_expires f"
    using ban_fleet_room(4) [OF room Cons.prems(1)] by blast
  have "int (gm_len (bl_banned ?b)) + int (length ips) \<le> bl_max_entries ?b"
    using ban_fleet_room(2,3) [OF room, of "fst (env i)" "snd (env i)" jp ttl] Cons.prems(2) by simp
  from Cons.IH [OF f(1) this] show ?case using f(2) by force
qed simp

lemma apply_blocklist_bans:
  assumes "ip \<in> set ips" "\<not> is_allowed b ip" "int (gm_len (bl_banned b)) + int (length ips) \<le> bl_max_entries b"
    and "\<And>i. now \<le> snd (env i)"
  shows "\<exists>f. fmlookup (bl_banned (apply_blocklist env i ttl ips b)) ip = Some f \<and> now + ttl \<le> en_expires f"
  using assms(1-3)
proof (induction ips arbitrary: i b)
  case (Cons jp ips)
  let ?b = "ban_fleet (fst (env i)) (snd (env i)) jp ttl b"
  have room: "int (gm_len (bl_banned b)) < bl_max_entries b" using Cons.prems(3) by simp
  have room': "int (gm_len (bl_banned ?b)) + int (length ips) \<le> bl_max_entries ?b"
    using ban_fleet_room(2,3) [OF room, of "fst (env i)" "snd (env i)" jp ttl] Cons.prems(3) by simp
  show ?case
  proof (cases "ip = jp")
    case True
    then obtain f where "fmlookup (bl_banned ?b) ip = Some f" "snd (env i) + ttl \<le> en_expires f"
      using ban_fleet_room(5) [OF room] Cons.prems(2) by blast
    then show ?thesis using apply_blocklist_keeps [OF _ room', of ip f env "Suc i" ttl] assms(4) [of i] by force
  next
    case False
    then show ?thesis
      using Cons.IH [of ?b "Suc i"] Cons.prems(1,2) room' ban_fleet_room(1) [OF room, of "fst (env i)" "snd (env i)" jp ttl ip] by simp
  qed
qed simp

lemma apply_blocklist_allowed: "is_allowed (apply_blocklist env i ttl ips b) ip = is_allowed b ip"
  by (induction ips arbitrary: i b) (simp_all add: ban_fleet_def is_allowed_def case_prod_beta Let_def)

text \<open>What a delivered check-in with a valid key does when the policy of the agent is up to date.\<close>

lemma check_in_up_to_date:
  assumes "validate_key (li_key (cf_license (ag_cfg a))) (sv_store s) = (Some k, True)" "admitted senv addr s"
    and "snd (policy_of (ky_id k) (sv_store s)) = ag_applied_policy a"
    and "check_in Delivered aenv senv host addr (a, s) = (a', s')"
  defines "req \<equiv> fst (agent_send host a)"
  defines "answer \<equiv> fst (fleet_blocklist (se_ord_list senv) (se_now senv) (se_ok_sweep senv) (reported senv req addr k s))"
  shows "gd_bans (ag_guard a') =
      (if li_fleet_bans (cf_license (ag_cfg a)) \<and> snd answer \<noteq> ag_applied_blocklist a
       then apply_blocklist (ae_ban aenv) 0 (ba_max_duration (cf_ban (ag_cfg a))) (fst answer) (gd_bans (ag_guard (snd (agent_send host a))))
       else gd_bans (ag_guard (snd (agent_send host a))))"
    and "gd_snap (ag_guard a') = gd_snap (ag_guard a)" "ag_applied_policy a' = ag_applied_policy a" "ag_cfg a' = ag_cfg a"
    and "sv_store s' = snd (fleet_blocklist (se_ord_list senv) (se_now senv) (se_ok_sweep senv) (reported senv req addr k s))"
    and "sv_fleet_ttl s' = sv_fleet_ttl s" "sv_fleet_max s' = sv_fleet_max s"
proof -
  let ?v = "heartbeat_answer req (policy_of (ky_id k) (sv_store s)) answer"
  have v: "hr_policy ?v = None" "hr_licensed ?v" "hr_blocklist ?v = (if snd answer \<noteq> hb_blocklist_version req then Some (fst answer) else None)"
    using assms(3) by (simp_all add: req_def)
  have bl: "hb_blocklist_version req = (if li_fleet_bans (cf_license (ag_cfg a)) then ag_applied_blocklist a else 0)"
    "snd (policy_of (ky_id k) (sv_store s)) = hb_policy_version req"
    using assms(3) by (simp_all add: req_def)
  note served = heartbeat_served [of "agent_client a" s k senv addr req, unfolded agent_client_key, OF assms(1,2)]
  have do: "client_do (heartbeat_on_wire (HeartbeatReply status_ok ?v)) = Some ?v"
    using v(1) by (simp add: client_do_answer transmit_section_def)
  have a': "a' = agent_receive aenv (Some ?v) (snd (agent_send host a))"
    and s': "sv_store s' = snd (fleet_blocklist (se_ord_list senv) (se_now senv) (se_ok_sweep senv) (reported senv req addr k s))"
      "sv_fleet_ttl s' = sv_fleet_ttl s" "sv_fleet_max s' = sv_fleet_max s"
    using assms(4) by (auto simp: check_in_def served [unfolded req_def] do [unfolded req_def answer_def] req_def answer_def Let_def)
  show "sv_store s' = snd (fleet_blocklist (se_ord_list senv) (se_now senv) (se_ok_sweep senv) (reported senv req addr k s))"
    "sv_fleet_ttl s' = sv_fleet_ttl s" "sv_fleet_max s' = sv_fleet_max s" by (fact s')+
  show "gd_bans (ag_guard a') =
      (if li_fleet_bans (cf_license (ag_cfg a)) \<and> snd answer \<noteq> ag_applied_blocklist a
       then apply_blocklist (ae_ban aenv) 0 (ba_max_duration (cf_ban (ag_cfg a))) (fst answer) (gd_bans (ag_guard (snd (agent_send host a))))
       else gd_bans (ag_guard (snd (agent_send host a))))"
    "gd_snap (ag_guard a') = gd_snap (ag_guard a)" "ag_applied_policy a' = ag_applied_policy a" "ag_cfg a' = ag_cfg a"
    unfolding a' agent_receive_def
    by (simp_all add: v bl apply_policy_def apply_license_def set_licensed_def Let_def split: if_split)
qed

definition fleet_room :: "server_env \<Rightarrow> heartbeat_req \<Rightarrow> server \<Rightarrow> bool" where
  "fleet_room env req s \<longleftrightarrow> sv_fleet_max s \<le> 0 \<or>
     int (gm_len (fst (fleet_add (se_now env + sv_fleet_ttl s) (hb_recent_bans req) (fleet_of (sv_store s))))) \<le> sv_fleet_max s"

lemma reported_fleet:
  assumes "fleet_room env req s"
  shows "fmlookup (fleet_of (reported env req addr k s)) ip =
    (if ip \<in> set (hb_recent_bans req) then Some (se_now env + sv_fleet_ttl s) else fmlookup (fleet_of (sv_store s)) ip)"
proof -
  have h: "fleet_of (snd (record_heartbeat i st now ok ls)) = fleet_of ls" for i st now ok ls
    by (simp add: fleet_of_def record_heartbeat_def Let_def)
  have "\<not> (0 < sv_fleet_max s \<and> sv_fleet_max s <
      int (gm_len (fst (fleet_add (se_now env + sv_fleet_ttl s) (hb_recent_bans req) (fleet_of (sv_store s))))))"
    using assms by (auto simp: fleet_room_def)
  then show ?thesis
    by (simp add: reported_def add_fleet_bans_fleet(1) h Let_def del: de_Morgan_conj)
qed

lemma fleet_blocklist_lists:
  assumes "fmlookup (fleet_of ls) ip = Some e" "now < e"
  shows "fmlookup (fleet_of (snd (fleet_blocklist ord now ok ls))) ip = Some e"
    and "ip \<in> set ord \<Longrightarrow> ip \<in> set (fst (fst (fleet_blocklist ord now ok ls)))"
    and "length (fst (fst (fleet_blocklist ord now ok ls))) \<le> length ord"
    and "snd (fst (fleet_blocklist ord now ok ls)) = version_of (snd (fleet_blocklist ord now ok ls))"
  using assms by (simp_all add: fleet_blocklist_def fleet_of_def version_of_def save_def Let_def)


text \<open>A concrete agent that has just banned an address, and the control plane after its check-in.\<close>

definition banning_agent :: agent where
  "banning_agent = (example_agent False)\<lparr>ag_guard := (ag_guard (example_agent False))\<lparr>gd_bans :=
     snd (ban 0 [] 5 ''203.0.113.7'' (new_store (60 * second) hour 2 1000000 []))\<rparr>\<rparr>"

definition informed_server :: server where
  "informed_server = snd (check_in Delivered example_agent_env example_server_env ''web1'' ''192.0.2.1:999'' (banning_agent, example_server))"

lemma banning_agent_fields [simp]:
  "ag_cfg banning_agent = example_config False"
  "fst (drain_recent (gd_bans (ag_guard banning_agent))) = [''203.0.113.7'']"
  by (simp_all add: banning_agent_def example_agent_fields ban_def new_store_def set_allowlist_def is_allowed_def entry_for_def
      record_recent_def recent_cap_def drain_recent_def Let_def net_contains_def case_prod_beta split: option.split)

lemma example_server_key: "validate_key ''agsk_01'' (sv_store example_server) = (Some example_key, True)"
  by (simp add: example_server_def example_license_eq validate_key_def)

lemma example_admitted: "admitted example_server_env addr example_server"
  by (simp add: admitted_def example_server_def new_per_ip_def per_ip_allow_def take_token_def Let_def)

lemma informed_server_eq:
  "sv_store informed_server = snd (fleet_blocklist [] 0 True (reported example_server_env
     (fst (agent_send ''web1'' banning_agent)) ''192.0.2.1:999'' example_key example_server))"
  "sv_limiter informed_server = snd (per_ip_allow [] 0 (server_host_of ''192.0.2.1:999'') (sv_limiter example_server))"
  "sv_fleet_ttl informed_server = hour" "sv_fleet_max informed_server = 10000"
  using heartbeat_served [of "agent_client banning_agent" example_server example_key example_server_env "''192.0.2.1:999''"
      "fst (agent_send ''web1'' banning_agent)"] example_server_key example_admitted
  by (simp_all add: informed_server_def check_in_def Let_def example_server_env_def) (simp_all add: example_server_def)

lemma example_server_fields:
  "fleet_of (sv_store example_server) = fmempty" "version_of (sv_store example_server) = 0"
  "sv_fleet_ttl example_server = hour" "sv_fleet_max example_server = 10000"
  by (simp_all add: example_server_def example_license_eq fleet_of_def version_of_def empty_data_def)

lemma reported_example:
  "fleet_of (reported example_server_env (fst (agent_send ''web1'' banning_agent)) addr example_key example_server) =
     fmupd ''203.0.113.7'' hour fmempty"
  "version_of (reported example_server_env (fst (agent_send ''web1'' banning_agent)) addr example_key example_server) = 1"
  by (simp_all add: reported_def add_fleet_bans_fleet Let_def example_server_env_def example_server_fields gm_len_upd)

lemma informed_server_fields:
  "fmlookup (fleet_of (sv_store informed_server)) ip = (if ip = ''203.0.113.7'' then Some hour else None)"
  "version_of (sv_store informed_server) = 1"
  "validate_key ''agsk_01'' (sv_store informed_server) = (Some example_key, True)"
  "policy_of i (sv_store informed_server) = (None, 0)"
proof -
  let ?r = "reported example_server_env (fst (agent_send ''web1'' banning_agent)) ''192.0.2.1:999'' example_key example_server"
  have hour: "0 < hour" by (simp add: hour_def minute_def second_def)
  have f: "fleet_of (snd (fleet_blocklist [] 0 True r)) = fmfilter (\<lambda>ip. case fmlookup (fleet_of r) ip of Some e \<Rightarrow> 0 < e | None \<Rightarrow> False) (fleet_of r)"
    "version_of (snd (fleet_blocklist [] 0 True r)) = version_of r" for r
    unfolding fleet_of_def version_of_def fleet_blocklist_def Let_def by simp_all
  show "fmlookup (fleet_of (sv_store informed_server)) ip = (if ip = ''203.0.113.7'' then Some hour else None)"
    using hour by (simp add: informed_server_eq f reported_example)
  show "version_of (sv_store informed_server) = 1" by (simp add: informed_server_eq f reported_example)
  have "ls_by_hash (sv_store informed_server) = ls_by_hash (sv_store example_server)"
    "dt_keys (ls_data (sv_store informed_server)) = dt_keys (ls_data (sv_store example_server))"
    by (simp_all add: informed_server_eq reported_def Let_def)
  then show "validate_key ''agsk_01'' (sv_store informed_server) = (Some example_key, True)"
    using example_server_key by (simp add: validate_key_def cong: option.case_cong)
  have "policy_of i (sv_store informed_server) = policy_of i (sv_store example_server)"
    by (simp add: informed_server_eq reported_def Let_def)
  then show "policy_of i (sv_store informed_server) = (None, 0)"
    by (simp add: policy_of_def example_server_def example_license_eq empty_data_def)
qed

definition late_env :: server_env where
  "late_env = example_server_env\<lparr>se_now := 10, se_ord_list := [''203.0.113.7'']\<rparr>"

lemma example_env_fields:
  "se_now example_server_env = 0" "se_now late_env = 10" "se_ord_list late_env = [''203.0.113.7'']"
  "ae_ban example_agent_env i = ([], 0)"
  by (simp_all add: late_env_def example_server_env_def example_agent_env_def)

lemma example_not_allowed:
  "\<not> is_allowed (new_store base maxd esc cap []) ip" "bl_banned (new_store base maxd esc cap []) = fmempty"
  "bl_max_entries (new_store base maxd esc cap []) = cap"
  by (simp_all add: new_store_def set_allowlist_def is_allowed_def net_contains_def split: option.split)

lemma example_no_reports: "fst (drain_recent (gd_bans (ag_guard (example_agent False)))) = []"
  by (simp add: example_agent_fields example_bans drain_recent_def new_store_def set_allowlist_def)


section \<open>Pushing policies\<close>

lemma check_in_store:
  assumes "check_in d aenv senv host addr (a, s) = (a', s')"
  shows "validate_key p (sv_store s') = validate_key p (sv_store s)" "policy_of i (sv_store s') = policy_of i (sv_store s)"
proof -
  have h: "ls_by_hash (sv_store (snd (handle_heartbeat env r t))) = ls_by_hash (sv_store t)"
    "dt_keys (ls_data (sv_store (snd (handle_heartbeat env r t)))) = dt_keys (ls_data (sv_store t))"
    "policy_of i (sv_store (snd (handle_heartbeat env r t))) = policy_of i (sv_store t)" for env r t
    by (simp_all add: handle_heartbeat_def Let_def case_prod_beta split: prod.split option.split bool.split)
  have v: "ls_by_hash (sv_store s') = ls_by_hash (sv_store s)" "dt_keys (ls_data (sv_store s')) = dt_keys (ls_data (sv_store s))"
    "policy_of i (sv_store s') = policy_of i (sv_store s)"
    using assms by (auto simp: check_in_def heartbeat_routed rate_limited_def h Let_def case_prod_beta split: delivery.splits)
  show "policy_of i (sv_store s') = policy_of i (sv_store s)" by (rule v(3))
  show "validate_key p (sv_store s') = validate_key p (sv_store s)"
    unfolding validate_key_def v(1,2) by (rule refl)
qed

text \<open>The agent has the version of its policy that the control plane holds for its key.\<close>

definition synced :: "agent \<times> server \<Rightarrow> bool" where
  "synced sys \<longleftrightarrow> (\<forall>k. validate_key (li_key (cf_license (ag_cfg (fst sys)))) (sv_store (snd sys)) = (Some k, True) \<longrightarrow>
     snd (policy_of (ky_id k) (sv_store (snd sys))) = ag_applied_policy (fst sys))"

lemma agent_receive_no_policy:
  assumes "\<And>v. resp = Some v \<Longrightarrow> hr_policy v = None"
  shows "gd_snap (ag_guard (agent_receive env resp a)) = gd_snap (ag_guard a)"
    and "ag_applied_policy (agent_receive env resp a) = ag_applied_policy a"
  using assms
  by (auto simp: agent_receive_def apply_policy_def apply_license_def set_licensed_def Let_def split: option.split)

lemma check_in_synced:
  assumes "synced (a, s)" "check_in d aenv senv host addr (a, s) = (a', s')"
  shows "synced (a', s')" "gd_snap (ag_guard a') = gd_snap (ag_guard a)" "ag_applied_policy a' = ag_applied_policy a"
proof -
  let ?req = "fst (agent_send host a)"
  let ?res = "fst (serve_http (senv\<lparr>se_body := ?req\<rparr>) (client_request (agent_client a) heartbeat_path addr) s)"
  have none: "hr_policy v = None" if v: "client_do (heartbeat_on_wire ?res) = Some v" for v
  proof (cases "admitted senv addr s")
    case True
    show ?thesis
    proof (cases "validate_key (cl_key (agent_client a)) (sv_store s)")
      case (Pair kk b)
      show ?thesis
      proof (cases b)
        case b: True
        then obtain k where k: "validate_key (cl_key (agent_client a)) (sv_store s) = (Some k, True)"
          using Pair by (auto simp: validate_key_def dest: sym split: option.splits)
        then have "snd (policy_of (ky_id k) (sv_store s)) = hb_policy_version ?req" using assms(1) by (simp add: synced_def)
        then show ?thesis
          using v by (auto simp: heartbeat_served [OF k True] client_do_answer transmit_section_def)
      next
        case False
        then show ?thesis
          using v Pair heartbeat_refused [OF _ True, of "agent_client a" ?req] by (auto simp: client_do_answer)
      qed
    qed
  next
    case False
    then show ?thesis using v heartbeat_limited by (simp add: client_do_answer)
  qed
  have a': "\<exists>resp. a' = agent_receive aenv resp (snd (agent_send host a)) \<and> (\<forall>v. resp = Some v \<longrightarrow> hr_policy v = None)"
    using assms(2) none by (cases d) (auto simp: check_in_def Let_def case_prod_beta client_do_answer(4))
  then show g: "gd_snap (ag_guard a') = gd_snap (ag_guard a)" "ag_applied_policy a' = ag_applied_policy a"
    using agent_receive_no_policy by fastforce+
  have "ag_cfg a' = ag_cfg a" using a' by auto
  then show "synced (a', s')" using assms(1) g(2) check_in_store [OF assms(2)] by (simp add: synced_def)
qed

fun is_check_in :: "system_event \<Rightarrow> bool" where
  "is_check_in (SCheckIn d aenv senv host addr) = True"
| "is_check_in e = False"

lemma check_ins_keep:
  assumes "synced sys" "\<forall>e\<in>set es. is_check_in e"
  shows "gd_snap (ag_guard (fst (go_run system_step es sys))) = gd_snap (ag_guard (fst sys)) \<and>
    ag_applied_policy (fst (go_run system_step es sys)) = ag_applied_policy (fst sys)"
  using assms
proof (induction es arbitrary: sys)
  case (Cons e es)
  obtain a s where sys: "sys = (a, s)" by (cases sys)
  obtain d aenv senv host addr where e: "e = SCheckIn d aenv senv host addr" using Cons.prems(2) by (cases e) auto
  obtain a' s' where c: "check_in d aenv senv host addr (a, s) = (a', s')" by fastforce
  show ?case using check_in_synced [OF _ c] Cons.IH [of "(a', s')"] Cons.prems c by (simp add: sys e)
qed simp

text \<open>The answer to a check-in that pushes a policy without durations.\<close>

lemma check_in_pushes:
  assumes "validate_key (li_key (cf_license (ag_cfg a))) (sv_store s) = (Some k, True)" "admitted senv addr s"
    and "policy_of (ky_id k) (sv_store s) = (Some doc, ver)" "ver \<noteq> ag_applied_policy a" "transmit_policy doc = Some doc"
    and "build_snapshot (ae_regex aenv) (ae_now aenv) (normalize (apply_to doc (ag_cfg a))) = Inr snap"
    and "check_in Delivered aenv senv host addr (a, s) = (a', s')"
  shows "gd_snap (ag_guard a') = snap" "ag_applied_policy a' = ver" "ag_cfg a' = ag_cfg a"
    "is_allowed (gd_bans (ag_guard a')) ip = net_contains (parse_cidrs (cf_allowlist (apply_to doc (ag_cfg a)))) ip"
proof -
  define req where "req = fst (agent_send host a)"
  define v where "v = heartbeat_answer req (Some doc, ver) (fst (fleet_blocklist (se_ord_list senv) (se_now senv) (se_ok_sweep senv)
    (reported senv req addr k s)))"
  have v: "hr_policy v = Some doc" "hr_policy_version v = ver"
    using assms(4) by (simp_all add: v_def req_def)
  have "client_do (heartbeat_on_wire (HeartbeatReply status_ok v)) = Some v"
    using v(1) assms(5) by (simp add: client_do_answer transmit_section_def)
  then have a': "a' = agent_receive aenv (Some v) (snd (agent_send host a))"
    using heartbeat_served [of "agent_client a" s k senv addr req, unfolded agent_client_key, OF assms(1,2)] assms(3,7)
    by (auto simp: check_in_def req_def [symmetric] v_def [symmetric] Let_def)
  define p where "p = apply_policy (ae_regex aenv) (ae_now aenv) (Some doc) ver (apply_license (hr_licensed v) (snd (agent_send host a)))"
  have p: "gd_snap (ag_guard p) = snap" "ag_applied_policy p = ver" "ag_cfg p = ag_cfg a"
    "bl_allow_nets (gd_bans (ag_guard p)) = Some (parse_cidrs (cf_allowlist (apply_to doc (ag_cfg a))))"
  proof -
    have "apply_license (hr_licensed v) (snd (agent_send host a)) = snd (agent_send host a) \<or>
        apply_license (hr_licensed v) (snd (agent_send host a)) =
          (snd (agent_send host a))\<lparr>ag_guard := set_licensed (hr_licensed v) (ag_guard (snd (agent_send host a)))\<rparr>"
      by (simp add: apply_license_def)
    then show "gd_snap (ag_guard p) = snap" "ag_applied_policy p = ver" "ag_cfg p = ag_cfg a"
      "bl_allow_nets (gd_bans (ag_guard p)) = Some (parse_cidrs (cf_allowlist (apply_to doc (ag_cfg a))))"
      using assms(4,6) by (auto simp: p_def apply_policy_def guard_reload_def set_params_def set_allowlist_def normalize_def
          apply_defaults_def Let_def)
  qed
  have allow: "is_allowed (apply_blocklist e i ttl ips b) ip = is_allowed b ip" for e i ttl ips b
    by (rule apply_blocklist_allowed)
  have "agent_receive aenv (Some v) (snd (agent_send host a)) = (case hr_blocklist v of None \<Rightarrow> p
      | Some ips \<Rightarrow> if li_fleet_bans (cf_license (ag_cfg p)) then
          p\<lparr>ag_guard := (ag_guard p)\<lparr>gd_bans := apply_blocklist (ae_ban aenv) 0 (ba_max_duration (cf_ban (ag_cfg p))) ips (gd_bans (ag_guard p))\<rparr>,
            ag_applied_blocklist := hr_blocklist_version v\<rparr> else p)"
    by (simp only: agent_receive_def p_def v Let_def option.case)
  then show "gd_snap (ag_guard a') = snap" "ag_applied_policy a' = ver" "ag_cfg a' = ag_cfg a"
    "is_allowed (gd_bans (ag_guard a')) ip = net_contains (parse_cidrs (cf_allowlist (apply_to doc (ag_cfg a)))) ip"
    unfolding a' using p by (auto simp: allow split: option.split) (auto simp: is_allowed_def)
qed


text \<open>The example control plane with a policy pushed to its key.\<close>

definition policy_server :: "policy_doc \<Rightarrow> server" where
  "policy_server doc = example_server\<lparr>sv_store := snd (set_policy ''k_02'' doc True example_license)\<rparr>"

lemma policy_server_fields:
  "validate_key ''agsk_01'' (sv_store (policy_server doc)) = (Some example_key, True)"
  "policy_of ''k_02'' (sv_store (policy_server doc)) = (Some doc, 1)"
  "admitted example_server_env addr (policy_server doc)"
  using example_server_key example_admitted [of addr]
  by (simp_all add: policy_server_def example_server_def validate_key_def set_policy_def policy_of_def admitted_def
      example_license_eq empty_data_def Let_def case_prod_beta)

lemma build_without_rules: "cf_rules c = [] \<Longrightarrow> \<exists>snap. build_snapshot regex now c = Inr snap"
  by (simp add: build_snapshot_def compile_rules_def)


text \<open>
  C34. A reload of the local file drops the pushed policy for good: afterwards the guard runs the policy
  of the file alone, while the agent goes on reporting the version of the pushed one, so no later check-in
  brings it back.
\<close>

theorem local_reload_drops_pushed_policy:
  assumes "synced (a, s)" "local_reload regex now (Inr nc) a = (True, b)" "\<forall>e\<in>set es. is_check_in e"
    and "go_run system_step es (b, s) = (c, s')"
  shows "build_snapshot regex now nc = Inr (gd_snap (ag_guard c)) \<and> ag_applied_policy c = ag_applied_policy a"
proof -
  have b: "build_snapshot regex now nc = Inr (gd_snap (ag_guard b))" "ag_applied_policy b = ag_applied_policy a" "ag_cfg b = ag_cfg a"
    using assms(2) by (auto simp: local_reload_def guard_reload_def Let_def split: sum.splits prod.splits option.splits)
  then have "synced (b, s)" using assms(1) by (simp add: synced_def)
  from check_ins_keep [OF this assms(3)] show ?thesis using assms(4) b by simp
qed

theorem local_reload_drops_pushed_policy_witness:
  "ag_applied_policy (fst (go_run system_step [SCheckIn Delivered example_agent_env example_server_env ''web1'' ''192.0.2.1:999'']
     (snd (local_reload (\<lambda>_. None) 5 (Inr zero_config) ((example_agent False)\<lparr>ag_applied_policy := 1\<rparr>)), policy_server empty_policy))) = 1"
proof -
  let ?a = "(example_agent False)\<lparr>ag_applied_policy := 1\<rparr>"
  have "synced (?a, policy_server empty_policy)"
    using policy_server_fields(1,2) [of empty_policy] by (simp add: synced_def example_agent_fields)
  moreover obtain snap where "build_snapshot (\<lambda>_. None) 5 zero_config = Inr snap"
    using build_without_rules zero_config_fields(8) by blast
  then have "local_reload (\<lambda>_. None) 5 (Inr zero_config) ?a = (True, snd (local_reload (\<lambda>_. None) 5 (Inr zero_config) ?a))"
    by (simp add: local_reload_def guard_reload_def Let_def)
  ultimately show ?thesis
    using local_reload_drops_pushed_policy [OF _ _ _ prod.collapse [symmetric], of ?a "policy_server empty_policy" "\<lambda>_. None" 5 zero_config
        _ "[SCheckIn Delivered example_agent_env example_server_env ''web1'' ''192.0.2.1:999'']"] by force
qed

text \<open>
  C33. A policy with durations shuts its agent out: while the control plane holds for the key a version the agent
  does not have, and the document sets the ban, challenge or connection section, neither the validation at start nor
  any check-in is understood, so a fail-closed agent that was not licensed before stays unlicensed
  although its key is valid.
\<close>

theorem duration_policy_locks_agent_out:
  assumes "validate_key (li_key (cf_license (ag_cfg a))) (sv_store s) = (Some k, True)" "admitted senv addr s"
    and "policy_of (ky_id k) (sv_store s) = (Some doc, ver)" "ver \<noteq> ag_applied_policy a"
    and "pd_ban doc \<noteq> None \<or> pd_challenge doc \<noteq> None \<or> pd_connection doc \<noteq> None"
  shows "client_do (validate_on_wire (fst (serve_http senv (client_request (agent_client a) validate_path addr) s))) = None \<and>
    fst (check_in d aenv senv host addr (a, s)) = snd (agent_send host a) \<and>
    gate (ag_guard (fst (check_in d aenv senv host addr (a, s)))) = gate (ag_guard a)"
proof -
  have t: "transmit_policy doc = None" using assms(5) by (simp add: transmit_policy_eq)
  have "client_do (validate_on_wire (fst (serve_http senv (client_request (agent_client a) validate_path addr) s))) = None"
    using assms(1-3) t unfolding heartbeat_routed
    by (simp add: rate_limited_def admitted_def handle_validate_def transmit_section_def client_do_def Let_def case_prod_beta
        status_ok_def status_unauthorized_def)
  moreover have "fst (check_in d aenv senv host addr (a, s)) = snd (agent_send host a)"
    using heartbeat_served [of "agent_client a" s k senv addr "fst (agent_send host a)", unfolded agent_client_key, OF assms(1,2)] assms(3,4) t
    by (cases d) (simp_all add: check_in_def Let_def client_do_answer transmit_section_def agent_receive_def)
  ultimately show ?thesis by simp
qed

theorem duration_policy_locks_agent_out_witness:
  "fst (check_in Delivered example_agent_env example_server_env ''web1'' ''192.0.2.1:999''
     (example_agent False, policy_server (empty_policy\<lparr>pd_ban := Some (cf_ban zero_config)\<rparr>))) = snd (agent_send ''web1'' (example_agent False))"
  by (rule duration_policy_locks_agent_out [where k = example_key and ver = 1
        and doc = "empty_policy\<lparr>pd_ban := Some (cf_ban zero_config)\<rparr>", THEN conjunct2, THEN conjunct1])
    (simp_all add: policy_server_fields example_agent_fields)

end
