(* ===== verification/Fingerprint.thy ===== *)
theory Fingerprint
  imports Go_Crypto Go_Prelude "HOL-Library.Multiset"
begin

text \<open>
  \<^verbatim>\<open>internal/fingerprint/fingerprint.go\<close>: JA3 and JA4 of a ClientHello, and the collector that hands the
  fingerprint of a connection to its requests. A \<open>client_hello\<close> has the fields of \<open>tls.ClientHelloInfo\<close> the
  code reads; \<open>he_remote\<close> is the address of \<open>chi.Conn\<close>, or \<open>None\<close> for a nil connection. Holders are addressed by
  numbers, as the pointers the code shares between the map and the request contexts.
\<close>

section \<open>JA3 and JA4\<close>

record client_hello =
  he_cipher_suites :: "16 word list"
  he_server_name :: string
  he_curves :: "16 word list"
  he_points :: "8 word list"
  he_signature_schemes :: "16 word list"
  he_protos :: "string list"
  he_versions :: "16 word list"
  he_extensions :: "16 word list"
  he_remote :: "string option"

definition is_grease :: "16 word \<Rightarrow> bool" where
  "is_grease v \<longleftrightarrow> and v 0x0f0f = 0x0a0a"

definition filter_grease :: "16 word list \<Rightarrow> 16 word list" where
  "filter_grease vs = filter (\<lambda>v. \<not> is_grease v) vs"

definition max_version :: "16 word list \<Rightarrow> 16 word" where
  "max_version vs = foldl (\<lambda>m v. if \<not> is_grease v \<and> m < v then v else m) 0 vs"

definition join_dec :: "'a::len word list \<Rightarrow> string" where
  "join_dec vs = join ''-'' (map (\<lambda>v. itoa (uint v)) vs)"

definition ja3 :: "client_hello \<Rightarrow> string" where
  "ja3 chi =
     hex_of (md5_sum (bytes_of (join '',''
       [itoa (uint (max_version (he_versions chi))),
        join_dec (filter_grease (he_cipher_suites chi)),
        join_dec (filter_grease (he_extensions chi)),
        join_dec (filter_grease (he_curves chi)),
        join_dec (he_points chi)])))"

definition ja4_version :: "16 word \<Rightarrow> string" where
  "ja4_version v =
     (if v = 0x0304 then ''13'' else if v = 0x0303 then ''12'' else if v = 0x0302 then ''11''
      else if v = 0x0301 then ''10'' else ''00'')"

text \<open>\<open>string(b)\<close> of a byte: the UTF-8 encoding of the rune with that number.\<close>

definition rune_string :: "char \<Rightarrow> string" where
  "rune_string c =
     (let n = of_char c :: nat
      in if n < 128 then [c] else [char_of (192 + n div 64), char_of (128 + n mod 64)])"

definition ja4_alpn :: "string list \<Rightarrow> string" where
  "ja4_alpn protos =
     (case protos of
        [] \<Rightarrow> ''00''
      | p # _ \<Rightarrow> if p = [] then ''00'' else rune_string (p ! 0) @ rune_string (p ! (length p - 1)))"

text \<open>\<open>%02d\<close> of a number below 100.\<close>

definition count2 :: "nat \<Rightarrow> string" where
  "count2 n = (let n = min n 99 in [digit_char (int n div 10), digit_char (int n mod 10)])"

text \<open>\<open>%04x\<close> of a 16-bit number.\<close>

definition hex4 :: "16 word \<Rightarrow> string" where
  "hex4 v = (let n = unat v in [hex_digit (n div 4096), hex_digit (n div 256 mod 16), hex_digit (n div 16 mod 16), hex_digit (n mod 16)])"

definition sorted_hex :: "16 word list \<Rightarrow> string" where
  "sorted_hex vs = join '','' (sort (map hex4 vs))"

definition ordered_hex :: "16 word list \<Rightarrow> string" where
  "ordered_hex vs = join '','' (map hex4 vs)"

definition hash12 :: "string \<Rightarrow> string" where
  "hash12 s = (if s = [] \<or> s = ''_'' then ''000000000000'' else take 12 (hex_of (sha256 (bytes_of s))))"

definition ja4 :: "client_hello \<Rightarrow> string" where
  "ja4 chi =
     (let ciphers = filter_grease (he_cipher_suites chi);
          exts = filter_grease (he_extensions chi);
          sni = (if he_server_name chi \<noteq> [] then ''d'' else ''i'');
          a = ''t'' @ ja4_version (max_version (he_versions chi)) @ sni @ count2 (length ciphers) @ count2 (length exts) @
            ja4_alpn (he_protos chi);
          b = hash12 (sorted_hex ciphers);
          c = hash12 (sorted_hex (filter (\<lambda>e. e \<noteq> 0x0000 \<and> e \<noteq> 0x0010) exts) @ ''_'' @
            ordered_hex (filter_grease (he_signature_schemes chi)))
      in a @ ''_'' @ b @ ''_'' @ c)"

section \<open>The collector\<close>

record collector =
  fp_pending :: "(string, nat) fmap"
  fp_holders :: "nat \<Rightarrow> (string \<times> string) option"
  fp_next :: nat

definition new_collector :: collector where
  "new_collector = \<lparr>fp_pending = fmempty, fp_holders = (\<lambda>_. None), fp_next = 0\<rparr>"

text \<open>\<open>ConnContext\<close>: the result is the holder stored in the context of the connection.\<close>

definition conn_context :: "string \<Rightarrow> collector \<Rightarrow> nat \<times> collector" where
  "conn_context addr c =
     (fp_next c, c\<lparr>fp_pending := fmupd addr (fp_next c) (fp_pending c), fp_holders := (fp_holders c)(fp_next c := None),
        fp_next := Suc (fp_next c)\<rparr>)"

definition observe :: "client_hello \<Rightarrow> collector \<Rightarrow> collector" where
  "observe chi c =
     (case he_remote chi of
        None \<Rightarrow> c
      | Some addr \<Rightarrow>
          (case fmlookup (fp_pending c) addr of
             None \<Rightarrow> c
           | Some h \<Rightarrow> c\<lparr>fp_pending := fmdrop addr (fp_pending c), fp_holders := (fp_holders c)(h := Some (ja3 chi, ja4 chi))\<rparr>))"

text \<open>\<open>ConnState\<close>; the flag is \<open>state == http.StateClosed\<close>.\<close>

definition conn_state :: "string \<Rightarrow> bool \<Rightarrow> collector \<Rightarrow> collector" where
  "conn_state addr gone c = (if gone then c\<lparr>fp_pending := fmdrop addr (fp_pending c)\<rparr> else c)"

text \<open>\<open>FromContext\<close>: the context of a request holds a holder or none.\<close>

definition from_context :: "nat option \<Rightarrow> collector \<Rightarrow> (string \<times> string) option" where
  "from_context h c = (case h of None \<Rightarrow> None | Some i \<Rightarrow> fp_holders c i)"

section \<open>GREASE\<close>

lemma filter_grease_simps [simp]:
  "filter_grease [] = []" "filter_grease (v # vs) = (if is_grease v then filter_grease vs else v # filter_grease vs)"
  "filter_grease (vs @ ws) = filter_grease vs @ filter_grease ws"
  by (simp_all add: filter_grease_def)

lemma max_version_fold: "foldl (\<lambda>m v. if \<not> is_grease v \<and> m < v then v else m) m vs = foldl max m (filter_grease vs)"
  by (induction vs arbitrary: m) (auto simp: max_def)

lemma max_version_eq: "max_version vs = foldl max 0 (filter_grease vs)"
  by (simp add: max_version_def max_version_fold)

text \<open>The hello with the GREASE values taken out everywhere.\<close>

definition degreased :: "client_hello \<Rightarrow> client_hello" where
  "degreased chi = chi\<lparr>he_cipher_suites := filter_grease (he_cipher_suites chi), he_curves := filter_grease (he_curves chi),
     he_signature_schemes := filter_grease (he_signature_schemes chi), he_versions := filter_grease (he_versions chi),
     he_extensions := filter_grease (he_extensions chi)\<rparr>"

lemma filter_grease_idem [simp]: "filter_grease (filter_grease vs) = filter_grease vs"
  by (simp add: filter_grease_def)

lemma fingerprint_degreased: "ja3 (degreased chi) = ja3 chi" "ja4 (degreased chi) = ja4 chi"
  by (simp_all add: ja3_def ja4_def degreased_def max_version_eq Let_def)

section \<open>Properties of the fingerprints\<close>

lemma foldl_max_set: "foldl max (m :: 'a::linorder) vs = Max (insert m (set vs))"
proof -
  have "(\<lambda>x m. max m x) = (max :: 'a \<Rightarrow> 'a \<Rightarrow> 'a)" by (intro ext) (simp add: max.commute)
  then show ?thesis using Max.set_eq_fold [of m vs] by (simp add: foldl_conv_fold)
qed

lemma sort_map_mset: "mset vs = mset ws \<Longrightarrow> sort (map f vs) = sort (map f ws)"
  by (rule properties_for_sort) (simp_all add: mset_map)

text \<open>
  C28. JA4 does not depend on the order of cipher suites and extensions nor on GREASE: two hellos whose
  suites and extensions are, GREASE aside, permutations of each other, that offer the same versions and
  signature algorithms and agree on the presence of a server name and the first protocol, have one JA4.
  If moreover suites, extensions and curves come in one order, JA3 is the same too.
\<close>

theorem fingerprint_ignores_order_and_grease:
  assumes "mset (filter_grease (he_cipher_suites x)) = mset (filter_grease (he_cipher_suites y))"
    and "mset (filter_grease (he_extensions x)) = mset (filter_grease (he_extensions y))"
    and "set (filter_grease (he_versions x)) = set (filter_grease (he_versions y))"
    and "filter_grease (he_signature_schemes x) = filter_grease (he_signature_schemes y)"
    and "he_server_name x = [] \<longleftrightarrow> he_server_name y = []" "ja4_alpn (he_protos x) = ja4_alpn (he_protos y)"
  shows "ja4 x = ja4 y \<and>
    (filter_grease (he_cipher_suites x) = filter_grease (he_cipher_suites y) \<and>
     filter_grease (he_extensions x) = filter_grease (he_extensions y) \<and>
     filter_grease (he_curves x) = filter_grease (he_curves y) \<and> he_points x = he_points y \<longrightarrow> ja3 x = ja3 y)"
proof -
  have v: "max_version (he_versions x) = max_version (he_versions y)"
    by (simp add: max_version_eq foldl_max_set assms(3))
  have n: "length (filter_grease (he_cipher_suites x)) = length (filter_grease (he_cipher_suites y))"
    "length (filter_grease (he_extensions x)) = length (filter_grease (he_extensions y))"
    using assms(1,2) by (metis size_mset)+
  have "mset (filter P (filter_grease (he_extensions x))) = mset (filter P (filter_grease (he_extensions y)))" for P
    using assms(2) by (simp add: mset_filter)
  then have "sorted_hex (filter P (filter_grease (he_extensions x))) = sorted_hex (filter P (filter_grease (he_extensions y)))" for P
    unfolding sorted_hex_def by (metis sort_map_mset)
  moreover have "sorted_hex (filter_grease (he_cipher_suites x)) = sorted_hex (filter_grease (he_cipher_suites y))"
    unfolding sorted_hex_def using sort_map_mset [OF assms(1)] by metis
  ultimately have "ja4 x = ja4 y" using n assms(4-6) by (simp add: ja4_def v Let_def)
  then show ?thesis by (simp add: ja3_def v)
qed

definition example_hello :: client_hello where
  "example_hello = \<lparr>he_cipher_suites = [0x0a0a, 0x1301, 0xc02b], he_server_name = ''example.com'', he_curves = [0x1a1a, 29],
     he_points = [0], he_signature_schemes = [0x0403], he_protos = [''h2''], he_versions = [0x0a0a, 0x0304, 0x0303],
     he_extensions = [0x0a0a, 0, 16, 13], he_remote = Some ''192.0.2.7:5555''\<rparr>"

lemma example_grease: "is_grease 0x0a0a" "is_grease 0xfafa" "\<not> is_grease 0x1301" "\<not> is_grease 0xc02b" "\<not> is_grease 0" "\<not> is_grease 16"
  "\<not> is_grease 13" "\<not> is_grease 0x0304" "\<not> is_grease 0x0303"
  by (simp_all add: is_grease_def)

theorem fingerprint_ignores_order_and_grease_witness:
  "ja4 example_hello = ja4 (example_hello\<lparr>he_cipher_suites := [0xc02b, 0xfafa, 0x1301], he_versions := [0x0303, 0x0304]\<rparr>)"
  by (rule fingerprint_ignores_order_and_grease [THEN conjunct1])
    (simp_all add: example_hello_def example_grease insert_commute)

lemma length_join_map: "length (count2 n) = 2" "length (ja4_version v) = 2" "length (hash12 s) = 12"
proof -
  have "length (hex_of bs) = 2 * length bs" for bs
    by (induction bs) (simp_all add: hex_of_def hex_encode_def)
  then show "length (hash12 s) = 12" by (simp add: hash12_def)
qed (simp_all add: count2_def ja4_version_def Let_def)

lemma hex_digit_in: "d < 16 \<Longrightarrow> hex_digit d \<in> set ''0123456789abcdef''"
proof -
  assume "d < 16"
  then have "d \<in> set [0..<16]" by simp
  moreover have "list_all (\<lambda>d. hex_digit d \<in> set ''0123456789abcdef'') [0..<16]" by code_simp
  ultimately show ?thesis by (simp only: list_all_iff)
qed

lemma set_hex_of: "set (hex_of bs) \<subseteq> set ''0123456789abcdef''"
proof (induction bs)
  case (Cons b bs)
  have "unat b < 2 ^ LENGTH(8)" by (rule unsigned_less)
  then have "hex_digit (unat b div 16) \<in> set ''0123456789abcdef''" "hex_digit (unat b mod 16) \<in> set ''0123456789abcdef''"
    by (intro hex_digit_in; simp)+
  moreover have "hex_of (b # bs) = [hex_digit (unat b div 16), hex_digit (unat b mod 16)] @ hex_of bs"
    by (simp add: hex_of_def hex_encode_def)
  ultimately show ?case using Cons.IH by (simp only: set_append list.set Un_subset_iff insert_subset) blast
qed (simp add: hex_of_def hex_encode_def)

lemma set_hash12: "set (hash12 s) \<subseteq> set ''0123456789abcdef''"
proof (cases "s = [] \<or> s = ''_''")
  case False
  then have "set (hash12 s) \<subseteq> set (hex_of (sha256 (bytes_of s)))" by (simp add: hash12_def set_take_subset)
  then show ?thesis using set_hex_of by (rule subset_trans)
qed (simp add: hash12_def)

lemma length_md5_sum: "length (md5_sum m) = 16"
proof -
  have "length (md5_block hs ws) = 4" if "length hs = 4" for hs ws using that by (simp add: md5_block_def split: prod.split)
  then have "length hs = 4 \<Longrightarrow> length (md5_blocks hs ws) = 4" for hs ws
    by (induction hs ws rule: md5_blocks.induct) (subst md5_blocks.simps, simp)
  moreover have "length (concat (map bytes_le ws)) = 4 * length ws" for ws
    by (induction ws) (simp_all add: bytes_le_def bytes_be_def)
  ultimately show ?thesis by (simp add: md5_sum_def)
qed

text \<open>
  The values the block and allow lists of fingerprints are compared with have one form: a JA3 is 32 lower-case
  hexadecimal digits; a JA4, provided the protocol names are ASCII, has 36 characters, a \<open>t\<close> first, an
  underscore after 10 and after 23 of them, and 12 hexadecimal digits in each of the two hashed parts.
\<close>

theorem fingerprints_well_formed:
  assumes "\<forall>p\<in>set (he_protos chi). \<forall>c\<in>set p. of_char c < (128 :: nat)"
  shows "length (ja3 chi) = 32 \<and> set (ja3 chi) \<subseteq> set ''0123456789abcdef'' \<and>
    length (ja4 chi) = 36 \<and> ja4 chi ! 0 = CHR ''t'' \<and> ja4 chi ! 10 = CHR ''_'' \<and> ja4 chi ! 23 = CHR ''_'' \<and>
    set (take 12 (drop 11 (ja4 chi))) \<subseteq> set ''0123456789abcdef'' \<and>
    set (drop 24 (ja4 chi)) \<subseteq> set ''0123456789abcdef''"
proof -
  have hex: "length (hex_of bs) = 2 * length bs" for bs by (simp add: hex_of_def hex_encode_length)
  have alpn: "length (ja4_alpn (he_protos chi)) = 2"
    using assms by (auto simp: ja4_alpn_def rune_string_def Let_def split: list.split)
  define a where "a = ''t'' @ ja4_version (max_version (he_versions chi)) @ (if he_server_name chi \<noteq> [] then ''d'' else ''i'') @
    count2 (length (filter_grease (he_cipher_suites chi))) @ count2 (length (filter_grease (he_extensions chi))) @ ja4_alpn (he_protos chi)"
  have a: "length a = 10" "a ! 0 = CHR ''t''" using alpn by (simp_all add: a_def length_join_map)
  obtain s t where j: "ja4 chi = a @ ''_'' @ hash12 s @ ''_'' @ hash12 t"
    unfolding a_def ja4_def Let_def append_assoc by blast
  have "length (ja4 chi) = 36" "ja4 chi ! 0 = CHR ''t''" "ja4 chi ! 10 = CHR ''_''" "ja4 chi ! 23 = CHR ''_''"
    "take 12 (drop 11 (ja4 chi)) = hash12 s" "drop 24 (ja4 chi) = hash12 t"
    using a by (simp_all add: j nth_append length_join_map)
  moreover have "length (ja3 chi) = 32" by (simp add: ja3_def hex length_md5_sum)
  moreover have "set (ja3 chi) \<subseteq> set ''0123456789abcdef''" unfolding ja3_def by (rule set_hex_of)
  ultimately show ?thesis using set_hash12 by simp
qed

theorem fingerprints_well_formed_witness: "length (ja4 example_hello) = 36"
  using fingerprints_well_formed [of example_hello] by (simp add: example_hello_def)

text \<open>A protocol name that ends in a byte above 127 makes a longer one: the byte is written as a rune of two bytes.\<close>

lemma ja4_alpn_high: "length (ja4_alpn [[CHR ''h'', CHR 0xFF]]) = 3"
  by (simp add: ja4_alpn_def rune_string_def Let_def)

text \<open>The mask also matches values that are no GREASE: both bytes of a GREASE value are equal.\<close>

lemma mask_matches_more: "is_grease 0x1a2a" "is_grease v \<Longrightarrow> v = 0x1a2a \<Longrightarrow> drop_bit 8 v \<noteq> and v 0xff"
  by (simp_all add: is_grease_def)

section \<open>Runs of the collector\<close>

datatype conn_event =
  Connect string
| Hello client_hello
| StateChange string bool

fun collector_step :: "conn_event \<Rightarrow> collector \<Rightarrow> collector" where
  "collector_step (Connect addr) c = snd (conn_context addr c)"
| "collector_step (Hello chi) c = observe chi c"
| "collector_step (StateChange addr gone) c = conn_state addr gone c"

definition collector_ok :: "collector \<Rightarrow> bool" where
  "collector_ok c \<longleftrightarrow> (\<forall>addr h. fmlookup (fp_pending c) addr = Some h \<longrightarrow> h < fp_next c) \<and>
     (\<forall>x y h. fmlookup (fp_pending c) x = Some h \<longrightarrow> fmlookup (fp_pending c) y = Some h \<longrightarrow> x = y)"

lemma collector_ok_step [go_inv]: "collector_ok c \<Longrightarrow> collector_ok (collector_step e c)"
  by (cases e) (auto simp: collector_ok_def conn_context_def observe_def conn_state_def less_Suc_eq split: option.splits if_splits)

interpretation collectors: invariant collector_step "\<lambda>c e. True" collector_ok
  by unfold_locales (rule collector_ok_step)

text \<open>A holder no address is waiting for is not written again.\<close>

definition settled :: "nat \<Rightarrow> collector \<Rightarrow> bool" where
  "settled h c \<longleftrightarrow> h < fp_next c \<and> (\<forall>addr. fmlookup (fp_pending c) addr \<noteq> Some h)"

lemma settled_step: "settled h c \<Longrightarrow> settled h (collector_step e c) \<and> fp_holders (collector_step e c) h = fp_holders c h"
  by (cases e) (auto simp: settled_def conn_context_def observe_def conn_state_def split: option.splits)

lemma settled_run: "settled h c \<Longrightarrow> fp_holders (go_run collector_step es c) h = fp_holders c h"
  by (induction es arbitrary: c) (simp_all add: settled_step)

text \<open>The first hello seen at an address before it is connected again or closed.\<close>

fun first_hello :: "string \<Rightarrow> conn_event list \<Rightarrow> (string \<times> string) option" where
  "first_hello addr [] = None"
| "first_hello addr (Connect a # es) = (if a = addr then None else first_hello addr es)"
| "first_hello addr (Hello chi # es) = (if he_remote chi = Some addr then Some (ja3 chi, ja4 chi) else first_hello addr es)"
| "first_hello addr (StateChange a gone # es) = (if a = addr \<and> gone then None else first_hello addr es)"

lemma waiting_run:
  assumes "collector_ok c" "fmlookup (fp_pending c) addr = Some h" "fp_holders c h = None"
  shows "fp_holders (go_run collector_step es c) h = first_hello addr es"
  using assms
proof (induction es arbitrary: c)
  case (Cons e es)
  have ok: "collector_ok (collector_step e c)" using Cons.prems(1) by (rule collector_ok_step)
  have h: "h < fp_next c" "\<And>a. fmlookup (fp_pending c) a = Some h \<Longrightarrow> a = addr" "\<And>a j. fmlookup (fp_pending c) a = Some j \<Longrightarrow> j < fp_next c"
    using Cons.prems(1,2) unfolding collector_ok_def by blast+
  have other: "fmlookup (fp_pending c) a \<noteq> Some h" if "a \<noteq> addr" for a using h(2) that by blast
  show ?case
  proof (cases e)
    case (Connect a)
    show ?thesis
    proof (cases "a = addr")
      case True
      then have "settled h (collector_step e c)" "fp_holders (collector_step e c) h = None"
        using h(1) other Cons.prems(3) by (simp_all add: True Connect settled_def conn_context_def)
      then show ?thesis using True by (simp add: Connect settled_run)
    next
      case False
      then show ?thesis using Cons.IH [OF ok] Cons.prems(2,3) h(1) by (simp add: Connect conn_context_def)
    qed
  next
    case (Hello chi)
    show ?thesis
    proof (cases "he_remote chi = Some addr")
      case True
      then have "settled h (collector_step e c)" "fp_holders (collector_step e c) h = Some (ja3 chi, ja4 chi)"
        using h(1) other Cons.prems(2) True by (simp_all add: Hello settled_def observe_def)
      then show ?thesis using True by (simp add: Hello settled_run)
    next
      case False
      then have "fmlookup (fp_pending (collector_step e c)) addr = Some h" "fp_holders (collector_step e c) h = None"
        using Cons.prems(2,3) other by (auto simp: Hello observe_def split: option.split)
      then show ?thesis using Cons.IH [OF ok] False by (simp add: Hello)
    qed
  next
    case (StateChange a gone)
    show ?thesis
    proof (cases "a = addr \<and> gone")
      case True
      then have "settled h (collector_step e c)" "fp_holders (collector_step e c) h = None"
        using h(1) other Cons.prems(3) True by (simp_all add: StateChange settled_def conn_state_def)
      then show ?thesis using True by (simp add: StateChange settled_run)
    next
      case False
      then show ?thesis using Cons.IH [OF ok] Cons.prems(2,3) by (auto simp: StateChange conn_state_def)
    qed
  qed
qed simp

text \<open>
  C29. A request carries the fingerprint of its own connection: after any history of connections, the holder a
  new connection gets yields exactly the fingerprints of the first ClientHello observed from its address
  before the address is connected again or closed, and nothing if there is none; hellos of other
  connections, earlier ones and later ones never show.
\<close>

theorem request_sees_own_fingerprint:
  assumes "conn_context addr (go_run collector_step before new_collector) = (h, c)"
  shows "from_context (Some h) (go_run collector_step after c) = first_hello addr after"
proof -
  let ?c = "go_run collector_step before new_collector"
  have "legal_run (\<lambda>c e. True) collector_step es d" for es d by (induction es arbitrary: d) simp_all
  then have "collector_ok ?c"
    by (intro collectors.run_keeps) (simp_all add: collector_ok_def new_collector_def)
  then have "collector_ok c" using collector_ok_step [of ?c "Connect addr"] assms by simp
  moreover have "fmlookup (fp_pending c) addr = Some h" "fp_holders c h = None"
    using assms by (auto simp: conn_context_def)
  ultimately show ?thesis by (simp add: from_context_def waiting_run)
qed

theorem request_sees_own_fingerprint_witness:
  "from_context (Some (fst (conn_context ''192.0.2.7:5555'' (go_run collector_step [Connect ''192.0.2.9:1''] new_collector))))
     (go_run collector_step [StateChange ''192.0.2.9:1'' True, Hello example_hello]
       (snd (conn_context ''192.0.2.7:5555'' (go_run collector_step [Connect ''192.0.2.9:1''] new_collector)))) =
   Some (ja3 example_hello, ja4 example_hello)"
  using request_sees_own_fingerprint [OF prod.collapse [symmetric], of "''192.0.2.7:5555''" "[Connect ''192.0.2.9:1'']"
      "[StateChange ''192.0.2.9:1'' True, Hello example_hello]"]
  by (simp add: example_hello_def)

end
