(* ===== verification/Proxy.thy ===== *)
theory Proxy
  imports Guard
begin

text \<open>
  \<^verbatim>\<open>internal/proxy/proxy.go\<close>: the router behind the guard. \<open>parse_url\<close> stands for \<open>url.Parse\<close>; of a parsed URL
  the model keeps scheme, host and path, and of \<open>httputil.ReverseProxy\<close> the rewriting of host and headers; that it also
  drops the hop-by-hop headers of a request is left out. The outgoing request is described by the URL it is joined to, its
  Host and the header values. The demo origin of \<^verbatim>\<open>cmd/origin/main.go\<close> prints what arrives.
\<close>

section \<open>The code\<close>

record url =
  ur_scheme :: string
  ur_host :: string
  ur_path :: string

record origin =
  og_target :: url
  og_preserve_host :: bool
  og_forward_fp :: bool

record router =
  rt_sites :: "(string, origin) fmap"
  rt_default :: "origin option"

definition strip_port :: "string \<Rightarrow> string" where
  "strip_port host =
     (case last_index_byte host (CHR '':'') of
        None \<Rightarrow> host
      | Some i \<Rightarrow>
          if \<not> contains host '']'' \<or> has_suffix (take i host) '']'' then take i host else host)"

definition new_reverse_proxy :: "(string \<Rightarrow> url option) \<Rightarrow> string \<Rightarrow> bool \<Rightarrow> bool \<Rightarrow> origin option" where
  "new_reverse_proxy parse_url upstream preserve_host forward_fp =
     map_option (\<lambda>u. \<lparr>og_target = u, og_preserve_host = preserve_host, og_forward_fp = forward_fp\<rparr>) (parse_url upstream)"

fun add_sites :: "(string \<Rightarrow> url option) \<Rightarrow> bool \<Rightarrow> site list \<Rightarrow> (string, origin) fmap \<Rightarrow> (string, origin) fmap option" where
  "add_sites parse_url fp [] m = Some m"
| "add_sites parse_url fp (s # ss) m =
     (case new_reverse_proxy parse_url (st_upstream s) (st_preserve_host s) fp of
        None \<Rightarrow> None
      | Some p \<Rightarrow> add_sites parse_url fp ss (fmupd (to_lower (st_host s)) p m))"

text \<open>\<open>None\<close> is the error of an upstream that does not parse.\<close>

definition new_router :: "(string \<Rightarrow> url option) \<Rightarrow> config \<Rightarrow> router option" where
  "new_router parse_url cfg =
     (let fp = (fc_enabled (cf_fingerprint cfg) \<and> fc_forward_header (cf_fingerprint cfg))
      in case add_sites parse_url fp (cf_sites cfg) fmempty of
           None \<Rightarrow> None
         | Some m \<Rightarrow>
             if cf_upstream cfg \<noteq> [] then
               map_option (\<lambda>p. \<lparr>rt_sites = m, rt_default = Some p\<rparr>) (new_reverse_proxy parse_url (cf_upstream cfg) True fp)
             else Some \<lparr>rt_sites = m, rt_default = None\<rparr>)"

text \<open>\<open>ServeHTTP\<close>: the origin that gets the request; \<open>None\<close> is the 404.\<close>

definition select_origin :: "router \<Rightarrow> http_request \<Rightarrow> origin option" where
  "select_origin rt r =
     (case fmlookup (rt_sites rt) (to_lower (strip_port (rq_host r))) of
        Some p \<Rightarrow> Some p
      | None \<Rightarrow> rt_default rt)"

record outgoing =
  ou_target :: url
  ou_host :: string
  ou_header :: "string \<Rightarrow> string"

text \<open>
  Before \<open>Rewrite\<close>, \<open>ReverseProxy\<close> drops the forwarding headers of the client from the outgoing request;
  \<open>SetXForwarded\<close> sets them from the inbound connection, \<open>X-Forwarded-For\<close> only when \<open>RemoteAddr\<close> splits.
\<close>

definition without_forwarded :: "(string \<Rightarrow> string) \<Rightarrow> string \<Rightarrow> string" where
  "without_forwarded h k =
     (if k \<in> {''Forwarded'', ''X-Forwarded-For'', ''X-Forwarded-Host'', ''X-Forwarded-Proto''} then [] else h k)"

definition set_x_forwarded :: "http_request \<Rightarrow> (string \<Rightarrow> string) \<Rightarrow> string \<Rightarrow> string" where
  "set_x_forwarded r h =
     h(''X-Forwarded-For'' := (case split_host_port (rq_remote_addr r) of Some (a, _) \<Rightarrow> a | None \<Rightarrow> []),
       ''X-Forwarded-Host'' := rq_host r,
       ''X-Forwarded-Proto'' := (if rq_tls r then ''https'' else ''http''))"

definition rewrite :: "origin \<Rightarrow> http_request \<Rightarrow> outgoing" where
  "rewrite p r =
     (let h = set_x_forwarded r (without_forwarded (rq_header r));
          h = (case client_ip_from_context r of
                 Some ip \<Rightarrow> h(''X-Forwarded-For'' := ip, ''X-Real-IP'' := ip)
               | None \<Rightarrow> h);
          h = (if og_forward_fp p then
                 (case rq_fingerprint r of
                    Some (j3, j4) \<Rightarrow> h(''X-AggerShield-JA3'' := j3, ''X-AggerShield-JA4'' := j4)
                  | None \<Rightarrow> h)
               else h)
      in \<lparr>ou_target = og_target p, ou_host = (if og_preserve_host p then rq_host r else ur_host (og_target p)), ou_header = h\<rparr>)"

text \<open>The page of the demo origin \<open>name\<close> for a request that arrives with the path \<open>path\<close>.\<close>

definition origin_page :: "string \<Rightarrow> string \<Rightarrow> outgoing \<Rightarrow> string" where
  "origin_page name path q =
     ''origin='' @ name @ '' host='' @ ou_host q @ '' path='' @ path @ '' x-real-ip='' @ ou_header q ''X-Real-IP'' @
     '' ja3='' @ ou_header q ''X-AggerShield-JA3'' @ '' ja4='' @ ou_header q ''X-AggerShield-JA4'' @ [CHR 0x0A]"

section \<open>Routing\<close>

text \<open>The sites as the configuration lists them: the last entry of a host counts.\<close>

definition site_for :: "string \<Rightarrow> site list \<Rightarrow> site option" where
  "site_for host ss = List.find (\<lambda>s. to_lower (st_host s) = to_lower host) (rev ss)"

lemma find_append: "List.find P (xs @ ys) = (case List.find P xs of Some x \<Rightarrow> Some x | None \<Rightarrow> List.find P ys)"
  by (induction xs) auto

lemma add_sites_lookup:
  "add_sites parse_url fp ss m = Some m' \<Longrightarrow>
   fmlookup m' (to_lower host) = (case site_for host ss of
      Some s \<Rightarrow> new_reverse_proxy parse_url (st_upstream s) (st_preserve_host s) fp
    | None \<Rightarrow> fmlookup m (to_lower host))"
proof (induction ss arbitrary: m)
  case (Cons s ss)
  then obtain p where p: "new_reverse_proxy parse_url (st_upstream s) (st_preserve_host s) fp = Some p"
    "add_sites parse_url fp ss (fmupd (to_lower (st_host s)) p m) = Some m'"
    by (auto split: option.splits)
  show ?case using Cons.IH [OF p(2)] p(1)
    by (simp add: site_for_def find_append split: option.split)
qed (simp add: site_for_def)

section \<open>Properties\<close>

text \<open>
  C30. The router sends a request where the configuration says: to the last site listed for its host, whatever the
  case of the letters and the port, else to the default upstream with the host preserved, else nowhere.
\<close>

theorem requests_reach_their_origin:
  assumes "new_router parse_url cfg = Some rt"
  shows "select_origin rt r =
    (let fp = (fc_enabled (cf_fingerprint cfg) \<and> fc_forward_header (cf_fingerprint cfg))
     in case site_for (strip_port (rq_host r)) (cf_sites cfg) of
          Some s \<Rightarrow> new_reverse_proxy parse_url (st_upstream s) (st_preserve_host s) fp
        | None \<Rightarrow> if cf_upstream cfg \<noteq> [] then new_reverse_proxy parse_url (cf_upstream cfg) True fp else None) \<and>
    (site_for (strip_port (rq_host r)) (cf_sites cfg) \<noteq> None \<longrightarrow> select_origin rt r \<noteq> None)"
proof -
  define fp where "fp = (fc_enabled (cf_fingerprint cfg) \<and> fc_forward_header (cf_fingerprint cfg))"
  obtain m where m: "add_sites parse_url fp (cf_sites cfg) fmempty = Some m" "rt_sites rt = m"
    "rt_default rt = (if cf_upstream cfg \<noteq> [] then new_reverse_proxy parse_url (cf_upstream cfg) True fp else None)"
    using assms by (auto simp: new_router_def fp_def Let_def split: option.splits if_splits)
  have some: "new_reverse_proxy parse_url (st_upstream s) (st_preserve_host s) fp \<noteq> None"
    if "site_for host (cf_sites cfg) = Some s" for s host
  proof -
    have "s \<in> set (cf_sites cfg)" using that by (auto simp: site_for_def find_Some_iff) (metis nth_mem length_rev set_rev)
    moreover have "add_sites parse_url fp ss m = Some m' \<Longrightarrow> s \<in> set ss \<Longrightarrow> new_reverse_proxy parse_url (st_upstream s) (st_preserve_host s) fp \<noteq> None"
      for ss m m' by (induction ss arbitrary: m) (auto split: option.splits)
    ultimately show ?thesis using m(1) by blast
  qed
  note look = add_sites_lookup [OF m(1), of "strip_port (rq_host r)"]
  show ?thesis
  proof (cases "site_for (strip_port (rq_host r)) (cf_sites cfg)")
    case None
    then show ?thesis by (simp add: select_origin_def m(2,3) look fp_def [symmetric] Let_def)
  next
    case (Some s)
    obtain og where "new_reverse_proxy parse_url (st_upstream s) (st_preserve_host s) fp = Some og" using some [OF Some] by blast
    then show ?thesis using Some by (simp add: select_origin_def m(2,3) look fp_def [symmetric] Let_def)
  qed
qed

definition example_urls :: "string \<Rightarrow> url option" where
  "example_urls s = Some \<lparr>ur_scheme = ''http'', ur_host = s, ur_path = []\<rparr>"

theorem requests_reach_their_origin_witness:
  "select_origin (the (new_router example_urls (zero_config\<lparr>cf_upstream := ''app:3000''\<rparr>))) (blank_request\<lparr>rq_host := ''shop.example:443''\<rparr>) =
     Some \<lparr>og_target = \<lparr>ur_scheme = ''http'', ur_host = ''app:3000'', ur_path = []\<rparr>, og_preserve_host = True, og_forward_fp = False\<rparr>"
proof -
  have c: "cf_sites (zero_config\<lparr>cf_upstream := u\<rparr>) = []" "cf_fingerprint (zero_config\<lparr>cf_upstream := u\<rparr>) = cf_fingerprint zero_config"
    "fc_enabled (cf_fingerprint zero_config) = False" for u
    by (simp_all add: zero_config_def)
  have "new_router example_urls (zero_config\<lparr>cf_upstream := ''app:3000''\<rparr>) =
     Some (the (new_router example_urls (zero_config\<lparr>cf_upstream := ''app:3000''\<rparr>)))"
    by (simp add: new_router_def c new_reverse_proxy_def example_urls_def)
  from requests_reach_their_origin [OF this, of "blank_request\<lparr>rq_host := ''shop.example:443''\<rparr>"] show ?thesis
    by (simp add: c site_for_def new_reverse_proxy_def example_urls_def)
qed

text \<open>The guard hands on the request with the address it decided about.\<close>

lemma served_request:
  assumes "fst (guard_enter env r g) = Served r' mb slot"
  shows "r' = req_of r g"
proof (cases "\<not> gate_open g \<or> is_allowed (gd_bans g) (req_ip r g)")
  case True
  then show ?thesis using assms by (auto simp: guard_enter_eq serve_request_def split: if_splits)
next
  case False
  show ?thesis
  proof (cases "checks env (gd_snap g) (req_ip r g) (req_of r g) (count_total g)")
    case (Inl x)
    then have x: "fst x = Served r' mb slot" using assms False by (simp add: guard_enter_eq)
    obtain res g' where "x = (res, g')" by (cases x)
    from checks_stop [OF Inl [unfolded this]] x this show ?thesis by (simp add: stopped_ok_def serve_request_def)
  next
    case (Inr g')
    then show ?thesis using assms False by (auto simp: guard_enter_eq st_conns_cases serve_request_def split: if_splits)
  qed
qed

text \<open>
  The origin sees the client the guard saw: whatever forwarding headers the client sends, a request that
  the guard lets through reaches the origin with \<open>X-Forwarded-For\<close> and \<open>X-Real-IP\<close> set to the address it was rate-limited
  and banned under, with the host and scheme of its own connection, and with its own fingerprint where
  that is forwarded and known.
\<close>

theorem origin_sees_resolved_client:
  assumes "fst (guard_enter env r g) = Served r' mb slot"
  shows "ou_header (rewrite p r') ''X-Forwarded-For'' = req_ip r g \<and> ou_header (rewrite p r') ''X-Real-IP'' = req_ip r g \<and>
    ou_header (rewrite p r') ''X-Forwarded-Host'' = rq_host r \<and>
    ou_header (rewrite p r') ''X-Forwarded-Proto'' = (if rq_tls r then ''https'' else ''http'') \<and>
    ou_header (rewrite p r') ''Forwarded'' = [] \<and>
    (\<forall>j3 j4. og_forward_fp p \<and> rq_fingerprint r = Some (j3, j4) \<longrightarrow>
      ou_header (rewrite p r') ''X-AggerShield-JA3'' = j3 \<and> ou_header (rewrite p r') ''X-AggerShield-JA4'' = j4)"
  using served_request [OF assms]
  by (auto simp: rewrite_def req_of_def with_client_ip_def client_ip_from_context_def set_x_forwarded_def without_forwarded_def Let_def
      split: option.split)

theorem origin_sees_resolved_client_witness:
  "ou_header (rewrite \<lparr>og_target = \<lparr>ur_scheme = ''http'', ur_host = ''app:3000'', ur_path = []\<rparr>, og_preserve_host = True, og_forward_fp = False\<rparr>
     (case fst (guard_enter example_env example_request (example_guard False 1)) of Served r mb slot \<Rightarrow> r)) ''X-Real-IP'' = ''203.0.113.7''"
proof -
  have "\<exists>r mb slot. fst (guard_enter example_env example_request (example_guard False 1)) = Served r mb slot"
    by (simp add: example_simps example_ip st_conns_def acquire_def new_conn_limiter_def active_of_def serve_request_def) blast
  then obtain r mb slot where s: "fst (guard_enter example_env example_request (example_guard False 1)) = Served r mb slot" by blast
  have "req_ip example_request (example_guard False 1) = ''203.0.113.7''"
    by (simp add: req_ip_def example_guard_def new_guard_def example_snapshot_def example_ip)
  with origin_sees_resolved_client [OF s, THEN conjunct2, THEN conjunct1] show ?thesis
    by (simp only: s outcome.case)
qed

text \<open>What the demo shows: behind the guard, with fingerprints forwarded, the page names the client and its fingerprint.\<close>

lemma demo_shows_resolved_client:
  assumes "fst (guard_enter env r g) = Served r' mb slot" and "og_forward_fp p" and "rq_fingerprint r = Some (j3, j4)"
  shows "origin_page name path (rewrite p r') =
    ''origin='' @ name @ '' host='' @ (if og_preserve_host p then rq_host r else ur_host (og_target p)) @ '' path='' @ path @
    '' x-real-ip='' @ req_ip r g @ '' ja3='' @ j3 @ '' ja4='' @ j4 @ [CHR 0x0A]"
  using assms(2,3) unfolding served_request [OF assms(1)]
  by (simp add: origin_page_def rewrite_def req_of_def with_client_ip_def client_ip_from_context_def Let_def)

text \<open>A client without a known fingerprint can make one up: the header it sends passes to the origin.\<close>

lemma spoofed_fingerprint_passes:
  assumes "rq_fingerprint r = None \<or> \<not> og_forward_fp p"
  shows "ou_header (rewrite p r) ''X-AggerShield-JA3'' = rq_header r ''X-AggerShield-JA3''"
  using assms
  by (auto simp: rewrite_def set_x_forwarded_def without_forwarded_def Let_def split: option.split)

end
