(* ===== verification/Scrubber.thy ===== *)
theory Scrubber
  imports Config Metrics
begin

text \<open>
  \<^verbatim>\<open>internal/scrubber/scrubber.go\<close> and the closure \<open>scrubFn\<close> of \<^verbatim>\<open>cmd/aggershield/main.go\<close>: the lever that
  switches mitigation at the network edge. A request to the provider is described by its verb, URL,
  authorisation header and the fields of its JSON body; \<open>http\<close> stands for the client, from the request to the
  status of the response, or \<open>None\<close> when the request cannot be built or the call fails.
\<close>

section \<open>Adapters\<close>

datatype scrubber =
  Webhook string
| Cloudflare string string string string

record edge_request =
  eq_verb :: string
  eq_url :: string
  eq_authorization :: string
  eq_body :: "(string \<times> string) list"

definition new_scrubber :: "scrubber_config \<Rightarrow> scrubber option" where
  "new_scrubber c =
     (if \<not> sc_enabled c then None
      else if to_lower (sc_provider c) = ''cloudflare'' then
        (let base = (if cs_api_base (sc_cloudflare c) = [] then ''https://api.cloudflare.com/client/v4''
               else cs_api_base (sc_cloudflare c));
             normal = (if cs_normal_level (sc_cloudflare c) = [] then ''medium'' else cs_normal_level (sc_cloudflare c))
         in Some (Cloudflare (trim_right (CHR ''/'') base) (cs_api_token (sc_cloudflare c)) (cs_zone_id (sc_cloudflare c)) normal))
      else Some (Webhook (sc_webhook_url c)))"

fun scrubber_name :: "scrubber \<Rightarrow> string" where
  "scrubber_name (Webhook u) = ''webhook''"
| "scrubber_name (Cloudflare b t z n) = ''cloudflare''"

text \<open>\<open>do\<close>: \<open>True\<close> is a response with a status from 200 to 299.\<close>

definition edge_do :: "(edge_request \<Rightarrow> int option) \<Rightarrow> edge_request \<Rightarrow> bool" where
  "edge_do http req = (case http req of None \<Rightarrow> False | Some st \<Rightarrow> \<not> (st < 200 \<or> 300 \<le> st))"

text \<open>\<open>post\<close>; \<open>now\<close> is the formatted time of the body.\<close>

definition webhook_post :: "(edge_request \<Rightarrow> int option) \<Rightarrow> string \<Rightarrow> (string \<times> string) list \<Rightarrow> bool" where
  "webhook_post http url body =
     (if url = [] then False
      else edge_do http \<lparr>eq_verb = ''POST'', eq_url = url, eq_authorization = [], eq_body = body\<rparr>)"

definition set_security_level :: "(edge_request \<Rightarrow> int option) \<Rightarrow> string \<Rightarrow> string \<Rightarrow> string \<Rightarrow> string \<Rightarrow> bool" where
  "set_security_level http base token zone level =
     (if token = [] \<or> zone = [] then False
      else edge_do http \<lparr>eq_verb = ''PATCH'', eq_url = base @ ''/zones/'' @ zone @ ''/settings/security_level'',
        eq_authorization = ''Bearer '' @ token, eq_body = [(''value'', level)]\<rparr>)"

fun engage :: "(edge_request \<Rightarrow> int option) \<Rightarrow> string \<Rightarrow> string \<Rightarrow> scrubber \<Rightarrow> bool" where
  "engage http now reason (Webhook url) =
     webhook_post http url [(''action'', ''engage''), (''reason'', reason), (''time'', now)]"
| "engage http now reason (Cloudflare base token zone normal) =
     set_security_level http base token zone ''under_attack''"

fun disengage :: "(edge_request \<Rightarrow> int option) \<Rightarrow> string \<Rightarrow> scrubber \<Rightarrow> bool" where
  "disengage http now (Webhook url) = webhook_post http url [(''action'', ''disengage''), (''time'', now)]"
| "disengage http now (Cloudflare base token zone normal) = set_security_level http base token zone normal"

text \<open>\<open>scrubFn\<close>: \<open>True\<close> is \<open>err == nil\<close>.\<close>

definition scrub_fn :: "(edge_request \<Rightarrow> int option) \<Rightarrow> string \<Rightarrow> scrubber option \<Rightarrow> bool \<Rightarrow> string \<Rightarrow> metrics \<Rightarrow> bool \<times> metrics" where
  "scrub_fn http now backend on reason m =
     (case backend of
        None \<Rightarrow> (False, m)
      | Some sc \<Rightarrow>
          let m = m\<lparr>mt_scrub_actions := add1 (mt_scrub_actions m)\<rparr>;
              ok = (if on then engage http now reason sc else disengage http now sc)
          in if \<not> ok then (False, m)
             else (True, m\<lparr>mt_scrub_engaged := (if on then 1 else 0)\<rparr>))"

section \<open>Properties\<close>

text \<open>The calls of a run: what was asked, and the world at that moment.\<close>

type_synonym scrub_call = "(edge_request \<Rightarrow> int option) \<times> string \<times> bool \<times> string"

fun scrub_run :: "scrubber option \<Rightarrow> scrub_call list \<Rightarrow> metrics \<Rightarrow> metrics" where
  "scrub_run sc [] m = m"
| "scrub_run sc ((http, now, on, reason) # cs) m = scrub_run sc cs (snd (scrub_fn http now sc on reason m))"

text \<open>The switches the provider confirmed, in order.\<close>

fun confirmed :: "scrubber option \<Rightarrow> scrub_call list \<Rightarrow> bool list" where
  "confirmed sc [] = []"
| "confirmed sc ((http, now, on, reason) # cs) =
     (case sc of None \<Rightarrow> [] | Some x \<Rightarrow> if (if on then engage http now reason x else disengage http now x) then [on] else [])
     @ confirmed sc cs"

text \<open>
  The gauge shows the edge as it was last confirmed: over any sequence of calls \<open>mt_scrub_engaged\<close> is that of the
  last call the provider answered with success, failed calls leave it alone, and every call to a configured
  scrubber is counted.
\<close>

theorem scrub_gauge_is_last_confirmed:
  "mt_scrub_engaged (scrub_run sc cs m) =
     (if confirmed sc cs = [] then mt_scrub_engaged m else if last (confirmed sc cs) then 1 else 0) \<and>
   mt_scrub_actions (scrub_run sc cs m) = (case sc of None \<Rightarrow> mt_scrub_actions m | Some x \<Rightarrow> (add1 ^^ length cs) (mt_scrub_actions m))"
proof (induction cs arbitrary: m)
  case (Cons c cs)
  obtain http now on reason where c: "c = (http, now, on, reason)" by (cases c)
  show ?case using Cons.IH [of "snd (scrub_fn http now sc on reason m)"]
    by (cases sc) (auto simp: c scrub_fn_def funpow_swap1 Let_def)
qed (simp split: option.split)

text \<open>A validated configuration always talks to a provider with its credentials.\<close>

lemma validated_scrubber_calls:
  assumes "bad_scrubber c = None" "new_scrubber c = Some sc" "\<And>req. http req = Some 200"
  shows "engage http now reason sc" "disengage http now sc"
  using assms
  by (auto simp: new_scrubber_def bad_scrubber_None webhook_post_def set_security_level_def edge_do_def Let_def split: if_splits)

end
