(* ===== verification/Go_Calendar.thy ===== *)
theory Go_Calendar
  imports Go_Format
begin

text \<open>
  The way back from dates to times, as \<open>time.Date\<close> counts, and \<open>AddDate\<close> for whole years. Times are in UTC; in a
  zone with daylight saving \<open>AddDate\<close> keeps the wall clock and can differ by the hour the clock was moved.
\<close>

section \<open>Counting days\<close>

definition days_before_year :: "int \<Rightarrow> int" where
  "days_before_year y = 365 * (y - 1) + (y - 1) div 4 - (y - 1) div 100 + (y - 1) div 400"

text \<open>The day with month \<open>m\<close>, from 0, and day \<open>d\<close>, from 1; a day past the end of its month is one of the next month.\<close>

definition day_number :: "int \<Rightarrow> nat \<Rightarrow> int \<Rightarrow> int" where
  "day_number y m d = days_before_year y + sum_list (take m (month_lengths (leap_year y))) + d - 1"

definition day :: duration where "day = 24 * hour"

definition add_years :: "int \<Rightarrow> time \<Rightarrow> time" where
  "add_years n t =
     (let c = date_of t
      in (day_number (da_year c + n) (da_month c) (da_day c) - 719162) * day + t mod day)"

section \<open>Facts\<close>

lemma month_day_sum:
  assumes "month_day ls k x = (m, d)" and "0 \<le> x" and "x < sum_list ls"
  shows "k \<le> m \<and> m < k + length ls \<and> x = sum_list (take (m - k) ls) + d \<and> 0 \<le> d"
  using assms
proof (induction ls arbitrary: k x)
  case (Cons l ls)
  show ?case
  proof (cases "x < l")
    case False
    then have "Suc k \<le> m \<and> m < Suc k + length ls \<and> x - l = sum_list (take (m - Suc k) ls) + d \<and> 0 \<le> d"
      using Cons.prems by (intro Cons.IH) simp_all
    moreover from this have "m - k = Suc (m - Suc k)" by linarith
    ultimately show ?thesis by auto
  qed (use Cons.prems in auto)
qed simp

lemma date_counts_back:
  shows "day_number (da_year (date_of t)) (da_month (date_of t)) (da_day (date_of t)) = to_unix t div 86400 + 719162"
    and "da_month (date_of t) < 12"
proof -
  define n where "n = to_unix t div 86400 + 719162"
  obtain y yd where y: "year_day n = (y, yd)" by (cases "year_day n")
  obtain m d where m: "month_day (month_lengths (leap_year y)) 0 yd = (m, d)"
    by (cases "month_day (month_lengths (leap_year y)) 0 yd")
  note r = year_day_range [OF y]
  have "yd < sum_list (month_lengths (leap_year y))" using r(2) by (simp add: month_lengths_def split: if_splits)
  from month_day_sum [OF m r(1) this]
  have s: "m < 12" "yd = sum_list (take m (month_lengths (leap_year y))) + d" by (simp_all add: month_lengths_def)
  have c: "da_year (date_of t) = y" "da_month (date_of t) = m" "da_day (date_of t) = d + 1"
    by (simp_all add: date_of_def n_def [symmetric] y m Let_def)
  show "day_number (da_year (date_of t)) (da_month (date_of t)) (da_day (date_of t)) = to_unix t div 86400 + 719162"
    using r(3) s(2) unfolding c n_def [symmetric] day_number_def days_before_year_def by simp
  show "da_month (date_of t) < 12" using s(1) c(2) by simp
qed

lemma div_next:
  assumes "0 < (k :: int)"
  shows "(a + 1) div k = a div k + (if (a + 1) mod k = 0 then 1 else 0)"
proof -
  define q r where "q = a div k" and "r = a mod k"
  have a: "a = k * q + r" "0 \<le> r" "r < k" using assms by (simp_all add: q_def r_def)
  show ?thesis
  proof (cases "r + 1 = k")
    case True
    then have "a + 1 = k * (q + 1)" using a(1) by (simp add: algebra_simps)
    then show ?thesis using assms by (simp add: q_def [symmetric])
  next
    case False
    then have "(k * q + (r + 1)) div k = q" "(k * q + (r + 1)) mod k = r + 1" using a assms
      by (simp_all add: div_pos_pos_trivial mod_pos_pos_trivial)
    then have "(a + 1) div k = q" "(a + 1) mod k = r + 1" using a(1) by (simp_all add: add.assoc)
    then show ?thesis using a(2) by (simp add: q_def)
  qed
qed

lemma mod_0_dvd: "y mod n = 0 \<Longrightarrow> k dvd n \<Longrightarrow> y mod k = (0 :: int)"
  using dvd_trans [OF _ mod_0_imp_dvd] by (rule dvd_imp_mod_0)

lemma year_sum:
  fixes a b c a' b' c' i j k y :: int
  assumes "a = a' + i" "b = b' + j" "c = c' + k"
  shows "365 * y + a - b + c = 365 * (y - 1) + a' - b' + c' + 365 + i - j + k"
  unfolding assms by (simp add: algebra_simps)

lemma leap_sum:
  assumes "q \<Longrightarrow> p" and "r \<Longrightarrow> q"
  shows "n + 365 + (if p then 1 else 0) - (if q then 1 else 0) + (if r then 1 else 0) = n + (if p \<and> (\<not> q \<or> r) then 366 else 365 :: int)"
  using assms by (cases p; cases q; cases r) simp_all

lemma year_length: "days_before_year (y + 1) = days_before_year y + (if leap_year y then 366 else 365)"
proof -
  have next_quotient: "y div k = (y - 1) div k + (if y mod k = 0 then 1 else 0)" if "0 < k" for k
    using div_next [OF that, of "y - 1"] by (simp only: diff_add_cancel)
  have "days_before_year (y + 1) = days_before_year y + 365 + (if y mod 4 = 0 then 1 else 0) - (if y mod 100 = 0 then 1 else 0) +
      (if y mod 400 = 0 then 1 else 0)"
    unfolding days_before_year_def add_diff_cancel_right' by (rule year_sum) (rule next_quotient, rule zero_less_numeral)+
  also have "\<dots> = days_before_year y + (if y mod 4 = 0 \<and> (y mod 100 \<noteq> 0 \<or> y mod 400 = 0) then 366 else 365)"
  proof (rule leap_sum)
    show "y mod 4 = 0" if "y mod 100 = 0" by (rule mod_0_dvd [OF that]) simp
    show "y mod 100 = 0" if "y mod 400 = 0" by (rule mod_0_dvd [OF that]) simp
  qed
  finally show ?thesis unfolding leap_year_def .
qed

lemma months_before:
  assumes "m < 12"
  shows "sum_list (take m (month_lengths leap)) = sum_list (take m (month_lengths False)) + (if leap \<and> 2 \<le> m then 1 else 0)"
proof -
  have "list_all (\<lambda>m. sum_list (take m (month_lengths True)) = sum_list (take m (month_lengths False)) + (if 2 \<le> m then 1 else 0)) [0..<12]"
    by code_simp
  then have "sum_list (take m (month_lengths True)) = sum_list (take m (month_lengths False)) + (if 2 \<le> m then 1 else 0)"
    using assms by (simp add: list_all_iff)
  then show ?thesis by (cases leap) auto
qed

lemma next_year_day:
  assumes "m < 12"
  shows "365 \<le> day_number (y + 1) m d - day_number y m d \<and> day_number (y + 1) m d - day_number y m d \<le> 366"
proof -
  have leap: "\<not> leap_year (y + 1)" if "leap_year y"
  proof
    assume "leap_year (y + 1)"
    then have "(y + 1) mod 4 = 0" "y mod 4 = 0" using that by (simp_all add: leap_year_def)
    then show False by presburger
  qed
  have "day_number (y + 1) m d - day_number y m d =
      365 + (if leap_year y then 1 else 0) + (if leap_year (y + 1) \<and> 2 \<le> m then 1 else 0) - (if leap_year y \<and> 2 \<le> m then 1 else 0)"
    unfolding day_number_def year_length months_before [OF assms, of "leap_year y"] months_before [OF assms, of "leap_year (y + 1)"]
    by simp
  then show ?thesis using leap by (auto split: if_splits)
qed

text \<open>A year later is 365 or 366 days later.\<close>

lemma add_one_year: "t + 365 * day \<le> add_years 1 t \<and> add_years 1 t \<le> t + 366 * day"
proof -
  let ?c = "date_of t"
  define k where "k = day_number (da_year ?c + 1) (da_month ?c) (da_day ?c) - day_number (da_year ?c) (da_month ?c) (da_day ?c)"
  have k: "365 \<le> k" "k \<le> 366" using next_year_day [OF date_counts_back(2)] by (simp_all add: k_def)
  have "to_unix t div 86400 = t div day"
    by (simp add: to_unix_def day_def hour_def minute_def second_def zdiv_zmult2_eq [symmetric])
  then have "add_years 1 t = (t div day + k) * day + t mod day"
    using date_counts_back(1) [of t] by (simp add: add_years_def k_def Let_def)
  also have "\<dots> = t div day * day + t mod day + k * day" by (simp add: algebra_simps)
  also have "\<dots> = t + k * day" by simp
  finally have "add_years 1 t = t + k * day" .
  moreover have "0 < day" by (simp add: day_def hour_def minute_def second_def)
  ultimately show ?thesis using k by simp
qed

end
