(* ===== verification/Tlsutil.thy ===== *)
theory Tlsutil
  imports Config Go_Net Go_Http Go_Calendar
begin

text \<open>
  \<^verbatim>\<open>internal/tlsutil/tlsutil.go\<close> and the parts of \<^verbatim>\<open>cmd/aggershield/main.go\<close> around it: which certificates HTTPS is
  served with and for which names, and the redirect from HTTP. Keys and signatures are made by
  \<open>crypto/tls\<close> and \<open>autocert\<close>: the model has the choice of the source and what the self-signed certificate says.
\<close>

section \<open>Names\<close>

text \<open>The loop of \<open>dedupe\<close>, with its set \<open>seen\<close>.\<close>

fun dedupe_loop :: "string list \<Rightarrow> string set \<Rightarrow> string list" where
  "dedupe_loop [] seen = []"
| "dedupe_loop (s # ss) seen =
     (if s = [] \<or> s \<in> seen then dedupe_loop ss seen else s # dedupe_loop ss (insert s seen))"

definition dedupe :: "string list \<Rightarrow> string list" where
  "dedupe xs = dedupe_loop xs {}"

text \<open>The names of the self-signed certificate: \<open>IPAddresses\<close> and \<open>DNSNames\<close>, in the order they are added.\<close>

record san =
  sa_ips :: "ipbytes list"
  sa_dns :: "string list"

fun san_loop :: "string list \<Rightarrow> string set \<Rightarrow> san \<Rightarrow> san" where
  "san_loop [] seen t = t"
| "san_loop (h # hs) seen t =
     (if h = [] \<or> h \<in> seen then san_loop hs seen t
      else san_loop hs (insert h seen)
        (case parse_ip h of
           Some ip \<Rightarrow> t\<lparr>sa_ips := sa_ips t @ [ip]\<rparr>
         | None \<Rightarrow> t\<lparr>sa_dns := sa_dns t @ [h]\<rparr>))"

definition self_signed_names :: "string list \<Rightarrow> san" where
  "self_signed_names hosts = san_loop (hosts @ [''localhost'', ''127.0.0.1'', ''::1'']) {} \<lparr>sa_ips = [], sa_dns = []\<rparr>"

text \<open>
  What the self-signed certificate says, without the serial number and the usages; \<open>clock\<close> are the two readings of
  the time.
\<close>

record certificate =
  ct_common_name :: string
  ct_not_before :: time
  ct_not_after :: time
  ct_names :: san

definition self_signed :: "time \<times> time \<Rightarrow> string list \<Rightarrow> certificate" where
  "self_signed clock hosts =
     \<lparr>ct_common_name = ''AggerShield self-signed'', ct_not_before = fst clock - hour,
      ct_not_after = add_years 1 (snd clock), ct_names = self_signed_names hosts\<rparr>"

section \<open>The source of certificates\<close>

text \<open>ACME with its domains, directory and contact; a self-signed certificate; a loaded key pair.\<close>

datatype cert_source =
  Acme "string list" string string
| SelfSigned certificate
| KeyPair string string

record tls_setup =
  ts_source :: cert_source
  ts_hook :: bool

text \<open>
  \<open>made\<close> tells whether the certificate could be generated or loaded; \<open>None\<close> is the error. \<open>hook\<close> is
  \<open>chiHook != nil\<close>.
\<close>

definition tls_build :: "(cert_source \<Rightarrow> bool) \<Rightarrow> time \<times> time \<Rightarrow> tls_config \<Rightarrow> string list \<Rightarrow> bool \<Rightarrow> tls_setup option" where
  "tls_build made clock c hosts hook =
     (if ac_enabled (tl_auto_cert c) then
        (let domains = dedupe (ac_domains (tl_auto_cert c) @ hosts)
         in Some \<lparr>ts_source = Acme domains (ac_cache_dir (tl_auto_cert c)) (ac_email (tl_auto_cert c)), ts_hook = hook\<rparr>)
      else
        let source = (if tl_self_signed c then SelfSigned (self_signed clock hosts) else KeyPair (tl_cert_file c) (tl_key_file c))
        in if made source then Some \<lparr>ts_source = source, ts_hook = hook\<rparr> else None)"

definition site_hosts :: "config \<Rightarrow> string list" where
  "site_hosts cfg = map st_host (cf_sites cfg)"

text \<open>The listeners \<open>main\<close> opens: the address of the HTTPS server and, when there is one, of the HTTP side server.\<close>

definition http_side_server :: "tls_config \<Rightarrow> tls_setup \<Rightarrow> string option" where
  "http_side_server c t =
     (let acme = (case ts_source t of Acme d e f \<Rightarrow> True | _ \<Rightarrow> False)
      in if tl_redirect_http c \<or> acme then Some (tl_http_listen c) else None)"

section \<open>The redirect\<close>

definition redirect_location :: "string \<Rightarrow> http_request \<Rightarrow> string" where
  "redirect_location https_listen r =
     (let port = (case split_host_port https_listen of Some (h, p) \<Rightarrow> p | None \<Rightarrow> []);
          host = rq_host r;
          host = (case last_index_byte host (CHR '':'') of
                    Some i \<Rightarrow> if \<not> contains host '']'' then take i host else host
                  | None \<Rightarrow> host);
          host = (if port \<noteq> [] \<and> port \<noteq> ''443'' then join_host_port host port else host)
      in ''https://'' @ host @ rq_uri r)"

section \<open>Properties\<close>

lemma dedupe_loop_set: "set (dedupe_loop xs seen) = set xs - seen - {[]}"
  by (induction xs seen rule: dedupe_loop.induct) auto

lemma dedupe_loop_distinct: "distinct (dedupe_loop xs seen)"
  by (induction xs seen rule: dedupe_loop.induct) (auto simp: dedupe_loop_set)

lemma set_map_filter: "set (List.map_filter f xs) = {y. \<exists>x\<in>set xs. f x = Some y}"
  by (induction xs) (auto simp: List.map_filter_simps split: option.splits)

lemma san_loop_names:
  "sa_ips (san_loop hs seen t) = sa_ips t @ List.map_filter parse_ip (dedupe_loop hs seen)"
  "sa_dns (san_loop hs seen t) = sa_dns t @ filter (\<lambda>h. parse_ip h = None) (dedupe_loop hs seen)"
  by (induction hs seen t rule: san_loop.induct) (auto simp: List.map_filter_simps split: option.splits)

lemma self_signed_says:
  "ct_names (self_signed clock hosts) = self_signed_names hosts" "ct_not_before (self_signed clock hosts) = fst clock - hour"
  "ct_not_after (self_signed clock hosts) = add_years 1 (snd clock)"
  by (simp_all add: self_signed_def)



text \<open>The redirect of a plain host name goes to the same name and path over HTTPS, on the port HTTPS listens on.\<close>

lemma redirect_plain_host:
  assumes "CHR '':'' \<notin> set h" "\<not> contains h '']''" "CHR '':'' \<notin> set p"
    and "rq_host r = h \<or> rq_host r = h @ CHR '':'' # p" "split_host_port listen = Some (a, q)" "\<not> contains (h @ CHR '':'' # p) '']''"
  shows "redirect_location listen r = ''https://'' @ h @ (if q = [] \<or> q = ''443'' then [] else CHR '':'' # q) @ rq_uri r"
proof -
  have none: "last_index_byte h (CHR '':'') = None"
    using assms(1) by (simp add: last_index_byte_def index_byte_None_iff)
  have some: "last_index_byte (h @ CHR '':'' # p) (CHR '':'') = Some (length h)"
    using assms(3) index_byte_append [of "CHR '':''" "rev p" "rev h"] by (simp add: last_index_byte_def)
  show ?thesis
    using assms none some by (auto simp: redirect_location_def join_host_port_def Let_def)
qed

text \<open>The redirect of an IPv6 literal keeps the HTTP port and wraps the brackets once more.\<close>

lemma redirect_breaks_ipv6_host:
  "redirect_location '':8443'' (blank_request\<lparr>rq_host := ''[::1]:80''\<rparr>) = ''https://[[::1]:80]:8443/''"
  by code_simp

end
