(* ===== verification/Admin.thy ===== *)
theory Admin
  imports Agent_Runs Scrubber Go_Duration
begin

text \<open>
  \<^verbatim>\<open>internal/admin/admin.go\<close>: the runtime control API of the proxy. The handlers act on the process: its ban
  table, its policy, its configuration and the edge scrubber, through the closures \<open>main\<close> hands them. \<open>admin_env\<close>
  is what the environment gives to one request.
\<close>

section \<open>The code\<close>

definition token_header :: string where "token_header = ''X-AggerShield-Token''"

record admin_api =
  ai_token :: string
  ai_mode_lever :: bool
  ai_scrub_lever :: bool
  ai_scrubber :: "scrubber option"

definition new_admin :: "string \<Rightarrow> bool \<Rightarrow> bool \<Rightarrow> scrubber option \<Rightarrow> admin_api" where
  "new_admin token mode_lever scrub_lever sc =
     \<lparr>ai_token = token, ai_mode_lever = mode_lever, ai_scrub_lever = scrub_lever, ai_scrubber = sc\<rparr>"

record admin_env =
  am_now :: time
  am_ord :: "string list"
  am_regex :: "string \<Rightarrow> (string \<Rightarrow> bool) option"
  am_loaded :: "load_error + config"
  am_http :: "edge_request \<Rightarrow> int option"
  am_time_text :: string

datatype admin_reply =
  BansJson "ban_info list"
| ConfigJson config
| BanJson string bool duration
| UnbanJson string bool
| ModeJson string
| ScrubJson bool
| ScrubFailed bool
| ReloadJson nat
| ReloadFailed
| AdminError int string

type_synonym admin_handler = "admin_env \<Rightarrow> admin_api \<Rightarrow> http_request \<Rightarrow> agent \<Rightarrow> admin_reply \<times> agent"

definition admin_auth :: "admin_handler \<Rightarrow> admin_handler" where
  "admin_auth h env api r a =
     (if ai_token api = [] \<or> rq_header r token_header \<noteq> ai_token api
      then (AdminError status_unauthorized ''unauthorized'', a) else h env api r a)"

definition require_post :: "admin_handler \<Rightarrow> admin_handler" where
  "require_post h env api r a =
     (if rq_method r \<noteq> ''POST'' then (AdminError status_method_not_allowed ''method not allowed'', a) else h env api r a)"

definition handle_bans :: admin_handler where
  "handle_bans env api r a = (BansJson (list_bans (am_ord env) (am_now env) (gd_bans (ag_guard a))), a)"

definition redacted :: string where "redacted = ''***redacted***''"

definition redact :: "config \<Rightarrow> config" where
  "redact c =
     (let c = c\<lparr>cf_admin := (cf_admin c)\<lparr>ad_token := redacted\<rparr>\<rparr>
      in if ch_secret (cf_challenge c) \<noteq> [] then c\<lparr>cf_challenge := (cf_challenge c)\<lparr>ch_secret := redacted\<rparr>\<rparr> else c)"

definition handle_config :: admin_handler where
  "handle_config env api r a = (ConfigJson (redact (ag_current a)), a)"

definition handle_ban :: admin_handler where
  "handle_ban env api r a =
     (let ip = rq_query r ''ip''; f = rq_query r ''for'' in
      if ip = [] then (AdminError status_bad_request ''missing ?ip='', a)
      else
        (case (if f \<noteq> [] then parse_duration f else Some (10 * minute)) of
           None \<Rightarrow> (AdminError status_bad_request ''bad ?for= duration'', a)
         | Some d \<Rightarrow>
             let (ok, b) = ban_for (am_ord env) (am_now env) ip d (gd_bans (ag_guard a))
             in (BanJson ip ok d, a\<lparr>ag_guard := (ag_guard a)\<lparr>gd_bans := b\<rparr>\<rparr>)))"

definition handle_unban :: admin_handler where
  "handle_unban env api r a =
     (let ip = rq_query r ''ip'' in
      if ip = [] then (AdminError status_bad_request ''missing ?ip='', a)
      else
        let (ok, b) = unban ip (gd_bans (ag_guard a))
        in (UnbanJson ip ok, a\<lparr>ag_guard := (ag_guard a)\<lparr>gd_bans := b\<rparr>\<rparr>))"

definition handle_mode :: admin_handler where
  "handle_mode env api r a =
     (if \<not> ai_mode_lever api then (AdminError status_service_unavailable ''challenge mode control unavailable'', a)
      else
        let m = rq_query r ''challenge'' in
        if m = ''always'' then (ModeJson ''always'', a\<lparr>ag_guard := set_challenge_mode True (ag_guard a)\<rparr>)
        else if m = ''adaptive'' then (ModeJson ''adaptive'', a\<lparr>ag_guard := set_challenge_mode False (ag_guard a)\<rparr>)
        else (AdminError status_bad_request ''use ?challenge=always|adaptive'', a))"

definition handle_scrub :: admin_handler where
  "handle_scrub env api r a =
     (if \<not> ai_scrub_lever api then (AdminError status_service_unavailable ''scrubber not configured'', a)
      else
        let act = rq_query r ''action'' in
        if act \<noteq> ''engage'' \<and> act \<noteq> ''disengage'' then (AdminError status_bad_request ''use ?action=engage|disengage'', a)
        else
          let on = (act = ''engage'');
              (ok, m) = scrub_fn (am_http env) (am_time_text env) (ai_scrubber api) on (rq_query r ''reason'') (gd_metrics (ag_guard a));
              a = a\<lparr>ag_guard := (ag_guard a)\<lparr>gd_metrics := m\<rparr>\<rparr>
          in (if ok then ScrubJson on else ScrubFailed on, a))"

definition handle_reload :: admin_handler where
  "handle_reload env api r a =
     (let (ok, a) = local_reload (am_regex env) (am_now env) (am_loaded env) a
      in (if ok then ReloadJson (length (cf_rules (ag_current a))) else ReloadFailed, a))"

definition admin_routes :: "(string \<times> admin_handler) list" where
  "admin_routes =
     [(''/aggershield/admin/bans'', admin_auth handle_bans),
      (''/aggershield/admin/config'', admin_auth handle_config),
      (''/aggershield/admin/ban'', admin_auth (require_post handle_ban)),
      (''/aggershield/admin/unban'', admin_auth (require_post handle_unban)),
      (''/aggershield/admin/reload'', admin_auth (require_post handle_reload)),
      (''/aggershield/admin/mode'', admin_auth (require_post handle_mode)),
      (''/aggershield/admin/scrub'', admin_auth (require_post handle_scrub))]"

section \<open>Properties\<close>

text \<open>
  Nobody steers the proxy without the token: whatever the route and the request, without the configured token in
  the header the answer is 401 and the process is as before; with an empty token in the configuration
  nobody is let in at all.
\<close>

theorem admin_needs_token:
  assumes "(path, h) \<in> set admin_routes" "rq_header r token_header \<noteq> ai_token api \<or> ai_token api = []"
  shows "h env api r a = (AdminError status_unauthorized ''unauthorized'', a)"
  using assms by (auto simp: admin_routes_def admin_auth_def)

definition example_admin_env :: admin_env where
  "example_admin_env = \<lparr>am_now = 5, am_ord = [], am_regex = (\<lambda>_. None), am_loaded = Inl ReadOrParseError,
     am_http = (\<lambda>_. None), am_time_text = []\<rparr>"

theorem admin_needs_token_witness:
  "admin_auth (require_post handle_ban) example_admin_env (new_admin [] True True None)
     (blank_request\<lparr>rq_method := ''POST'', rq_query := (\<lambda>_. ''192.0.2.1'')\<rparr>) (example_agent False) =
     (AdminError status_unauthorized ''unauthorized'', example_agent False)"
  by (rule admin_needs_token [of "''/aggershield/admin/ban''"]) (simp_all add: admin_routes_def new_admin_def)

text \<open>
  C37. A manual ban does what it reports: with the token, a POST for an address outside the allowlist bans it exactly for
  the duration answered, ten minutes when none is given, and a later lift of the ban, confirmed as removed,
  ends it at once.
\<close>

theorem manual_ban_holds_until_lifted:
  assumes "handle_ban env api r a = (BanJson ip True d, b)" "\<not> is_allowed (gd_bans (ag_guard a)) (rq_query r ''ip'')"
  shows "ip = rq_query r ''ip'' \<and> (rq_query r ''for'' = [] \<longrightarrow> d = 10 * minute) \<and>
    (\<forall>t. is_banned (gd_bans (ag_guard b)) ip t \<longleftrightarrow> t < am_now env + d) \<and>
    (\<forall>env' r' c. rq_query r' ''ip'' = ip \<longrightarrow> handle_unban env' api r' b = (UnbanJson ip True, c) \<longrightarrow>
       (\<forall>t. \<not> is_banned (gd_bans (ag_guard c)) ip t)) \<and>
    (\<forall>env' r'. rq_query r' ''ip'' = ip \<longrightarrow> (\<exists>c. handle_unban env' api r' b = (UnbanJson ip True, c)))"
proof -
  have ip: "rq_query r ''ip'' \<noteq> []" "ip = rq_query r ''ip''" using assms(1) by (auto simp: handle_ban_def Let_def split: if_splits option.splits prod.splits)
  have b: "gd_bans (ag_guard b) = snd (ban_for (am_ord env) (am_now env) ip d (gd_bans (ag_guard a)))"
    "rq_query r ''for'' = [] \<longrightarrow> d = 10 * minute"
    using assms(1) ip by (auto simp: handle_ban_def Let_def split: if_splits option.splits prod.splits)
  have allow: "is_allowed (gd_bans (ag_guard b)) x = is_allowed (gd_bans (ag_guard a)) x" for x
    by (simp add: b is_allowed_def ban_for_def Let_def case_prod_beta)
  have entry: "\<exists>e. fmlookup (bl_banned (gd_bans (ag_guard b))) ip = Some e \<and> en_expires e = am_now env + d"
    using assms(2) ip(2) by (simp add: b ban_for_def Let_def case_prod_beta)
  then have "is_banned (gd_bans (ag_guard b)) ip t \<longleftrightarrow> t < am_now env + d" for t
    using allow assms(2) ip(2) by (auto simp: is_banned_def)
  moreover have "\<exists>c. handle_unban env' api r' b = (UnbanJson ip True, c)" if "rq_query r' ''ip'' = ip" for env' r'
    using that entry ip by (auto simp: handle_unban_def unban_def Let_def)
  moreover have "\<not> is_banned (gd_bans (ag_guard c)) ip t"
    if "rq_query r' ''ip'' = ip" "handle_unban env' api r' b = (UnbanJson ip True, c)" for env' r' c t
    using that ip by (auto simp: handle_unban_def unban_def is_banned_def is_allowed_def Let_def split: option.splits if_splits)
  ultimately show ?thesis using ip b(2) by blast
qed

theorem manual_ban_holds_until_lifted_witness:
  "is_banned (gd_bans (ag_guard (snd (handle_ban example_admin_env (new_admin ''t'' True True None)
     (blank_request\<lparr>rq_query := (\<lambda>k. if k = ''ip'' then ''192.0.2.1'' else [])\<rparr>) (example_agent False))))) ''192.0.2.1'' 100"
proof -
  let ?r = "blank_request\<lparr>rq_query := (\<lambda>k. if k = ''ip'' then ''192.0.2.1'' else [])\<rparr>" and ?a = "example_agent False"
  let ?b = "snd (handle_ban example_admin_env (new_admin ''t'' True True None) ?r ?a)"
  have allow: "\<not> is_allowed (gd_bans (ag_guard ?a)) x" for x
    by (simp add: example_agent_fields example_bans new_store_def set_allowlist_def is_allowed_def net_contains_def split: option.split)
  have "handle_ban example_admin_env (new_admin ''t'' True True None) ?r ?a = (BanJson ''192.0.2.1'' True (10 * minute), ?b)"
    using allow by (simp add: handle_ban_def ban_for_def Let_def case_prod_beta)
  from manual_ban_holds_until_lifted [OF this] allow show ?thesis
    by (simp add: example_admin_env_def minute_def second_def)
qed

text \<open>A negative duration is answered as a ban and bans nobody.\<close>

lemma negative_ban_reported:
  assumes "rq_query r ''ip'' = ip" "ip \<noteq> []" "rq_query r ''for'' = ''-1h''" "\<not> is_allowed (gd_bans (ag_guard a)) ip"
  shows "fst (handle_ban env api r a) = BanJson ip True (- hour)"
    and "\<not> is_banned (gd_bans (ag_guard (snd (handle_ban env api r a)))) ip (am_now env)"
proof -
  have d: "parse_duration ''-1h'' = Some (- hour)" by code_simp
  have h: "0 < hour" by (simp add: hour_def minute_def second_def)
  show "fst (handle_ban env api r a) = BanJson ip True (- hour)"
    "\<not> is_banned (gd_bans (ag_guard (snd (handle_ban env api r a)))) ip (am_now env)"
    using assms h by (simp_all add: handle_ban_def ban_for_def d is_banned_def is_allowed_def Let_def case_prod_beta)
qed

text \<open>The answer to \<open>/config\<close> hides the token and the signing secret, and nothing else: other secrets are shown.\<close>

lemma redact_hides:
  "ad_token (cf_admin (redact c)) = redacted"
  "ch_secret (cf_challenge (redact c)) = (if ch_secret (cf_challenge c) = [] then [] else redacted)"
  "li_key (cf_license (redact c)) = li_key (cf_license c)"
  "cs_api_token (sc_cloudflare (cf_scrubber (redact c))) = cs_api_token (sc_cloudflare (cf_scrubber c))"
  by (simp_all add: redact_def Let_def)

text \<open>A policy pushed by the control plane does not show in \<open>/config\<close>.\<close>

lemma pushed_policy_not_shown: "ag_current (agent_receive env resp a) = ag_current a"
  by (simp add: agent_receive_def apply_policy_def apply_license_def Let_def split: option.split prod.split)

end
