(* ===== verification/Go_Html.thy ===== *)
theory Go_Html
  imports Go_Format
begin

text \<open>
  Pages. \<open>html_escape\<close> is what \<open>html/template\<close> does with a value in element content, in a quoted attribute or in
  a \<open>textarea\<close>. \<open>markup\<close> is a reader of HTML that keeps only the markup of a text: the tags, without the values of their
  attributes. Data that leaves the markup of a page as it is can be read, but adds neither elements nor
  attributes nor scripts.
\<close>

section \<open>Text\<close>

text \<open>Lines, each with its newline, and the symbols of the pages in UTF-8.\<close>

definition text_lines :: "string list \<Rightarrow> string" where
  "text_lines ls = concat (map (\<lambda>l. l @ [CHR 0x0A]) ls)"

definition em_dash :: string where "em_dash = [CHR 0xE2, CHR 0x80, CHR 0x94]"
definition middle_dot :: string where "middle_dot = [CHR 0xC2, CHR 0xB7]"
definition bullet :: string where "bullet = [CHR 0xE2, CHR 0x97, CHR 0x8F]"
definition ellipsis :: string where "ellipsis = [CHR 0xE2, CHR 0x80, CHR 0xA6]"

definition shield :: string where
  "shield = [CHR 0xF0, CHR 0x9F, CHR 0x9B, CHR 0xA1, CHR 0xEF, CHR 0xB8, CHR 0x8F]"

definition html_char :: "char \<Rightarrow> string" where
  "html_char c =
     (if c = CHR 0x22 then ''&#34;'' else if c = CHR ''&'' then ''&amp;'' else if c = CHR 0x27 then ''&#39;''
      else if c = CHR ''+'' then ''&#43;'' else if c = CHR ''<'' then ''&lt;'' else if c = CHR ''>'' then ''&gt;''
      else if c = CHR 0x00 then [CHR 0xEF, CHR 0xBF, CHR 0xBD] else [c])"

definition html_escape :: "string \<Rightarrow> string" where
  "html_escape s = concat (map html_char s)"

section \<open>Markup\<close>

text \<open>Where the reader is: in text, in a tag, or in a value between two of the given quotes.\<close>

datatype place = In_text | In_tag | In_value char

fun next_place :: "place \<Rightarrow> char \<Rightarrow> place" where
  "next_place In_text c = (if c = CHR ''<'' then In_tag else In_text)"
| "next_place In_tag c =
     (if c = CHR ''>'' then In_text else if c = CHR 0x22 \<or> c = CHR 0x27 then In_value c else In_tag)"
| "next_place (In_value q) c = (if c = q then In_tag else In_value q)"

fun place_after :: "place \<Rightarrow> string \<Rightarrow> place" where
  "place_after p [] = p"
| "place_after p (c # s) = place_after (next_place p c) s"

fun mark :: "place \<Rightarrow> char \<Rightarrow> string" where
  "mark In_text c = (if c = CHR ''<'' then [c] else [])"
| "mark In_tag c = [c]"
| "mark (In_value q) c = (if c = q then [c] else [])"

fun markup_from :: "place \<Rightarrow> string \<Rightarrow> string" where
  "markup_from p [] = []"
| "markup_from p (c # s) = mark p c @ markup_from (next_place p c) s"

definition markup :: "string \<Rightarrow> string" where "markup s = markup_from In_text s"

lemma place_after_append [simp]: "place_after p (s @ t) = place_after (place_after p s) t"
  by (induction s arbitrary: p) auto

lemma markup_from_append [simp]: "markup_from p (s @ t) = markup_from p s @ markup_from (place_after p s) t"
  by (induction s arbitrary: p) (auto simp: markup_from.simps)

declare markup_from.simps(2) [simp del]

lemma place_after_lines [simp]:
  "place_after p (text_lines []) = p"
  "place_after p (text_lines (l # ls)) = place_after (next_place (place_after p l) (CHR 0x0A)) (text_lines ls)"
  by (simp_all add: text_lines_def)

text \<open>Plain text is inert in element content and in double quotes, and escaped text is plain.\<close>

lemma plain_inert:
  assumes "plain s"
  shows "place_after In_text s = In_text" "markup_from In_text s = []"
    and "place_after (In_value (CHR 0x22)) s = In_value (CHR 0x22)" "markup_from (In_value (CHR 0x22)) s = []"
  using assms by (induction s) (auto simp: plain_char_def markup_from.simps)

lemma plain_html_char: "plain (html_char c)"
  by (auto simp: html_char_def plain_char_def)

lemma plain_html_escape [simp]: "plain (html_escape s)"
  by (induction s) (simp_all add: html_escape_def plain_html_char)

lemmas escaped_inert [simp] = plain_inert [OF plain_html_escape]

lemma place_after_symbols [simp]:
  "place_after In_text em_dash = In_text" "place_after In_text middle_dot = In_text" "place_after In_text bullet = In_text"
  "place_after In_text ellipsis = In_text" "place_after In_text shield = In_text"
  by (simp_all add: em_dash_def middle_dot_def bullet_def ellipsis_def shield_def)

text \<open>
  Two texts, part by part: every part leaves the reader at the same place and has the same markup there, and the
  last one leaves him at \<open>q\<close>.
\<close>

fun alike :: "place \<Rightarrow> place \<Rightarrow> string list \<Rightarrow> string list \<Rightarrow> bool" where
  "alike p q (x # xs) (y # ys) \<longleftrightarrow>
     place_after p x = place_after p y \<and> markup_from p x = markup_from p y \<and> alike (place_after p x) q xs ys"
| "alike p q [] [] \<longleftrightarrow> p = q"
| "alike p q _ _ \<longleftrightarrow> False"

lemma alike_same [simp]: "alike p q (x # xs) (x # ys) \<longleftrightarrow> alike (place_after p x) q xs ys"
  by simp

lemma alike_concat:
  "alike p q xs ys \<Longrightarrow> place_after p (concat xs) = q \<and> place_after p (concat ys) = q \<and>
     markup_from p (concat xs) = markup_from p (concat ys)"
  by (induction p q xs ys rule: alike.induct) auto

text \<open>Repetitions of parts that stay in element content.\<close>

lemma alike_repeat:
  "list_all2 (\<lambda>x y. alike In_text In_text (f x) (g y)) xs ys \<Longrightarrow>
   alike In_text In_text [concat (map (\<lambda>x. concat (f x)) xs)] [concat (map (\<lambda>y. concat (g y)) ys)]"
  by (induction rule: list_all2_induct) (auto dest: alike_concat)

end
