(* ===== verification/Secmon_Page.thy ===== *)
theory Secmon_Page
  imports Secmon Go_Html
begin

text \<open>
  \<^verbatim>\<open>internal/secmon/dashboard.go\<close>: the security dashboard, first the values it shows, then the bytes that are
  sent. The handler reads the monitor three times and releases the lock in between, so the samples, the events and
  the state come from three states of the monitor.
\<close>

section \<open>The chart\<close>

text \<open>The points of the polyline, before they are printed with one decimal.\<close>

definition chart_max :: "int list \<Rightarrow> int" where
  "chart_max vals = foldl (\<lambda>m v. if m < v then v else m) 1 vals"

definition sparkline :: "int list \<Rightarrow> int \<Rightarrow> int \<Rightarrow> (real \<times> real) list" where
  "sparkline vals w h =
     (let mx = chart_max vals;
          denom = (if int (length vals) - 1 < 1 then 1 else int (length vals) - 1)
      in map (\<lambda>(i, v).
           (fl (fl (fl (of_nat i) / fl (of_int denom)) * fl (of_int w)),
            fl (fl (fl (of_int h) - fl (fl (fl (of_int v) / fl (of_int mx)) * fl (of_int (h - 4)))) - 2)))
         (enumerate 0 vals))"

section \<open>The page\<close>

record event_row =
  er_start :: time
  er_end :: "time option"
  er_duration :: duration
  er_peak_reqs :: int
  er_total_mitigated :: int

record security_page =
  pg_under_attack :: bool
  pg_cur_reqs :: int
  pg_cur_blocked :: int
  pg_event_count :: nat
  pg_reqs_chart :: "(real \<times> real) list"
  pg_blocked_chart :: "(real \<times> real) list"
  pg_rows :: "event_row list"

definition event_row_of :: "time \<Rightarrow> event \<Rightarrow> event_row" where
  "event_row_of now e =
     (if ongoing e
      then \<lparr>er_start = ev_start e, er_end = None, er_duration = round_second (time_sub now (ev_start e)),
             er_peak_reqs = ev_peak_reqs e, er_total_mitigated = ev_total_mitigated e\<rparr>
      else \<lparr>er_start = ev_start e, er_end = Some (ev_end e), er_duration = round_second (time_sub (ev_end e) (ev_start e)),
             er_peak_reqs = ev_peak_reqs e, er_total_mitigated = ev_total_mitigated e\<rparr>)"

definition page_view :: "monitor \<Rightarrow> sample list" where
  "page_view m = (let view = samples m in if 120 < length view then drop (length view - 120) view else view)"

definition security_page :: "time \<Rightarrow> monitor \<Rightarrow> monitor \<Rightarrow> monitor \<Rightarrow> security_page" where
  "security_page now m1 m2 m3 =
     (let view = page_view m1;
          evs = events m2;
          cur = (if 0 < length view then (sm_reqs (last view), sm_blocked (last view)) else (0, 0))
      in \<lparr>pg_under_attack = (mon_state m3 = ''under_attack''), pg_cur_reqs = fst cur, pg_cur_blocked = snd cur,
          pg_event_count = length evs, pg_reqs_chart = sparkline (map sm_reqs view) 720 90,
          pg_blocked_chart = sparkline (map sm_blocked view) 720 90, pg_rows = map (event_row_of now) evs\<rparr>)"

section \<open>The bytes\<close>

definition points_text :: "(real \<times> real) list \<Rightarrow> string" where
  "points_text points = trim_space (concat (map (\<lambda>(x, y). fixed1 x @ '','' @ fixed1 y @ '' '') points))"

definition sparkline_svg :: "(real \<times> real) list \<Rightarrow> int \<Rightarrow> int \<Rightarrow> string \<Rightarrow> string list" where
  \<open>sparkline_svg points w h stroke =
    (if points = [] then
       [''<svg width="'',
        itoa w,
        ''" height="'',
        itoa h,
        ''"></svg>'']
     else
       [''<svg width="100%" height="'',
        itoa h,
        ''" viewBox="0 0 '',
        itoa w,
        '' '',
        itoa h,
        ''" preserveAspectRatio="none"><polyline fill="none" stroke="'',
        stroke,
        ''" stroke-width="1.5" points="'',
        points_text points,
        ''"/></svg>''])\<close>

definition badge_html :: "bool \<Rightarrow> string list" where
  \<open>badge_html under_attack =
    (if under_attack then [''<span class="pill bad">'' @ bullet @ '' UNDER ATTACK '' @ em_dash @ '' mitigating</span>'']
     else [''<span class="pill ok">'' @ bullet @ '' NORMAL</span>''])\<close>

definition event_row_html :: "event_row \<Rightarrow> string list" where
  \<open>event_row_html r =
    [''<tr><td class="mono">'',
     format_date_time (er_start r),
     ''</td><td class="mono">'',
     (case er_end r of None \<Rightarrow> ''ongoing'' | Some t \<Rightarrow> format_clock t),
     ''</td><td>'',
     duration_string (er_duration r),
     ''</td><td class="mono">'',
     itoa (er_peak_reqs r),
     ''</td><td class="mono">'',
     itoa (er_total_mitigated r),
     ''</td></tr>'']\<close>

definition rows_html :: "event_row list \<Rightarrow> string list" where
  \<open>rows_html rs =
    (if rs = [] then [''<tr><td colspan="5" class="mut">No attack events recorded.</td></tr>'']
     else [concat (map (\<lambda>r. concat (event_row_html r)) rs)])\<close>

text \<open>\<open>now\<close> is the clock of the last line; the rows of the page hold what they were computed with.\<close>

definition security_parts :: "time \<Rightarrow> security_page \<Rightarrow> string list" where
  \<open>security_parts now p =
    [text_lines
      [''<!doctype html>'',
       ''<html lang="en"><head><meta charset="utf-8">'',
       ''<meta name="viewport" content="width=device-width, initial-scale=1">'',
       ''<meta http-equiv="refresh" content="5">'',
       ''<title>AggerShield '' @ em_dash @ '' Network Security</title>'',
       ''<style>'',
       '':root{--bg:#0f1115;--card:#181b22;--line:#272b34;--fg:#e6e8ec;--mut:#9aa3b2;--ok:#2ecc71;--bad:#e74c3c}'',
       ''*{box-sizing:border-box}body{margin:0;background:var(--bg);color:var(--fg);font:14px/1.5 system-ui,sans-serif}'',
       ''.wrap{max-width:820px;margin:0 auto;padding:24px}h1{font-size:20px;margin:0 0 4px}'',
       ''.sub{color:var(--mut);margin-bottom:20px}'',
       ''.card{background:var(--card);border:1px solid var(--line);border-radius:10px;padding:18px;margin-bottom:18px}'',
       ''.pill{display:inline-block;padding:3px 12px;border-radius:999px;font-size:13px;font-weight:700}'',
       ''.pill.ok{background:rgba(46,204,113,.15);color:var(--ok)}'',
       ''.pill.bad{background:rgba(231,76,60,.18);color:var(--bad)}'',
       ''.stats{display:flex;gap:28px;margin:8px 0 0}.stat .n{font-size:24px;font-weight:700}.stat .l{color:var(--mut);font-size:12px}'',
       ''.lbl{color:var(--mut);font-size:12px;text-transform:uppercase;letter-spacing:.04em;margin-bottom:6px}'',
       ''table{width:100%;border-collapse:collapse}th,td{text-align:left;padding:8px 10px;border-bottom:1px solid var(--line)}'',
       ''th{color:var(--mut);font-weight:600;font-size:12px;text-transform:uppercase}'',
       ''.mut{color:var(--mut)}.mono{font-family:ui-monospace,monospace}'',
       ''</style></head>'',
       ''<body><div class="wrap">'',
       ''<h1>'' @ shield @ '' AggerShield '' @ em_dash @ '' Network Security</h1>'',
       ''<div class="sub">Live traffic, automatic attack detection, and the mitigation activity log.</div>'',
       [],
       ''<div class="card">''],
     ''  ''] @
    badge_html (pg_under_attack p) @
    [text_lines
      [[],
       ''  <div class="stats">''],
     ''    <div class="stat"><div class="n">'',
     itoa (pg_cur_reqs p),
     text_lines
      [''</div><div class="l">requests / interval</div></div>''],
     ''    <div class="stat"><div class="n">'',
     itoa (pg_cur_blocked p),
     text_lines
      [''</div><div class="l">blocked / interval</div></div>''],
     ''    <div class="stat"><div class="n">'',
     itoa (int (pg_event_count p)),
     text_lines
      [''</div><div class="l">attack events</div></div>'',
       ''  </div>'',
       ''</div>'',
       [],
       ''<div class="card">'',
       ''  <div class="lbl">Requests / interval</div>''],
     ''  ''] @
    sparkline_svg (pg_reqs_chart p) 720 90 ''#4ea1ff'' @
    [text_lines
      [[],
       ''</div>'',
       ''<div class="card">'',
       ''  <div class="lbl">Blocked / interval</div>''],
     ''  ''] @
    sparkline_svg (pg_blocked_chart p) 720 90 ''#e74c3c'' @
    [text_lines
      [[],
       ''</div>'',
       [],
       ''<div class="card">'',
       ''  <strong>Attack activity log</strong>'',
       ''  <table style="margin-top:10px">'',
       ''    <thead><tr><th>Started (UTC)</th><th>Ended</th><th>Duration</th><th>Peak req/iv</th><th>Total mitigated</th></tr></thead>''],
     ''    <tbody>''] @
    rows_html (pg_rows p) @
    [text_lines
      [''</tbody>'',
       ''  </table>'',
       ''</div>''],
     ''<div class="mut" style="font-size:12px">Auto-refreshes every 5s '' @ middle_dot @ '' '',
     format_rfc1123 now,
     text_lines
      [''</div>''],
     ''</div></body></html>'']\<close>

definition security_html :: "time \<Rightarrow> time \<Rightarrow> monitor \<Rightarrow> monitor \<Rightarrow> monitor \<Rightarrow> string" where
  "security_html now1 now2 m1 m2 m3 = concat (security_parts now2 (security_page now1 m1 m2 m3))"

section \<open>Properties\<close>

lemma foldl_chart: "m \<le> foldl (\<lambda>m v. if m < v then v else m) m vals \<and> (\<forall>v\<in>set vals. v \<le> foldl (\<lambda>m v. if m < v then v else m) m (vals :: int list))"
proof (induction vals arbitrary: m)
  case (Cons v vals)
  show ?case using Cons.IH [of "if m < v then v else m"] by auto
qed simp

lemma chart_max_bounds: "1 \<le> chart_max vals" "v \<in> set vals \<Longrightarrow> v \<le> chart_max vals"
  using foldl_chart [of 1 vals] by (simp_all add: chart_max_def)

text \<open>A fraction of two values in order stays a fraction after rounding.\<close>

lemma fl_fraction:
  assumes "0 \<le> (x :: real)" "x \<le> y" "0 < y"
  shows "0 \<le> fl (fl x / fl y)" "fl (fl x / fl y) \<le> 1"
proof -
  have le: "0 \<le> fl x" "fl x \<le> fl y" "0 < fl y" using assms fl_nonneg fl_mono fl_pos by auto
  then show "0 \<le> fl (fl x / fl y)" by (simp add: fl_nonneg)
  have "fl x / fl y \<le> 1" using le by simp
  then show "fl (fl x / fl y) \<le> 1" using fl_mono [of "fl x / fl y" 1] by simp
qed

lemma fl_scaled:
  assumes "0 \<le> (q :: real)" "q \<le> 1" "0 \<le> n" "n \<le> 2 ^ 53"
  shows "0 \<le> fl (q * fl (of_int n))" "fl (q * fl (of_int n)) \<le> of_int n"
proof -
  have n: "fl (of_int n) = of_int n" using assms(3,4) by simp
  show "0 \<le> fl (q * fl (of_int n))" using assms(1,3) by (simp add: fl_nonneg n)
  have "q * of_int n \<le> of_int n" using assms(1-3) by (simp add: mult_left_le_one_le)
  then have "fl (q * of_int n) \<le> fl (of_int n)" by (rule fl_mono)
  then show "fl (q * fl (of_int n)) \<le> of_int n" by (simp add: n)
qed

text \<open>
  The charts stay in their box: for counts that are not negative every point of a chart of size \<open>w\<close> by \<open>h\<close> lies
  between 0 and \<open>w\<close> across and, two pixels of margin at either side, between 2 and \<open>h - 2\<close> down, in the
  float64 arithmetic of the code; there is one point for each value.
\<close>

theorem chart_points_in_box:
  assumes "\<forall>v\<in>set vals. 0 \<le> v" "0 \<le> w" "w \<le> 2 ^ 53" "4 \<le> h" "h \<le> 2 ^ 53"
  shows "length (sparkline vals w h) = length vals \<and>
    (\<forall>(x, y)\<in>set (sparkline vals w h). 0 \<le> x \<and> x \<le> of_int w \<and> 2 \<le> y \<and> y \<le> of_int h - 2)"
proof -
  define mx denom where "mx = chart_max vals" and "denom = (if int (length vals) - 1 < 1 then 1 else int (length vals) - 1)"
  define px py where "px i = fl (fl (fl (of_nat i) / fl (of_int denom)) * fl (of_int w))"
    and "py v = fl (fl (fl (of_int h) - fl (fl (fl (of_int v) / fl (of_int mx)) * fl (of_int (h - 4)))) - 2)" for i :: nat and v
  have pts: "sparkline vals w h = map (\<lambda>(i, v). (px i, py v)) (enumerate 0 vals)"
    by (simp add: sparkline_def mx_def denom_def px_def py_def Let_def)
  have x: "0 \<le> px i \<and> px i \<le> of_int w" if "i < length vals" for i
  proof -
    have "0 \<le> real i" "real i \<le> of_int denom" "0 < (of_int denom :: real)" using that by (auto simp: denom_def)
    from fl_fraction [OF this] show ?thesis using fl_scaled assms(2,3) by (simp add: px_def)
  qed
  have y: "2 \<le> py v \<and> py v \<le> of_int h - 2" if "v \<in> set vals" for v
  proof -
    have "0 \<le> (of_int v :: real)" "(of_int v :: real) \<le> of_int mx" "0 < (of_int mx :: real)"
      using that assms(1) chart_max_bounds(1) [of vals] chart_max_bounds(2) [OF that] by (auto simp: mx_def)
    from fl_fraction [OF this] obtain q where q: "fl (fl (of_int v) / fl (of_int mx)) = q" "0 \<le> q" "q \<le> 1" by blast
    define s where "s = fl (q * fl (of_int (h - 4)))"
    have s: "0 \<le> s" "s \<le> of_int h - 4" using fl_scaled [OF q(2,3), of "h - 4"] assms(4,5) by (simp_all add: s_def)
    have h: "fl (of_int h) = of_int h" using assms(4,5) by simp
    have "fl 4 \<le> fl (of_int h - s)" using s by (intro fl_mono) simp
    moreover have "fl (of_int h - s) \<le> fl (of_int h)" using s by (intro fl_mono) simp
    ultimately have t: "4 \<le> fl (of_int h - s)" "fl (of_int h - s) \<le> of_int h" by (simp_all add: h)
    have "fl 2 \<le> fl (fl (of_int h - s) - 2)" using t by (intro fl_mono) simp
    moreover have "fl (fl (of_int h - s) - 2) \<le> fl (of_int (h - 2))" using t by (intro fl_mono) simp
    moreover have "fl (of_int (h - 2)) = of_int (h - 2)" using assms(4,5) by (intro fl_of_int) simp
    moreover have "py v = fl (fl (of_int h - s) - 2)" by (simp only: py_def q(1) s_def h)
    ultimately show ?thesis by simp
  qed
  have "i < length vals \<and> v \<in> set vals" if "(i, v) \<in> set (enumerate 0 vals)" for i v
    using that by (auto simp: in_set_enumerate_eq)
  then show ?thesis unfolding pts using x y by fastforce
qed

theorem chart_points_in_box_witness: "length (sparkline [3, 0, 40] 720 90) = 3"
  using chart_points_in_box [of "[3, 0, 40]" 720 90] by simp

text \<open>The page of any two moments with the same state, charts and number of events consists of the same tags.\<close>

lemmas number_inert = plain_inert [OF plain_itoa] plain_inert [OF plain_duration_string] plain_inert [OF plain_format_clock]
  plain_inert [OF plain_format_date_time] plain_inert [OF plain_format_rfc1123]

lemma plain_points: "plain (points_text points)"
  unfolding points_text_def by (rule plain_trim_space) (induction points; simp add: case_prod_beta)

lemma ongoing_inert: "place_after In_text ''ongoing'' = In_text" "markup_from In_text ''ongoing'' = []"
  by (simp_all add: plain_inert plain_char_def)

lemma event_rows_alike:
  assumes "length rs = length qs"
  shows "alike In_text In_text [concat (map (\<lambda>r. concat (event_row_html r)) rs)] [concat (map (\<lambda>r. concat (event_row_html r)) qs)]"
proof (rule alike_repeat)
  have "alike In_text In_text (event_row_html r) (event_row_html q)" for r q
    by (cases "er_end r"; cases "er_end q") (simp_all add: event_row_html_def number_inert ongoing_inert)
  then show "list_all2 (\<lambda>r q. alike In_text In_text (event_row_html r) (event_row_html q)) rs qs"
    using assms by (simp add: list_all2_conv_all_nth)
qed

lemma security_page_is_inert:
  assumes "pg_under_attack p = pg_under_attack q" "length (pg_rows p) = length (pg_rows q)"
    and "pg_reqs_chart p = [] \<longleftrightarrow> pg_reqs_chart q = []" "pg_blocked_chart p = [] \<longleftrightarrow> pg_blocked_chart q = []"
  shows "markup (concat (security_parts now p)) = markup (concat (security_parts now' q))"
proof -
  have "pg_rows p = [] \<longleftrightarrow> pg_rows q = []" using assms(2) by auto
  then have "alike In_text In_text (security_parts now p) (security_parts now' q)"
    using alike_concat [OF event_rows_alike [OF assms(2)]] assms(1,3,4)
    by (simp add: security_parts_def badge_html_def sparkline_svg_def rows_html_def Let_def number_inert plain_inert [OF plain_points])
  from alike_concat [OF this] show ?thesis by (simp add: markup_def)
qed

end
