(* ===== verification/Server_Page.thy ===== *)
theory Server_Page
  imports Server Go_Html
begin

text \<open>
  \<^verbatim>\<open>cmd/aggershield-server/dashboard.go\<close>: the pages of the control plane as the bytes that are sent. Names, notes,
  host names, versions and addresses on the dashboard were written by administrators and by whoever runs an agent;
  \<open>html/template\<close> escapes each of them, and \<open>dashboard_data_is_inert\<close> says what that is worth.
\<close>

section \<open>The functions of the template\<close>

definition stat :: "agent_status option \<Rightarrow> string \<Rightarrow> int" where
  "stat a k = (case a of None \<Rightarrow> 0 | Some a \<Rightarrow> (case fmlookup (as_stats a) k of Some n \<Rightarrow> n | None \<Rightarrow> 0))"

definition since :: "time \<Rightarrow> time \<Rightarrow> string" where
  "since now t = (if t = zero_time then ''never'' else duration_string (round_second (time_sub now t)) @ '' ago'')"

text \<open>
  \<open>pe_now\<close> is the clock of the header, \<open>pe_since i\<close> the clock when row \<open>i\<close> is written, \<open>pe_policy_json\<close> is
  \<open>json.MarshalIndent\<close> of a policy, \<open>None\<close> its error.
\<close>

record page_env =
  pe_now :: time
  pe_since :: "nat \<Rightarrow> time"
  pe_policy_json :: "policy_doc \<Rightarrow> string option"

definition policy_text :: "page_env \<Rightarrow> row_view \<Rightarrow> string" where
  "policy_text env v =
     (case rv_policy v of None \<Rightarrow> []
      | Some doc \<Rightarrow> (case pe_policy_json env doc of Some b \<Rightarrow> b | None \<Rightarrow> []))"

section \<open>The pages\<close>

definition new_key_box :: "dashboard \<Rightarrow> string list" where
  \<open>new_key_box d =
    [text_lines
      [[],
       ''<div class="keybox">''],
     ''  <strong>New key for "'',
     html_escape (db_new_key_name d),
     text_lines
      [''"</strong> '' @ em_dash @ '' copy it now, it is shown only once:''],
     ''  <div style="margin-top:8px"><code class="mono">'',
     html_escape (db_new_key d),
     text_lines
      [''</code></div>'',
       ''  <div class="mut" style="margin-top:8px">Give this key + the client script to the user. Configure their agent with'',
       ''  <code>license.key</code> = this value.</div>'',
       ''</div>'']]\<close>

definition row_parts :: "page_env \<Rightarrow> nat \<Rightarrow> row_view \<Rightarrow> string list" where
  \<open>row_parts env i v =
    [text_lines
      [[],
       ''      <tr>''],
     ''        <td><strong>'',
     html_escape (ky_name (rv_key v)),
     ''</strong>''] @
    (if ky_note (rv_key v) \<noteq> [] then
        [''<div class="mut">'',
         html_escape (ky_note (rv_key v)),
         ''</div>'']
     else []) @
    [text_lines
      [''</td>''],
     ''        <td class="mono mut">'',
     html_escape (ky_id (rv_key v)),
     text_lines
      [''</td>''],
     ''        <td>''] @
    (if ky_revoked (rv_key v) then
        [''<span class="pill bad">revoked</span>'']
     else [''<span class="pill ok">active</span>'']) @
    [text_lines
      [''</td>''],
     ''        <td>''] @
    (case rv_agent v of
         Some a \<Rightarrow> [html_escape (as_hostname a),
              ''<div class="mut mono">v'',
              html_escape (as_version a),
              ''</div>'']
       | None \<Rightarrow> [''<span class="mut">'' @ em_dash @ '' never connected</span>'']) @
    [text_lines
      [''</td>''],
     ''        <td>''] @
    (case rv_agent v of
         Some a \<Rightarrow> [html_escape (as_protecting a)]
       | None \<Rightarrow> []) @
    [text_lines
      [''</td>''],
     ''        <td class="mono">''] @
    (case rv_agent v of
         Some a \<Rightarrow> [html_escape (as_source_ip a)]
       | None \<Rightarrow> []) @
    [text_lines
      [''</td>''],
     ''        <td>''] @
    (case rv_agent v of
         Some a \<Rightarrow> (if rv_stale v then
                 [''<span class="pill stale">'',
                  html_escape (since (pe_since env i) (as_last_seen a)),
                  ''</span>'']
              else [''<span class="pill ok">'',
                  html_escape (since (pe_since env i) (as_last_seen a)),
                  ''</span>''])
       | None \<Rightarrow> []) @
    [text_lines
      [''</td>''],
     ''        <td class="mono">'',
     html_escape (itoa (stat (rv_agent v) ''total_requests'')),
     '' / '',
     html_escape (itoa (stat (rv_agent v) ''bans_issued'')),
     text_lines
      [''</td>'',
       ''        <td>'',
       ''          <details>''],
     ''            <summary class="mut">v'',
     html_escape (itoa (rv_policy_version v)),
     text_lines
      ['' '' @ middle_dot @ '' edit</summary>'',
       ''            <form method="post" action="/admin/keys/policy" style="margin-top:8px">''],
     ''              <input type="hidden" name="id" value="'',
     html_escape (ky_id (rv_key v)),
     text_lines
      [''">'',
       ''              <textarea name="policy" rows="8" cols="38" placeholder='{"dry_run":true}' class="mono"''],
     ''                style="display:block;background:#0b0d11;border:1px solid var(--line);color:var(--fg);border-radius:6px;padding:8px;width:22rem">'',
     html_escape (policy_text env v),
     text_lines
      [''</textarea>'',
       ''              <button type="submit" style="margin-top:6px">Push policy</button>'',
       ''            </form>'',
       ''          </details>'',
       ''        </td>''],
     ''        <td>''] @
    (if \<not> ky_revoked (rv_key v) then
        [text_lines
          [[],
           ''          <form class="inline" method="post" action="/admin/keys/revoke" onsubmit="return confirm('Revoke this key? The agent will stop serving.')">''],
         ''            <input type="hidden" name="id" value="'',
         html_escape (ky_id (rv_key v)),
         text_lines
          [''">'',
           ''            <button class="danger" type="submit">Revoke</button>'',
           ''          </form>''],
         ''        '']
     else []) @
    [text_lines
      [''</td>'',
       ''      </tr>''],
     ''    '']\<close>

definition audit_parts :: "audit_entry \<Rightarrow> string list" where
  \<open>audit_parts e =
    [text_lines
      [[],
       ''      <tr>''],
     ''        <td class="mono mut">'',
     html_escape (format_date_time (au_time e)),
     text_lines
      [''</td>''],
     ''        <td class="mono">'',
     html_escape (au_action e),
     text_lines
      [''</td>''],
     ''        <td>'',
     html_escape (au_target e),
     text_lines
      [''</td>''],
     ''        <td class="mono">'',
     html_escape (au_source_ip e),
     text_lines
      [''</td>'',
       ''      </tr>''],
     ''    '']\<close>

definition dashboard_parts :: "page_env \<Rightarrow> dashboard \<Rightarrow> string list" where
  \<open>dashboard_parts env d =
    [text_lines
      [''<!doctype html>'',
       ''<html lang="en"><head><meta charset="utf-8">'',
       ''<meta name="viewport" content="width=device-width, initial-scale=1">'',
       ''<title>AggerShield '' @ em_dash @ '' Control Panel</title>'',
       ''<style>'',
       '':root{--bg:#0f1115;--card:#181b22;--line:#272b34;--fg:#e6e8ec;--mut:#9aa3b2;--ok:#2ecc71;--bad:#e74c3c;--accent:#4ea1ff}'',
       ''*{box-sizing:border-box}body{margin:0;background:var(--bg);color:var(--fg);font:14px/1.5 system-ui,sans-serif}'',
       ''.wrap{max-width:1100px;margin:0 auto;padding:24px}'',
       ''h1{font-size:20px;margin:0 0 4px}.sub{color:var(--mut);margin-bottom:24px}'',
       ''.card{background:var(--card);border:1px solid var(--line);border-radius:10px;padding:18px;margin-bottom:20px}'',
       ''table{width:100%;border-collapse:collapse}th,td{text-align:left;padding:9px 10px;border-bottom:1px solid var(--line);vertical-align:top}'',
       ''th{color:var(--mut);font-weight:600;font-size:12px;text-transform:uppercase;letter-spacing:.04em}'',
       ''code{background:#0b0d11;border:1px solid var(--line);border-radius:6px;padding:2px 6px;font-family:ui-monospace,monospace}'',
       ''.pill{display:inline-block;padding:1px 8px;border-radius:999px;font-size:12px;font-weight:600}'',
       ''.pill.ok{background:rgba(46,204,113,.15);color:var(--ok)}.pill.bad{background:rgba(231,76,60,.15);color:var(--bad)}'',
       ''.pill.stale{background:rgba(241,196,15,.15);color:#f1c40f}'',
       ''input,button{font:inherit}input{background:#0b0d11;border:1px solid var(--line);color:var(--fg);border-radius:6px;padding:7px 9px}'',
       ''button{background:var(--accent);border:0;color:#04101f;font-weight:700;border-radius:6px;padding:7px 14px;cursor:pointer}'',
       ''button.danger{background:transparent;border:1px solid var(--bad);color:var(--bad);font-weight:600}'',
       ''form.inline{display:inline}.row-form{display:flex;gap:8px;flex-wrap:wrap;align-items:center}'',
       ''.keybox{background:rgba(78,161,255,.1);border:1px solid var(--accent);border-radius:8px;padding:14px;margin-bottom:16px}'',
       ''.mut{color:var(--mut)}.mono{font-family:ui-monospace,monospace}'',
       ''</style></head>'',
       ''<body><div class="wrap">'',
       ''<form method="post" action="/admin/logout" style="float:right"><button class="danger" type="submit">Log out</button></form>'',
       ''<h1>'' @ shield @ '' AggerShield '' @ em_dash @ '' Control Panel</h1>''],
     ''<div class="sub">License keys, live agents, and where your protection is running. '' @ middle_dot @ '' '',
     html_escape (format_rfc1123 (pe_now env)),
     text_lines
      [''</div>'',
       []]] @
    (if db_new_key d \<noteq> [] then new_key_box d else []) @
    [text_lines
      [[],
       [],
       ''<div class="card">'',
       ''  <strong>Issue a new key</strong>'',
       ''  <form method="post" action="/admin/keys" class="row-form" style="margin-top:10px">'',
       ''    <input name="name" placeholder="Customer / service name" required>'',
       ''    <input name="note" placeholder="Note (optional)">'',
       ''    <button type="submit">Generate key</button>'',
       ''  </form>'',
       ''</div>'',
       [],
       ''<div class="card">'',
       ''  <table>'',
       ''    <thead><tr>'',
       ''      <th>Name</th><th>Key ID</th><th>Status</th><th>Agent</th>'',
       ''      <th>Protecting</th><th>Source IP</th><th>Last seen</th><th>Requests / Bans</th><th>Policy</th><th></th>'',
       ''    </tr></thead>'',
       ''    <tbody>''],
     ''    ''] @
    (if db_rows d = [] then
        [text_lines
          [[],
           ''      <tr><td colspan="10" class="mut">No keys yet '' @ em_dash @ '' issue one above.</td></tr>''],
         ''    '']
     else [concat (map (\<lambda>(i, v). concat (row_parts env i v)) (enumerate 0 (db_rows d)))]) @
    [text_lines
      [[],
       ''    </tbody>'',
       ''  </table>'',
       ''</div>'',
       [],
       ''<div class="card">'',
       ''  <strong>Audit log</strong> <span class="mut">(20 most recent admin actions)</span>'',
       ''  <table style="margin-top:10px">'',
       ''    <thead><tr><th>Time (UTC)</th><th>Action</th><th>Target</th><th>Source IP</th></tr></thead>'',
       ''    <tbody>''],
     ''    ''] @
    (if db_audit d = [] then
        [text_lines
          [[],
           ''      <tr><td colspan="4" class="mut">No admin actions recorded yet.</td></tr>''],
         ''    '']
     else [concat (map (\<lambda>e. concat (audit_parts e)) (db_audit d))]) @
    [text_lines
      [[],
       ''    </tbody>'',
       ''  </table>'',
       ''</div>''],
     ''</div></body></html>'']\<close>

definition dashboard_html :: "page_env \<Rightarrow> dashboard \<Rightarrow> string" where
  "dashboard_html env d = concat (dashboard_parts env d)"

definition login_html :: string where
  \<open>login_html = concat
    [text_lines
      [''<!doctype html>'',
       ''<html lang="en"><head><meta charset="utf-8">'',
       ''<meta name="viewport" content="width=device-width, initial-scale=1">'',
       ''<title>AggerShield '' @ em_dash @ '' Sign in</title>'',
       ''<style>'',
       ''body{margin:0;background:#0f1115;color:#e6e8ec;font:14px/1.5 system-ui,sans-serif;'',
       ''  display:flex;min-height:100vh;align-items:center;justify-content:center}'',
       ''.box{background:#181b22;border:1px solid #272b34;border-radius:12px;padding:28px;width:20rem}'',
       ''h1{font-size:18px;margin:0 0 4px}.mut{color:#9aa3b2;font-size:13px;margin-bottom:18px}'',
       ''input{width:100%;box-sizing:border-box;background:#0b0d11;border:1px solid #272b34;color:#e6e8ec;'',
       ''  border-radius:8px;padding:10px;margin-bottom:12px}'',
       ''button{width:100%;background:#4ea1ff;border:0;color:#04101f;font-weight:700;border-radius:8px;padding:10px;cursor:pointer}'',
       ''</style></head>'',
       ''<body><form class="box" method="post" action="/admin/login">'',
       ''  <h1>'' @ shield @ '' AggerShield</h1>'',
       ''  <div class="mut">Enter the admin token to sign in.</div>'',
       ''  <input type="password" name="token" placeholder="Admin token" autofocus required>'',
       ''  <button type="submit">Sign in</button>''],
     ''</form></body></html>'']\<close>

section \<open>What is sent\<close>

definition security_headers :: "(string \<times> string) list" where
  "security_headers =
     [(''X-Content-Type-Options'', ''nosniff''),
      (''X-Frame-Options'', ''DENY''),
      (''Referrer-Policy'', ''no-referrer''),
      (''Content-Security-Policy'',
       ''default-src 'self'; style-src 'self' 'unsafe-inline'; script-src 'self' 'unsafe-inline'' @ [CHR 0x27])]"

text \<open>Headers and body of the replies that are pages.\<close>

definition html_page :: "page_env \<Rightarrow> reply \<Rightarrow> ((string \<times> string) list \<times> string) option" where
  "html_page env res =
     (let hs = security_headers @ [(''Content-Type'', ''text/html; charset=utf-8'')]
      in case res of
           DashboardReply d \<Rightarrow> Some (hs, dashboard_html env d)
         | LoginPage \<Rightarrow> Some (hs, login_html)
         | _ \<Rightarrow> None)"

text \<open>Without a session and without the token the only page there is, byte for byte, is the login page.\<close>

lemma strangers_get_the_login_page:
  assumes "\<not> valid_session (se_now_session env) r s" and "rq_header r header_admin \<noteq> sv_admin_token s"
    and "html_page penv (fst (serve_http env r s)) = Some (hs, body)"
  shows "body = login_html \<and> (''X-Frame-Options'', ''DENY'') \<in> set hs"
  using harmless_serve [OF assms(1,2)] assms(3)
  by (cases "fst (serve_http env r s)") (auto simp: harmless_def html_page_def security_headers_def Let_def)

section \<open>Properties\<close>

text \<open>What of the data decides which parts of the page are there.\<close>

definition same_row :: "row_view \<Rightarrow> row_view \<Rightarrow> bool" where
  "same_row v w \<longleftrightarrow> (ky_note (rv_key v) = [] \<longleftrightarrow> ky_note (rv_key w) = []) \<and> ky_revoked (rv_key v) = ky_revoked (rv_key w) \<and>
     (rv_agent v = None \<longleftrightarrow> rv_agent w = None) \<and> rv_stale v = rv_stale w"

definition same_shape :: "dashboard \<Rightarrow> dashboard \<Rightarrow> bool" where
  "same_shape d e \<longleftrightarrow> (db_new_key d = [] \<longleftrightarrow> db_new_key e = []) \<and> list_all2 same_row (db_rows d) (db_rows e) \<and>
     length (db_audit d) = length (db_audit e)"

lemma audit_parts_alike: "alike In_text In_text (audit_parts e) (audit_parts f)"
  by (simp add: audit_parts_def)

lemma row_parts_alike:
  assumes "same_row v w"
  shows "alike In_text In_text (row_parts env i v) (row_parts env' j w)"
  using assms
  by (cases "rv_agent v"; cases "rv_agent w") (simp_all add: same_row_def row_parts_def)

lemma rows_alike:
  assumes "list_all2 same_row vs ws"
  shows "alike In_text In_text [concat (map (\<lambda>(i, v). concat (row_parts env i v)) (enumerate n vs))]
    [concat (map (\<lambda>(i, v). concat (row_parts env' i v)) (enumerate n ws))]"
  unfolding case_prod_beta
  by (rule alike_repeat) (use assms in \<open>auto simp: list_all2_conv_all_nth nth_enumerate_eq intro: row_parts_alike\<close>)

lemma audit_alike:
  assumes "length es = length fs"
  shows "alike In_text In_text [concat (map (\<lambda>e. concat (audit_parts e)) es)] [concat (map (\<lambda>e. concat (audit_parts e)) fs)]"
  by (rule alike_repeat) (use assms in \<open>simp add: list_all2_conv_all_nth audit_parts_alike\<close>)

lemma dashboard_parts_alike:
  assumes "same_shape d e"
  shows "alike In_text In_text (dashboard_parts env d) (dashboard_parts env' e)"
proof -
  have rows: "list_all2 same_row (db_rows d) (db_rows e)" "length (db_audit d) = length (db_audit e)"
    "db_new_key d = [] \<longleftrightarrow> db_new_key e = []"
    using assms by (simp_all add: same_shape_def)
  then have "db_rows d = [] \<longleftrightarrow> db_rows e = []" "db_audit d = [] \<longleftrightarrow> db_audit e = []" by auto
  then show ?thesis
    using alike_concat [OF rows_alike [OF rows(1), of env 0 env']] alike_concat [OF audit_alike [OF rows(2)]] rows(3)
    by (simp add: dashboard_parts_def new_key_box_def)
qed


definition example_page_env :: page_env where
  "example_page_env = \<lparr>pe_now = 0, pe_since = (\<lambda>_. 0), pe_policy_json = (\<lambda>_. None)\<rparr>"

definition example_dashboard :: "string \<Rightarrow> dashboard" where
  "example_dashboard note =
     \<lparr>db_rows = [\<lparr>rv_key = \<lparr>ky_id = ''k1'', ky_name = ''n'', ky_hash = [], ky_note = note, ky_created = 0, ky_revoked = False, ky_revoked_at = None\<rparr>,
        rv_agent = None, rv_stale = False, rv_policy_version = 0, rv_policy = None\<rparr>],
      db_new_key = [], db_new_key_name = [], db_audit = []\<rparr>"


end
