(* ===== verification/Frontend.thy ===== *)
theory Frontend
  imports Admin Secmon_Page Tlsutil Proxy
begin

text \<open>
  The public side of \<^verbatim>\<open>cmd/aggershield/main.go\<close>: the mux of the proxy, with the telemetry endpoints and their
  token gate, the admin routes and the guard as the handler of everything else, and the watcher of the
  configuration file. The mux is modelled on request paths that are already clean; other paths it redirects by itself.
\<close>

section \<open>The code\<close>

record process =
  pc_agent :: agent
  pc_monitor :: monitor
  pc_api :: admin_api
  pc_router :: router

text \<open>\<open>main\<close> exits when the policy cannot be built or an upstream is no URL.\<close>

datatype boot_error = PolicyError "nat \<times> string" | ProxyError

definition new_process :: "boot_env \<Rightarrow> (string \<Rightarrow> url option) \<Rightarrow> config \<Rightarrow> boot_error + process" where
  "new_process env parse_url cfg =
     (case new_agent env cfg of
        Inl e \<Rightarrow> Inl (PolicyError e)
      | Inr a \<Rightarrow>
          (case new_router parse_url cfg of
             None \<Rightarrow> Inl ProxyError
           | Some rt \<Rightarrow> Inr \<lparr>pc_agent = a,
               pc_monitor = new_monitor (mo_sample_interval (cf_monitor cfg)) (mo_retain (cf_monitor cfg))
                 (mo_attack_threshold (cf_monitor cfg)) (mo_exit_intervals (cf_monitor cfg)),
               pc_api = new_admin (ad_token (cf_admin cfg)) True True (new_scrubber (cf_scrubber cfg)),
               pc_router = rt\<rparr>))"

record front_env =
  fe_guard :: guard_env
  fe_admin :: admin_env
  fe_now :: time
  fe_fmt_g :: "real \<Rightarrow> string"

datatype front_reply =
  StatsReply metrics_snapshot
| PrometheusReply string
| SecurityReply security_page
| SamplesReply "sample list"
| EventsReply "event list"
| HealthReply
| AdminReply admin_reply
| SiteReply outcome
| UnauthorizedReply

text \<open>\<open>telemetryGate\<close>: the header, or the query parameter when there is no header.\<close>

definition telemetry_admits :: "string \<Rightarrow> http_request \<Rightarrow> bool" where
  "telemetry_admits token r =
     (let got = rq_header r ''X-AggerShield-Token'';
          got = (if got = [] then rq_query r ''token'' else got)
      in got = token)"

definition telemetry_gate :: "config \<Rightarrow> http_request \<Rightarrow> front_reply \<Rightarrow> front_reply" where
  "telemetry_gate cfg r res =
     (if ad_protect_telemetry (cf_admin cfg) \<and> ad_token (cf_admin cfg) \<noteq> [] then
        (if telemetry_admits (ad_token (cf_admin cfg)) r then res else UnauthorizedReply)
      else res)"

definition telemetry_pages :: "front_env \<Rightarrow> process \<Rightarrow> (string \<times> front_reply) list" where
  "telemetry_pages env p =
     (let g = ag_guard (pc_agent p); m = pc_monitor p
      in [(''/aggershield/stats'', StatsReply (metrics_handler (fe_now env) (count_entries (gd_bans g)) (gd_metrics g))),
          (''/metrics'', PrometheusReply (prometheus (fe_fmt_g env) (fe_now env) (count_entries (gd_bans g)) (gd_metrics g))),
          (''/aggershield/security'', SecurityReply (security_page (fe_now env) m m m)),
          (''/aggershield/timeseries'', SamplesReply (samples m)),
          (''/aggershield/events'', EventsReply (events m))])"

text \<open>The mux of \<open>main\<close>; the configuration it was built from is the one of the start.\<close>

definition front_serve :: "front_env \<Rightarrow> http_request \<Rightarrow> process \<Rightarrow> front_reply \<times> process" where
  "front_serve env r p =
     (let cfg = ag_cfg (pc_agent p) in
      case map_of (telemetry_pages env p) (rq_path r) of
        Some res \<Rightarrow> (telemetry_gate cfg r res, p)
      | None \<Rightarrow>
          if rq_path r = ''/aggershield/health'' then (HealthReply, p)
          else
            (case (if ad_enabled (cf_admin cfg) then map_of admin_routes (rq_path r) else None) of
              Some h \<Rightarrow>
                (let (res, a) = h (fe_admin env) (pc_api p) r (pc_agent p) in (AdminReply res, p\<lparr>pc_agent := a\<rparr>))
            | None \<Rightarrow>
                (let (res, g) = guard_enter (fe_guard env) r (ag_guard (pc_agent p))
                 in (SiteReply res, p\<lparr>pc_agent := (pc_agent p)\<lparr>ag_guard := g\<rparr>\<rparr>))))"

text \<open>What the router behind the guard sends to an origin for a reply of the mux; \<open>None\<close> is no upstream request.\<close>

definition upstream_request :: "process \<Rightarrow> front_reply \<Rightarrow> outgoing option" where
  "upstream_request p res =
     (case res of
        SiteReply (Served r max_body slot) \<Rightarrow> map_option (\<lambda>o1. rewrite o1 r) (select_origin (pc_router p) r)
      | _ \<Rightarrow> None)"

text \<open>One tick of the security monitor: it reads the counters of the guard.\<close>

definition monitor_tick :: "time \<Rightarrow> process \<Rightarrow> process" where
  "monitor_tick now p =
     p\<lparr>pc_monitor := tick (monitor_counters (gd_metrics (ag_guard (pc_agent p)))) now (pc_monitor p)\<rparr>"

subsection \<open>The watcher of the configuration file\<close>

text \<open>\<open>stat\<close> is the modification time, or \<open>None\<close> for an error; the result is the remembered time and whether to reload.\<close>

definition watch_start :: "time option \<Rightarrow> time" where
  "watch_start stat = (case stat of Some t \<Rightarrow> t | None \<Rightarrow> zero_time)"

definition watch_tick :: "time option \<Rightarrow> time \<Rightarrow> bool \<times> time" where
  "watch_tick stat last_mod =
     (case stat of None \<Rightarrow> (False, last_mod) | Some t \<Rightarrow> if last_mod < t then (True, t) else (False, last_mod))"

definition watch_step :: "(string \<Rightarrow> (string \<Rightarrow> bool) option) \<Rightarrow> time \<Rightarrow> time option \<Rightarrow> load_error + config \<Rightarrow> time \<times> agent \<Rightarrow> time \<times> agent" where
  "watch_step regex now stat loaded w =
     (let (last_mod, a) = w; (fire, last_mod) = watch_tick stat last_mod
      in (last_mod, if fire then snd (local_reload regex now loaded a) else a))"

section \<open>Properties\<close>

definition reserved_paths :: "string list" where
  "reserved_paths = [''/aggershield/stats'', ''/metrics'', ''/aggershield/security'', ''/aggershield/timeseries'', ''/aggershield/events'']"

lemma telemetry_paths: "map fst (telemetry_pages env p) = reserved_paths"
  by (simp add: telemetry_pages_def reserved_paths_def Let_def)

lemma telemetry_page_None: "map_of (telemetry_pages env p) path = None \<longleftrightarrow> path \<notin> set reserved_paths"
  by (simp only: map_of_eq_None_iff set_map [symmetric] telemetry_paths)


definition example_front_env :: front_env where
  "example_front_env = \<lparr>fe_guard = example_env, fe_admin = example_admin_env, fe_now = 0, fe_fmt_g = (\<lambda>_. [])\<rparr>"

definition example_process :: process where
  "example_process = \<lparr>pc_agent = (example_agent False)\<lparr>ag_cfg := zero_config\<lparr>cf_admin :=
       \<lparr>ad_enabled = True, ad_token = ''t'', ad_protect_telemetry = True\<rparr>\<rparr>\<rparr>,
     pc_monitor = new_monitor second 0 0 0, pc_api = new_admin ''t'' True True None,
     pc_router = \<lparr>rt_sites = fmempty, rt_default = Some \<lparr>og_target = \<lparr>ur_scheme = ''http'', ur_host = ''app:3000'', ur_path = []\<rparr>,
       og_preserve_host = True, og_forward_fp = False\<rparr>\<rparr>\<rparr>"


text \<open>What is answered on a path of the process itself, and what the guard does not serve, reaches no origin.\<close>

lemma upstream_is_served:
  assumes "front_serve env r p = (res, p')" and "upstream_request p res = Some out"
  shows "\<exists>o1 r1 max_body slot. res = SiteReply (Served r1 max_body slot) \<and> rq_path r \<notin> set reserved_paths \<and>
    fst (guard_enter (fe_guard env) r (ag_guard (pc_agent p))) = Served r1 max_body slot \<and>
    select_origin (pc_router p) r1 = Some o1 \<and> out = rewrite o1 r1"
proof -
  obtain o1 r1 max_body slot where out: "res = SiteReply (Served r1 max_body slot)" "select_origin (pc_router p) r1 = Some o1" "out = rewrite o1 r1"
    using assms(2) by (auto simp: upstream_request_def split: front_reply.splits outcome.splits)
  have path: "rq_path r \<notin> set reserved_paths"
  proof
    assume "rq_path r \<in> set reserved_paths"
    then obtain x where x: "map_of (telemetry_pages env p) (rq_path r) = Some x"
      using telemetry_page_None [of env p "rq_path r"] by auto
    have "x \<noteq> SiteReply (Served r1 max_body slot)"
      using map_of_SomeD [OF x] by (auto simp: telemetry_pages_def Let_def)
    with assms(1) out(1) x show False
      by (auto simp: front_serve_def telemetry_gate_def Let_def split: if_splits)
  qed
  then have "map_of (telemetry_pages env p) (rq_path r) = None" by (simp add: telemetry_page_None)
  then have "fst (guard_enter (fe_guard env) r (ag_guard (pc_agent p))) = Served r1 max_body slot"
    using assms(1) out(1) by (auto simp: front_serve_def Let_def case_prod_beta split: if_splits option.splits)
  then show ?thesis using out path by blast
qed


definition serving_process :: process where
  "serving_process = example_process\<lparr>pc_agent := (example_agent False)\<lparr>ag_guard := example_guard False 1\<rparr>\<rparr>"

lemma serving_process_serves:
  "\<exists>out. upstream_request serving_process (fst (front_serve example_front_env example_request serving_process)) = Some out"
proof -
  have "\<exists>r mb slot. fst (guard_enter example_env example_request (example_guard False 1)) = Served r mb slot"
    by (simp add: example_simps example_ip st_conns_def acquire_def new_conn_limiter_def active_of_def serve_request_def) blast
  then obtain r mb slot where s: "fst (guard_enter example_env example_request (example_guard False 1)) = Served r mb slot" by blast
  have path: "rq_path example_request = ''/''" by (simp add: example_request_def blank_request_def)
  have "map_of (telemetry_pages example_front_env serving_process) ''/'' = None"
    by (simp add: telemetry_page_None reserved_paths_def)
  moreover have "map_of admin_routes ''/'' = None" by (simp add: admin_routes_def)
  ultimately have "fst (front_serve example_front_env example_request serving_process) = SiteReply (Served r mb slot)"
    using s by (simp add: front_serve_def path Let_def case_prod_beta serving_process_def example_front_env_def)
  then show ?thesis
    by (simp add: upstream_request_def serving_process_def example_process_def select_origin_def)
qed


text \<open>The watcher reloads once for every change it sees, and a failed look at the file changes nothing.\<close>

lemma watch_tick_twice:
  "watch_tick stat last_mod = (fire, seen) \<Longrightarrow> watch_tick stat seen = (False, seen)"
  by (auto simp: watch_tick_def split: option.splits if_splits)

lemma watch_tick_fires: "fst (watch_tick stat last_mod) \<longleftrightarrow> (\<exists>t. stat = Some t \<and> last_mod < t)"
  by (simp add: watch_tick_def split: option.split)

end
