(* ===== verification/Solver.thy ===== *)
theory Solver
  imports Challenge "HOL-Library.While_Combinator" "HOL-Library.Finite_Map"
begin

text \<open>
  The clients of the proof-of-work challenge: the script of the challenge page (in \<^verbatim>\<open>internal/challenge/challenge.go\<close>)
  and the load generator \<^verbatim>\<open>cmd/flood/main.go\<close>. Their searches are \<open>while_option\<close> loops, so \<open>None\<close> means that the
  loop never ends. SHA-256 is the concrete one; the numbers of the script are doubles, on which \<open>n++\<close> stands
  still at \<open>2^53\<close>. The HTTP exchange of the load generator is an argument.
\<close>

section \<open>The script of the challenge page\<close>

text \<open>\<open>while(bits<8&&(v&128)===0){bits++;v=(v<<1)&255;}\<close>\<close>

function page_bits :: "nat \<Rightarrow> byte \<Rightarrow> nat" where
  "page_bits n v = (if n < 8 \<and> and v 128 = 0 then page_bits (Suc n) (push_bit 1 v) else n)"
  by pat_completeness auto
termination by (relation "measure (\<lambda>(n, v). 8 - n)") auto

declare page_bits.simps [simp del]

fun page_lz :: "int \<Rightarrow> byte list \<Rightarrow> int" where
  "page_lz c [] = c"
| "page_lz c (b # u) = (if b = 0 then page_lz (c + 8) u else c + int (page_bits 0 b))"

definition js_succ :: "int \<Rightarrow> int" where
  "js_succ n = (if n < 2 ^ 53 then n + 1 else n)"

definition page_search :: "string \<Rightarrow> int \<Rightarrow> int option" where
  "page_search c d = while_option (\<lambda>n. page_lz 0 (sha256 (bytes_of (c @ '':'' @ itoa n))) < d) js_succ 0"

text \<open>The cookie it sets, for the arguments the page was filled with.\<close>

definition page_script :: "string \<times> string \<times> int \<times> string \<times> int \<Rightarrow> string option" where
  "page_script args = (case args of (c, ts, d, sig, max_age) \<Rightarrow> map_option (solved args) (page_search c d))"

section \<open>The load generator\<close>

definition header_challenge :: string where "header_challenge = ''X-AggerShield-Challenge''"
definition header_data :: string where "header_data = ''X-AggerShield-Challenge-Data''"
definition code_challenge :: int where "code_challenge = -1"

definition flood_label :: "int \<Rightarrow> string" where
  "flood_label code = (if code = 0 then ''ERR'' else if code = code_challenge then ''CHL'' else itoa code)"

text \<open>\<open>r.Cookie\<close> for a Cookie header of one pair, the only kind the load generator sends.\<close>

definition sent_cookie :: "string \<Rightarrow> string \<Rightarrow> string option" where
  "sent_cookie header name =
     (case cut (CHR ''='') header of Some (n, v) \<Rightarrow> if n = name then Some v else None | None \<Rightarrow> None)"

text \<open>\<open>target\<close> is the request \<open>http.NewRequest\<close> makes of the URL; \<open>None\<close> is an error of the call.\<close>

record http_response =
  hs_status :: int
  hs_header :: "string \<Rightarrow> string"

definition flood_request :: "http_request \<Rightarrow> string \<Rightarrow> string \<Rightarrow> http_request" where
  "flood_request target src_ip cookie =
     (let r = target\<lparr>rq_method := ''GET'',
            rq_header := (rq_header target)(''X-Forwarded-For'' := src_ip, ''Accept'' := ''text/html,application/xhtml+xml'')\<rparr>
      in if cookie \<noteq> [] then r\<lparr>rq_header := (rq_header r)(''Cookie'' := cookie), rq_cookie := sent_cookie cookie\<rparr> else r)"

definition do_request :: "(http_request \<Rightarrow> http_response option) \<Rightarrow> http_request \<Rightarrow> string \<Rightarrow> string \<Rightarrow> int \<times> string" where
  "do_request http target src_ip cookie =
     (case http (flood_request target src_ip cookie) of
        None \<Rightarrow> (0, [])
      | Some resp \<Rightarrow>
          if hs_header resp header_challenge = ''1'' then (code_challenge, hs_header resp header_data)
          else (hs_status resp, []))"

definition flood_search :: "string \<Rightarrow> int \<Rightarrow> int option" where
  "flood_search token diff = while_option (\<lambda>n. n < 2 ^ 28 \<and> \<not> pow_valid token (itoa n) diff) (\<lambda>n. n + 1) 0"

definition solve_challenge :: "string \<Rightarrow> string option" where
  "solve_challenge data =
     (case split_on (CHR ''.'') data of
        [token, ts, diff_str, sig] \<Rightarrow>
          (case parse_int diff_str of
             None \<Rightarrow> Some []
           | Some diff \<Rightarrow>
               map_option (\<lambda>n. if n < 2 ^ 28 then ''ag_clearance='' @ join ''.'' [token, ts, diff_str, itoa n, sig] else [])
                 (flood_search token diff))
      | _ \<Rightarrow> Some [])"

definition rand_ip :: "int \<Rightarrow> int \<Rightarrow> string" where
  "rand_ip a b = ''198.18.'' @ itoa a @ ''.'' @ itoa (b + 1)"

text \<open>
  One job of a worker: \<open>http1\<close> and \<open>http2\<close> are the two exchanges, \<open>rnd\<close> the random numbers. \<open>None\<close> would be a
  solver that does not return.
\<close>

definition flood_job :: "string \<Rightarrow> string \<Rightarrow> bool \<Rightarrow> http_request \<Rightarrow> (http_request \<Rightarrow> http_response option) \<Rightarrow>
    (http_request \<Rightarrow> http_response option) \<Rightarrow> int \<times> int \<Rightarrow> int option" where
  "flood_job mode ip solve target http1 http2 rnd =
     (let src_ip = (if mode = ''distributed'' then rand_ip (fst rnd) (snd rnd) else ip);
          (code, chal_data) = do_request http1 target src_ip []
      in if solve \<and> code = code_challenge \<and> chal_data \<noteq> [] then
           map_option (\<lambda>cookie. if cookie \<noteq> [] then fst (do_request http2 target src_ip cookie) else code)
             (solve_challenge chal_data)
         else Some code)"

text \<open>The counters of the workers, in the order the jobs finish, and the distribution that is printed.\<close>

definition bump :: "int \<Rightarrow> (int, int) fmap \<Rightarrow> (int, int) fmap" where
  "bump code counts = fmupd code (i64 ((case fmlookup counts code of Some v \<Rightarrow> v | None \<Rightarrow> 0) + 1)) counts"

fun flood_counts :: "int list \<Rightarrow> (int, int) fmap \<Rightarrow> (int, int) fmap" where
  "flood_counts [] counts = counts"
| "flood_counts (code # codes) counts = flood_counts codes (bump code counts)"

definition flood_report :: "(int, int) fmap \<Rightarrow> (string \<times> int) list" where
  "flood_report counts =
     map (\<lambda>code. (flood_label code, case fmlookup counts code of Some v \<Rightarrow> v | None \<Rightarrow> 0)) (sorted_list_of_fset (fmdom counts))"

section \<open>Searching\<close>

lemma search_bounded:
  assumes "n \<le> m"
  shows "while_option (\<lambda>n. n < m \<and> \<not> P n) (\<lambda>n. n + 1) n = Some (case List.find P [n..m - 1] of Some k \<Rightarrow> k | None \<Rightarrow> m)"
  using assms
proof (induction "nat (m - n)" arbitrary: n)
  case 0
  then show ?case by (subst while_option_unfold) simp
next
  case (Suc k)
  then have "n < m" by simp
  moreover have "[n..m - 1] = n # [n + 1..m - 1]" using \<open>n < m\<close> by (intro upto_rec1) simp
  moreover have "while_option (\<lambda>n. n < m \<and> \<not> P n) (\<lambda>n. n + 1) (n + 1) =
    Some (case List.find P [n + 1..m - 1] of Some k \<Rightarrow> k | None \<Rightarrow> m)"
    using Suc by simp
  ultimately show ?case by (subst while_option_unfold) simp
qed

text \<open>A search whose counter stops at \<open>m\<close> never ends when nothing up to \<open>m\<close> is found.\<close>

lemma search_saturating:
  assumes "n \<le> m"
  shows "while_option (\<lambda>n. \<not> P n) (\<lambda>n. if n < m then n + 1 else n) n = List.find P [n..m]"
  using assms
proof (induction "nat (m - n)" arbitrary: n)
  case 0
  then have n: "n = m" by simp
  show ?case
  proof (cases "P m")
    case False
    have "while_option (\<lambda>n. \<not> P n) (\<lambda>n. if n < m then n + 1 else n) m = None"
    proof (rule ccontr)
      assume "while_option (\<lambda>n. \<not> P n) (\<lambda>n. if n < m then n + 1 else n) m \<noteq> None"
      then obtain t where t: "while_option (\<lambda>n. \<not> P n) (\<lambda>n. if n < m then n + 1 else n) m = Some t" by blast
      have "t = m" by (rule while_option_rule [OF _ t, of "\<lambda>x. x = m"]) simp_all
      then show False using while_option_stop [OF t] False by simp
    qed
    then show ?thesis using False by (simp add: n)
  qed (simp add: n while_option_unfold)
next
  case (Suc k)
  then have "n < m" by simp
  moreover have "[n..m] = n # [n + 1..m]" using \<open>n < m\<close> by (intro upto_rec1) simp
  moreover have "while_option (\<lambda>n. \<not> P n) (\<lambda>n. if n < m then n + 1 else n) (n + 1) = List.find P [n + 1..m]"
    using Suc by simp
  ultimately show ?case by (subst while_option_unfold) simp
qed

lemma page_bits_leading_zeros: "int (page_bits 0 x) = leading_zeros8 x"
proof -
  have "list_all (\<lambda>n. int (page_bits 0 (word_of_nat n)) = leading_zeros8 (word_of_nat n)) [0..<256]" by code_simp
  moreover have "unat x \<in> set [0..<256]" using unsigned_less [of x] by simp
  ultimately have "int (page_bits 0 (word_of_nat (unat x))) = leading_zeros8 (word_of_nat (unat x))"
    by (simp only: list_all_iff)
  then show ?thesis by simp
qed

lemma page_lz_eq: "page_lz c u = leading_zero_loop c u"
  by (induction c u rule: page_lz.induct) (simp_all add: page_bits_leading_zeros)

lemma page_search_eq: "page_search c d = List.find (\<lambda>n. pow_valid c (itoa n) d) [0..2 ^ 53]"
proof -
  have "js_succ = (\<lambda>n. if n < 2 ^ 53 then n + 1 else n)" by (intro ext) (simp add: js_succ_def)
  then show ?thesis
    unfolding page_search_def using search_saturating [of 0 "2 ^ 53" "\<lambda>n. pow_valid c (itoa n) d"]
    by (simp add: page_lz_eq pow_valid_def leading_zero_bits_def not_le)
qed

lemma flood_search_eq:
  "flood_search token d = Some (case List.find (\<lambda>n. pow_valid token (itoa n) d) [0..2 ^ 28 - 1] of Some n \<Rightarrow> n | None \<Rightarrow> 2 ^ 28)"
  unfolding flood_search_def using search_bounded [of 0 "2 ^ 28" "\<lambda>n. pow_valid token (itoa n) d"] by simp

lemma find_upto: "List.find P [a..b] = Some n \<Longrightarrow> a \<le> n \<and> n \<le> b \<and> P n"
  using nth_mem [of _ "[a..b]"] by (auto simp: find_Some_iff)

lemma find_upto_None: "List.find P [a..b] = None \<longleftrightarrow> (\<forall>n\<in>{a..b}. \<not> P n)"
  by (auto simp: find_None_iff)

section \<open>Properties\<close>

text \<open>
  When the challenge page lets a browser go: its script is the search for the first of the nonces
  \<open>0, ..., 2^53\<close> that does the work; it ends exactly if there is one, then setting the cookie for that nonce, and
  otherwise it never ends, because the counter stops at \<open>2^53\<close>.
\<close>

theorem page_script_ends_iff_solvable:
  "page_script (c, ts, d, sig, max_age) =
     map_option (\<lambda>n. join ''.'' [c, ts, itoa d, itoa n, sig]) (List.find (\<lambda>n. pow_valid c (itoa n) d) [0..2 ^ 53]) \<and>
   ((\<exists>cookie. page_script (c, ts, d, sig, max_age) = Some cookie) \<longleftrightarrow> (\<exists>n. 0 \<le> n \<and> n \<le> 2 ^ 53 \<and> pow_valid c (itoa n) d))"
proof -
  have "page_script (c, ts, d, sig, max_age) =
     map_option (\<lambda>n. join ''.'' [c, ts, itoa d, itoa n, sig]) (List.find (\<lambda>n. pow_valid c (itoa n) d) [0..2 ^ 53])"
  proof -
    have "solved (c, ts, d, sig, max_age) = (\<lambda>n. join ''.'' [c, ts, itoa d, itoa n, sig])" by (intro ext) (simp add: solved_def)
    then show ?thesis by (simp only: page_script_def page_search_eq prod.case)
  qed
  moreover have "(\<exists>n. List.find (\<lambda>n. pow_valid c (itoa n) d) [0..2 ^ 53] = Some n) \<longleftrightarrow>
      (\<exists>n. 0 \<le> n \<and> n \<le> 2 ^ 53 \<and> pow_valid c (itoa n) d)"
    using find_upto_None [of "\<lambda>n. pow_valid c (itoa n) d" 0 "2 ^ 53"] by auto
  ultimately show ?thesis by auto
qed

text \<open>A difficulty above 256 bits, which \<open>config.validate\<close> lets through, keeps every browser searching for ever.\<close>

lemma difficulty_over_256_hangs:
  assumes "256 < d"
  shows "page_script (c, ts, d, sig, max_age) = None"
proof -
  have "leading_zero_bits b \<le> 8 * int (length b)" for b
    using length_takeWhile_le [of Not "addr_bitstring b"] length_addr_bitstring [of b] by (simp add: leading_zero_bits_takeWhile)
  then have "leading_zero_bits (sha256 m) \<le> 256" for m using length_sha256 [of m] by (metis of_nat_numeral mult_numeral_1_right numeral_times_numeral semiring_norm)
  then have "\<not> pow_valid c (itoa n) d" for n using assms by (simp add: pow_valid_def not_le) (smt (verit))
  then show ?thesis using find_upto_None by (simp add: page_script_def page_search_eq)
qed

text \<open>
  The solver of the load generator always returns: for every text it ends within \<open>2^28\<close> attempts, with the
  clearance cookie for the first nonce below \<open>2^28\<close> that does the work the text asks for, and with the empty
  string when there is none or the text has no four parts or no number.
\<close>

theorem solver_always_returns:
  "solve_challenge data =
     Some (case split_on (CHR ''.'') data of
        [token, ts, diff_str, sig] \<Rightarrow>
          (case parse_int diff_str of
             None \<Rightarrow> []
           | Some d \<Rightarrow>
               (case List.find (\<lambda>n. pow_valid token (itoa n) d) [0..2 ^ 28 - 1] of
                  None \<Rightarrow> []
                | Some n \<Rightarrow> ''ag_clearance='' @ join ''.'' [token, ts, diff_str, itoa n, sig]))
      | _ \<Rightarrow> [])"
  unfolding solve_challenge_def flood_search_eq
  by (auto split: list.split option.split dest: find_upto)

text \<open>
  C23. A client that does the work is let through: if the first exchange of a job shows it an issued challenge that
  some number below \<open>2^28\<close> solves, the job ends, and the request it sends then carries a clearance that any
  manager with the same secret accepts until the lifetime has passed.
\<close>

theorem solving_client_is_cleared:
  assumes "http1 (flood_request target ip []) = Some resp" and "mode \<noteq> ''distributed''"
    and "hs_header resp header_challenge = cr_challenge (serve m rand16 t0)" "hs_header resp header_data = cr_data (serve m rand16 t0)"
    and "pow_valid (rand_hex rand16) (itoa k) (cm_difficulty m)" "0 \<le> k" "k < 2 ^ 28"
    and "cm_secret m' = cm_secret m" "time_sub now (of_unix (to_unix t0)) \<le> cm_clearance_ttl m'"
    and "- (2 ^ 63) \<le> to_unix t0" "to_unix t0 < 2 ^ 63" "- (2 ^ 63) \<le> cm_difficulty m" "cm_difficulty m < 2 ^ 63"
  shows "\<exists>cookie. flood_job mode ip True target http1 http2 rnd = Some (fst (do_request http2 target ip cookie)) \<and>
    has_clearance m' now (flood_request target ip cookie)"
proof -
  let ?data = "cr_data (serve m rand16 t0)"
  let ?parts = "[rand_hex rand16, itoa (to_unix t0), itoa (cm_difficulty m),
    sign m (rand_hex rand16) (itoa (to_unix t0)) (itoa (cm_difficulty m))]"
  have data: "?data = join ''.'' ?parts" by (simp add: serve_def Let_def)
  have split: "split_on (CHR ''.'') ?data = ?parts"
    unfolding data by (rule split_on_join) (simp_all add: rand_hex_def no_dot_bar sign_def itoa_no_dot)
  obtain n where n: "List.find (\<lambda>n. pow_valid (rand_hex rand16) (itoa n) (cm_difficulty m)) [0..2 ^ 28 - 1] = Some n"
    using assms(5-7) find_upto_None [of "\<lambda>n. pow_valid (rand_hex rand16) (itoa n) (cm_difficulty m)" 0 "2 ^ 28 - 1"] by fastforce
  then have search: "flood_search (rand_hex rand16) (cm_difficulty m) = Some n" by (simp only: flood_search_eq option.case)
  have pow: "pow_valid (rand_hex rand16) (itoa n) (cm_difficulty m)" "n < 2 ^ 28" using find_upto [OF n] by simp_all
  have num: "parse_int (itoa (cm_difficulty m)) = Some (cm_difficulty m)" using assms(12,13) by (rule parse_int_itoa)
  define val where "val = solved (cr_page_args (serve m rand16 t0)) n"
  have val: "''ag_clearance='' @ val = ''ag_clearance='' @ join ''.'' [rand_hex rand16, itoa (to_unix t0), itoa (cm_difficulty m), itoa n,
      sign m (rand_hex rand16) (itoa (to_unix t0)) (itoa (cm_difficulty m))]"
    by (simp add: val_def solved_def serve_def Let_def)
  have cookie: "solve_challenge ?data = Some (''ag_clearance='' @ val)"
    using pow(2) unfolding val by (simp add: solve_challenge_def split num search)
  have "cr_challenge (serve m rand16 t0) = ''1''" by (simp add: serve_def Let_def)
  then have first: "do_request http1 target ip [] = (code_challenge, ?data)" using assms(1,3,4) by (simp add: do_request_def)
  have "?data \<noteq> []" by (simp add: data)
  then have "flood_job mode ip True target http1 http2 rnd = Some (fst (do_request http2 target ip (''ag_clearance='' @ val)))"
    using assms(2) by (simp add: flood_job_def first cookie)
  moreover have "sent_cookie (''ag_clearance='' @ val) clearance_cookie = Some val"
    using cut_append [of "CHR ''=''" "''ag_clearance''" val] by (simp add: sent_cookie_def clearance_cookie_def)
  then have "has_clearance m' now (flood_request target ip (''ag_clearance='' @ val))"
    using verify_solved [OF assms(8) pow(1) assms(9-13)] by (simp add: has_clearance_def flood_request_def val_def Let_def)
  ultimately show ?thesis by blast
qed

theorem solving_client_is_cleared_witness:
  "\<exists>cookie. has_clearance (new_chal_manager [] ''secret'' 14 minute) (30 * second) (flood_request blank_request ''203.0.113.7'' cookie)"
proof -
  let ?m = "new_chal_manager [] ''secret'' 0 minute"
  define resp where "resp = \<lparr>hs_status = 200, hs_header = (\<lambda>h. if h = header_challenge then ''1'' else cr_data (serve ?m [7, 8] 0))\<rparr>"
  have "pow_valid (rand_hex [7, 8]) (itoa 5) (cm_difficulty ?m)"
    by (simp add: pow_valid_def leading_zero_bits_takeWhile new_chal_manager_def chal_set_params_def)
  then have "\<exists>cookie. flood_job ''single'' ''203.0.113.7'' True blank_request (\<lambda>_. Some resp) (\<lambda>_. None) (0, 0) =
      Some (fst (do_request (\<lambda>_. None) blank_request ''203.0.113.7'' cookie)) \<and>
    has_clearance (new_chal_manager [] ''secret'' 14 minute) (30 * second) (flood_request blank_request ''203.0.113.7'' cookie)"
    by (rule solving_client_is_cleared [where resp = resp and m = ?m and ?t0.0 = 0, rotated 4])
      (simp_all add: resp_def header_challenge_def header_data_def serve_def new_chal_manager_def chal_set_params_def to_unix_def
        of_unix_def second_def minute_def time_sub_def max_duration_def min_duration_def Let_def)
  then show ?thesis by blast
qed

text \<open>Every job is counted once: the printed numbers add up to the number of requests.\<close>

definition counted :: "(int, int) fmap \<Rightarrow> int" where
  "counted counts = (\<Sum>c\<in>fset (fmdom counts). the (fmlookup counts c))"

lemma counted_bump:
  assumes "\<forall>c\<in>fset (fmdom counts). 0 \<le> the (fmlookup counts c)" and "counted counts < 2 ^ 63 - 1"
  shows "counted (bump code counts) = counted counts + 1 \<and>
    (\<forall>c\<in>fset (fmdom (bump code counts)). 0 \<le> the (fmlookup (bump code counts) c))"
proof -
  let ?D = "fset (fmdom counts)" and ?v = "case fmlookup counts code of Some v \<Rightarrow> v | None \<Rightarrow> 0"
  have split: "counted counts = ?v + (\<Sum>c\<in>?D - {code}. the (fmlookup counts c))"
  proof (cases "fmlookup counts code")
    case None
    then have "?D - {code} = ?D" by (simp add: fmlookup_dom_iff)
    then show ?thesis by (simp add: counted_def None)
  next
    case (Some v)
    then have "code \<in> ?D" by (simp add: fmlookup_dom_iff)
    then show ?thesis by (simp add: counted_def Some sum.remove)
  qed
  have pos: "0 \<le> ?v"
  proof (cases "fmlookup counts code")
    case (Some v)
    then have "code \<in> fset (fmdom counts)" by (rule fmdomI)
    then have "0 \<le> the (fmlookup counts code)" using assms(1) by blast
    then show ?thesis by (simp add: Some)
  qed simp
  have "0 \<le> (\<Sum>c\<in>?D - {code}. the (fmlookup counts c))" using assms(1) by (intro sum_nonneg) simp
  then have i: "i64 (?v + 1) = ?v + 1" using split assms(2) pos by (intro i64_id) simp_all
  have "counted (bump code counts) = (?v + 1) + (\<Sum>c\<in>?D - {code}. the (fmlookup counts c))"
    by (simp add: counted_def bump_def i sum.insert_remove)
  then show ?thesis using split assms(1) pos by (auto simp: bump_def i)
qed

lemma counted_flood:
  assumes "\<forall>c\<in>fset (fmdom counts). 0 \<le> the (fmlookup counts c)" and "counted counts + int (length codes) < 2 ^ 63"
  shows "counted (flood_counts codes counts) = counted counts + int (length codes)"
  using assms
proof (induction codes arbitrary: counts)
  case (Cons code codes)
  then have "counted (bump code counts) = counted counts + 1 \<and>
    (\<forall>c\<in>fset (fmdom (bump code counts)). 0 \<le> the (fmlookup (bump code counts) c))"
    by (intro counted_bump) simp_all
  then show ?case using Cons by simp
qed simp

lemma every_request_is_reported:
  assumes "length codes < 2 ^ 63"
  shows "sum_list (map snd (flood_report (flood_counts codes fmempty))) = int (length codes)"
proof -
  have "sum_list (map snd (flood_report counts)) = counted counts" for counts
  proof -
    have "sum_list (map snd (flood_report counts)) =
      (\<Sum>c\<in>fset (fmdom counts). case fmlookup counts c of Some v \<Rightarrow> v | None \<Rightarrow> 0)"
      by (simp add: flood_report_def o_def sorted_list_of_fset.rep_eq sum_list_distinct_conv_sum_set)
    also have "\<dots> = counted counts"
      unfolding counted_def by (rule sum.cong) (auto simp: fmlookup_dom_iff)
    finally show ?thesis .
  qed
  moreover have "counted fmempty = 0" by (simp add: counted_def)
  ultimately show ?thesis using counted_flood [of fmempty codes] assms by simp
qed

end
