(* ===== verification/Flood_Pool.thy ===== *)
theory Flood_Pool
  imports Solver "HOL-Library.Multiset"
begin

text \<open>
  \<open>main\<close> of \<^verbatim>\<open>cmd/flood/main.go\<close>: \<open>n\<close> jobs are handed over an unbuffered channel to \<open>c\<close> workers, which run them at the same
  time, count the results and leave when the channel is closed. Any interleaving is a sequence of \<open>pool_step\<close>s;
  \<open>job j\<close> is the result of job \<open>j\<close>, \<open>None\<close> for a job that does not return.
\<close>

section \<open>The pool\<close>

text \<open>
  The loop variable of \<open>main\<close>, the workers that wait for a job, the jobs in progress, whether the channel is closed, the
  counters.
\<close>

record pool =
  po_next :: nat
  po_free :: nat
  po_busy :: "nat multiset"
  po_closed :: bool
  po_counts :: "(int, int) fmap"
  po_done :: int

definition pool_start :: "nat \<Rightarrow> pool" where
  "pool_start c = \<lparr>po_next = 0, po_free = c, po_busy = {#}, po_closed = False, po_counts = fmempty, po_done = 0\<rparr>"

inductive pool_step :: "nat \<Rightarrow> (nat \<Rightarrow> int option) \<Rightarrow> pool \<Rightarrow> pool \<Rightarrow> bool" for n :: nat and job :: "nat \<Rightarrow> int option" where
  Hand: "po_next p < n \<Longrightarrow> 0 < po_free p \<Longrightarrow>
    pool_step n job p (p\<lparr>po_next := po_next p + 1, po_free := po_free p - 1, po_busy := add_mset (po_next p) (po_busy p)\<rparr>)"
| Finish: "j \<in># po_busy p \<Longrightarrow> job j = Some code \<Longrightarrow>
    pool_step n job p (p\<lparr>po_busy := po_busy p - {#j#}, po_free := po_free p + 1,
      po_counts := bump code (po_counts p), po_done := i64 (po_done p + 1)\<rparr>)"
| Close: "po_next p = n \<Longrightarrow> \<not> po_closed p \<Longrightarrow> pool_step n job p (p\<lparr>po_closed := True\<rparr>)"
| Leave: "po_closed p \<Longrightarrow> 0 < po_free p \<Longrightarrow> pool_step n job p (p\<lparr>po_free := po_free p - 1\<rparr>)"

inductive_cases pool_stepE: "pool_step n job p q"

text \<open>\<open>wg.Wait\<close> returns once the channel is closed and every worker has left.\<close>

definition pool_over :: "pool \<Rightarrow> bool" where
  "pool_over p \<longleftrightarrow> po_closed p \<and> po_free p = 0 \<and> po_busy p = {#}"

section \<open>Every order of the results gives the same counters\<close>

lemma bump_commute: "bump a (bump b m) = bump b (bump a m)"
  by (cases "a = b") (auto simp: bump_def intro!: fmap_ext)

lemma flood_counts_fold: "flood_counts codes m = fold bump codes m"
  by (induction codes arbitrary: m) simp_all

lemma flood_counts_mset:
  assumes "mset xs = mset ys"
  shows "flood_counts xs m = flood_counts ys m"
proof -
  have "fold bump xs = fold bump ys"
    using assms by (intro fold_multiset_equiv) (auto simp: fun_eq_iff bump_commute)
  then show ?thesis by (simp add: flood_counts_fold)
qed

lemma flood_counts_append: "flood_counts (xs @ [c]) m = bump c (flood_counts xs m)"
  by (simp add: flood_counts_fold)

section \<open>What every run keeps\<close>

text \<open>Each job handed out is in progress or counted, once; no worker is lost before the channel is closed.\<close>

definition pool_ok :: "nat \<Rightarrow> nat \<Rightarrow> (nat \<Rightarrow> int option) \<Rightarrow> pool \<Rightarrow> bool" where
  "pool_ok n c job p \<longleftrightarrow>
     (\<exists>ds. po_busy p + mset ds = mset [0..<po_next p] \<and> (\<forall>j\<in>set ds. job j \<noteq> None) \<and>
        po_counts p = flood_counts (map (the \<circ> job) ds) fmempty) \<and>
     po_next p \<le> n \<and> (po_closed p \<longrightarrow> po_next p = n) \<and> (\<not> po_closed p \<longrightarrow> po_free p + size (po_busy p) = c)"

lemma pool_ok_start: "pool_ok n c job (pool_start c)"
  by (simp add: pool_ok_def pool_start_def)

lemma pool_ok_step:
  assumes "pool_step n job p q" and "pool_ok n c job p"
  shows "pool_ok n c job q"
proof -
  obtain ds where ds: "po_busy p + mset ds = mset [0..<po_next p]" "\<forall>j\<in>set ds. job j \<noteq> None"
    "po_counts p = flood_counts (map (the \<circ> job) ds) fmempty"
    using assms(2) by (auto simp: pool_ok_def)
  have rest: "po_next p \<le> n" "po_closed p \<longrightarrow> po_next p = n" "\<not> po_closed p \<longrightarrow> po_free p + size (po_busy p) = c"
    using assms(2) by (simp_all add: pool_ok_def)
  from assms(1) show ?thesis
  proof cases
    case Hand
    have "add_mset (po_next p) (po_busy p) + mset ds = mset [0..<po_next p + 1]" using ds(1) by simp
    then show ?thesis using Hand ds(2,3) rest by (auto simp: pool_ok_def)
  next
    case (Finish j code)
    have "po_busy p - {#j#} + mset (ds @ [j]) = mset [0..<po_next p]" using Finish(2) unfolding ds(1) [symmetric]
      by (simp add: subset_mset.add_diff_assoc2 multiset_eq_iff)
    moreover have "bump code (po_counts p) = flood_counts (map (the \<circ> job) (ds @ [j])) fmempty"
      using ds(3) Finish(3) by (simp add: flood_counts_append)
    moreover have "\<forall>k\<in>set (ds @ [j]). job k \<noteq> None" using ds(2) Finish(3) by simp
    moreover have "size (po_busy p) = Suc (size (po_busy p - {#j#}))" using size_Suc_Diff1 [OF Finish(2)] by (rule sym)
    ultimately show ?thesis using Finish(1) rest unfolding pool_ok_def by (intro conjI exI [of _ "ds @ [j]"]) simp_all
  qed (use ds rest in \<open>auto simp: pool_ok_def\<close>)
qed

lemma pool_ok_reachable: "(pool_step n job)\<^sup>*\<^sup>* (pool_start c) p \<Longrightarrow> pool_ok n c job p"
  by (induction rule: rtranclp_induct) (auto intro: pool_ok_start pool_ok_step)

section \<open>Every run ends\<close>

definition pool_left :: "nat \<Rightarrow> pool \<Rightarrow> nat" where
  "pool_left n p = 3 * (n - po_next p) + 2 * size (po_busy p) + po_free p + (if po_closed p then 0 else 1)"

lemma pool_step_progress:
  assumes "pool_step n job p q"
  shows "pool_left n q < pool_left n p"
  using assms
proof cases
  case (Finish j code)
  then have "size (po_busy p) = Suc (size (po_busy p - {#j#}))" by (simp add: size_Suc_Diff1)
  then show ?thesis using Finish(1) by (simp add: pool_left_def)
qed (auto simp: pool_left_def)

lemma pool_steps_bounded: "(pool_step n job ^^ k) p q \<Longrightarrow> k + pool_left n q \<le> pool_left n p"
proof (induction k arbitrary: q)
  case (Suc k)
  then obtain r where "(pool_step n job ^^ k) p r" "pool_step n job r q" by auto
  then show ?case using Suc.IH [of r] pool_step_progress [of n job r q] by simp
qed simp

lemma pool_not_stuck:
  assumes "pool_ok n c job p" and "0 < c" and "\<forall>j. job j \<noteq> None" and "\<not> pool_over p"
  shows "\<exists>q. pool_step n job p q"
proof (cases "po_busy p = {#}")
  case False
  then obtain j where "j \<in># po_busy p" by blast
  moreover obtain code where "job j = Some code" using assms(3) by blast
  ultimately show ?thesis using Finish by blast
next
  case True
  show ?thesis
  proof (cases "po_closed p")
    case False
    then have "0 < po_free p" "po_next p \<le> n" using assms(1,2) True by (simp_all add: pool_ok_def)
    then show ?thesis using False Hand [of p n job] Close [of p n job] by (cases "po_next p < n") (auto simp del: Nat.One_nat_def)
  next
    case True
    then show ?thesis using assms(4) \<open>po_busy p = {#}\<close> Leave by (auto simp: pool_over_def)
  qed
qed

lemma pool_over_counts:
  assumes "pool_ok n c job p" and "pool_over p"
  shows "po_counts p = flood_counts (map (the \<circ> job) [0..<n]) fmempty"
proof -
  obtain ds where "mset ds = mset [0..<n]" "po_counts p = flood_counts (map (the \<circ> job) ds) fmempty"
    using assms by (auto simp: pool_ok_def pool_over_def)
  moreover from this have "mset (map (the \<circ> job) ds) = mset (map (the \<circ> job) [0..<n])" by (simp only: mset_map)
  ultimately show ?thesis using flood_counts_mset by metis
qed

text \<open>Every job returns, because the solver does.\<close>

lemma flood_job_returns: "flood_job mode ip solve target http1 http2 rnd \<noteq> None"
proof -
  have "solve_challenge data \<noteq> None" for data
    by (simp add: solve_challenge_def flood_search_eq split: list.split option.split)
  then show ?thesis by (auto simp: flood_job_def Let_def split: prod.split)
qed

section \<open>Properties\<close>



text \<open>Without workers \<open>main\<close> waits for ever to hand out its first job; the flag \<open>-c\<close> is not checked.\<close>

lemma no_workers_no_end:
  assumes "0 < n"
  shows "\<not> pool_over (pool_start 0) \<and> \<not> pool_step n job (pool_start 0) q"
  using assms by (auto simp: pool_over_def pool_start_def elim: pool_stepE)

end
