(* ===== verification/Challenge_Page.thy ===== *)
theory Challenge_Page
  imports Solver Go_Html "HOL-Library.Monad_Syntax"
begin

text \<open>
  The page of \<^verbatim>\<open>internal/challenge/challenge.go\<close>: the bytes \<open>Serve\<close> writes, and what a browser reads out of them. The
  script of the page starts with five assignments; \<open>script_args\<close> finds them and reads three strings and two
  numbers, as JavaScript reads literals.
\<close>

section \<open>The page\<close>

text \<open>\<open>%q\<close> of ASCII text, the only text the page is filled with.\<close>

definition quote_char :: "char \<Rightarrow> string" where
  "quote_char c =
     (let n = of_char c :: nat
      in if c = CHR 0x22 \<or> c = CHR 0x5C then [CHR 0x5C, c]
         else if n = 7 then CHR 0x5C # ''a'' else if n = 8 then CHR 0x5C # ''b'' else if n = 12 then CHR 0x5C # ''f''
         else if n = 10 then CHR 0x5C # ''n'' else if n = 13 then CHR 0x5C # ''r'' else if n = 9 then CHR 0x5C # ''t''
         else if n = 11 then CHR 0x5C # ''v''
         else if n < 32 \<or> 127 \<le> n then CHR 0x5C # ''x'' @ [hex_digit (n div 16), hex_digit (n mod 16)] else [c])"

definition go_quote :: "string \<Rightarrow> string" where
  "go_quote s = [CHR 0x22] @ concat (map quote_char s) @ [CHR 0x22]"

fun challenge_parts :: "string \<times> string \<times> int \<times> string \<times> int \<Rightarrow> string list" where
  \<open>challenge_parts (c, ts, d, sig, max_age) =
      [text_lines
         [''<!doctype html>'',
          ''<html lang="en"><head><meta charset="utf-8">'',
          ''<meta name="viewport" content="width=device-width, initial-scale=1">'',
          ''<title>Checking your browser'' @ ellipsis @ ''</title>'',
          ''<style>body{font-family:system-ui,sans-serif;max-width:32rem;margin:18vh auto;padding:0 1rem;color:#222}'',
          ''.sp{display:inline-block;width:1rem;height:1rem;border:2px solid #ccc;border-top-color:#444;border-radius:50%;animation:s 1s linear infinite;vertical-align:-2px}'',
          ''@keyframes s{to{transform:rotate(360deg)}}</style></head>'',
          ''<body>'',
          ''<h2>'' @ shield @ '' Checking your browser before continuing'' @ ellipsis @ ''</h2>'',
          ''<p><span class="sp"></span> <span id="st">Solving a one-time security puzzle. This takes a moment and requires no action from you.</span></p>'',
          ''<noscript>This site requires JavaScript to verify your browser.</noscript>'',
          ''<script>'',
          ''(async function(){''],
        ''  var C='',
        go_quote c,
        '',TS='',
        go_quote ts,
        '',D='',
        itoa d,
        '',SIG='',
        go_quote sig,
        '',MAXAGE='',
        itoa max_age,
        text_lines
         ['';'',
          ''  var enc=new TextEncoder(), st=document.getElementById('st');'',
          ''  function lz(u){var c=0;for(var i=0;i<u.length;i++){var b=u[i];if(b===0){c+=8;continue;}var bits=0,v=b;while(bits<8&&(v&128)===0){bits++;v=(v<<1)&255;}return c+bits;}return c;}'',
          ''  for(var n=0;;n++){'',
          ''    var h=new Uint8Array(await crypto.subtle.digest('SHA-256',enc.encode(C+":"+n)));'',
          ''    if(lz(h)>=D){'',
          ''      document.cookie="ag_clearance="+[C,TS,D,n,SIG].join(".")+";path=/;max-age="+MAXAGE+";SameSite=Lax";'',
          ''      location.reload();return;'',
          ''    }'',
          ''    if(n%2000===0){st.textContent="Verifying'' @ ellipsis @ '' ("+n+" attempts)";await new Promise(function(r){setTimeout(r,0);});}'',
          ''  }'',
          ''})();'',
          ''</script>''],
        ''</body></html>'']\<close>

definition challenge_html :: "string \<times> string \<times> int \<times> string \<times> int \<Rightarrow> string" where
  "challenge_html args = concat (challenge_parts args)"

section \<open>What a browser reads\<close>

fun skip_text :: "string \<Rightarrow> string \<Rightarrow> string option" where
  "skip_text [] s = Some s"
| "skip_text (p # ps) (c # s) = (if p = c then skip_text ps s else None)"
| "skip_text (p # ps) [] = None"

fun find_text :: "string \<Rightarrow> string \<Rightarrow> string option" where
  "find_text p [] = skip_text p []"
| "find_text p (c # s) = (case skip_text p (c # s) of Some rest \<Rightarrow> Some rest | None \<Rightarrow> find_text p s)"

text \<open>A string literal without escapes, and a decimal number.\<close>

fun literal_rest :: "string \<Rightarrow> (string \<times> string) option" where
  "literal_rest [] = None"
| "literal_rest (c # s) =
     (if c = CHR 0x22 then Some ([], s)
      else if c = CHR 0x5C then None
      else map_option (\<lambda>(l, rest). (c # l, rest)) (literal_rest s))"

definition read_literal :: "string \<Rightarrow> (string \<times> string) option" where
  "read_literal s = (case s of c # rest \<Rightarrow> if c = CHR 0x22 then literal_rest rest else None | [] \<Rightarrow> None)"

definition number_char :: "char \<Rightarrow> bool" where "number_char c \<longleftrightarrow> is_digit c \<or> c = CHR ''-''"

definition read_number :: "string \<Rightarrow> (int \<times> string) option" where
  "read_number s =
     (case parse_int (takeWhile number_char s) of None \<Rightarrow> None | Some n \<Rightarrow> Some (n, dropWhile number_char s))"

definition script_args :: "string \<Rightarrow> (string \<times> string \<times> int \<times> string \<times> int) option" where
  "script_args page =
     do {
       s \<leftarrow> find_text ''var C='' page;
       (c, s) \<leftarrow> read_literal s;
       s \<leftarrow> skip_text '',TS='' s;
       (ts, s) \<leftarrow> read_literal s;
       s \<leftarrow> skip_text '',D='' s;
       (d, s) \<leftarrow> read_number s;
       s \<leftarrow> skip_text '',SIG='' s;
       (sig, s) \<leftarrow> read_literal s;
       s \<leftarrow> skip_text '',MAXAGE='' s;
       (max_age, s) \<leftarrow> read_number s;
       Some (c, ts, d, sig, max_age)
     }"

lemma skip_text_append [simp]: "skip_text p (p @ s) = Some s"
  by (induction p) auto

lemma quiet_char:
  assumes "quote_char c = [c]"
  shows "c \<noteq> CHR 0x22" and "c \<noteq> CHR 0x5C"
  using assms by (auto simp: quote_char_def Let_def)

definition quiet :: "string \<Rightarrow> bool" where "quiet s \<longleftrightarrow> list_all (\<lambda>c. quote_char c = [c]) s"

lemma concat_quiet: "quiet s \<Longrightarrow> concat (map quote_char s) = s"
  by (induction s) (auto simp: quiet_def)

lemma literal_rest_quiet: "quiet s \<Longrightarrow> literal_rest (s @ CHR 0x22 # t) = Some (s, t)"
  by (induction s) (auto simp: quiet_def dest: quiet_char)

lemma read_go_quote:
  assumes "quiet s"
  shows "read_literal (go_quote s @ t) = Some (s, t)"
  by (simp add: go_quote_def read_literal_def concat_quiet [OF assms] literal_rest_quiet [OF assms])

lemma quiet_byte:
  assumes "45 \<le> byte_of c" and "byte_of c < 127" and "byte_of c \<noteq> 92"
  shows "quote_char c = [c]"
proof -
  have "c \<noteq> CHR 0x22" "c \<noteq> CHR 0x5C" using assms by auto
  then show ?thesis using assms by (simp add: quote_char_def Let_def)
qed

lemma quiet_hex: "quiet (hex_of bs)"
proof -
  have "quote_char (hex_digit d) = [hex_digit d]" if "d < 16" for d
    by (rule quiet_byte) (use that in \<open>simp_all add: byte_of_hex_digit\<close>)
  moreover have "unat b div 16 < 16" for b :: byte
  proof -
    have "unat b < 2 ^ LENGTH(8)" by (rule unsigned_less)
    then show ?thesis by simp
  qed
  ultimately have "quiet [hex_digit (unat b div 16), hex_digit (unat b mod 16)]" for b :: byte
    by (simp add: quiet_def)
  then show ?thesis unfolding hex_of_def hex_encode_def by (induction bs) (simp_all add: quiet_def)
qed

lemma number_chars: "list_all number_char (itoa n)"
  using itoa_pos_digits [of n] itoa_pos_digits [of "- n"]
  by (auto simp: itoa_def number_char_def list_all_iff)

lemma quiet_itoa: "quiet (itoa n)"
  unfolding quiet_def
proof (rule list.pred_mono_strong [OF number_chars])
  fix c assume "number_char c"
  then show "quote_char c = [c]" by (intro quiet_byte) (auto simp: number_char_def is_digit_def)
qed

lemma read_itoa:
  assumes "- (2 ^ 63) \<le> n" and "n < 2 ^ 63" and "\<not> number_char c"
  shows "read_number (itoa n @ c # s) = Some (n, c # s)"
proof -
  have "takeWhile number_char (itoa n @ c # s) = itoa n" "dropWhile number_char (itoa n @ c # s) = c # s"
    using number_chars [of n] assms(3) by (simp_all add: list_all_iff takeWhile_append2 dropWhile_append2)
  then show ?thesis using parse_int_itoa [OF assms(1,2)] by (simp add: read_number_def)
qed

text \<open>The script is found behind the head of the page.\<close>

definition page_head :: string where
  "page_head = concat (take 2 (challenge_parts ([], [], 0, [], 0)))"

lemma script_found: "find_text ''var C='' (page_head @ s) = Some s"
  unfolding page_head_def challenge_parts.simps by code_simp

lemma challenge_html_eq:
  "challenge_html (c, ts, d, sig, max_age) = page_head @ go_quote c @ '',TS='' @ go_quote ts @ '',D='' @ itoa d @
     '',SIG='' @ go_quote sig @ '',MAXAGE='' @ itoa max_age @ concat (drop 11 (challenge_parts (c, ts, d, sig, max_age)))"
  by (simp add: challenge_html_def page_head_def)

lemma challenge_tail: "\<exists>tl. concat (drop 11 (challenge_parts args)) = CHR '';'' # tl"
  by (cases args) (simp add: text_lines_def)

lemma page_carries_args:
  assumes "quiet c" "quiet ts" "quiet sig"
    and "- (2 ^ 63) \<le> d" "d < 2 ^ 63" "- (2 ^ 63) \<le> max_age" "max_age < 2 ^ 63"
  shows "script_args (challenge_html (c, ts, d, sig, max_age)) = Some (c, ts, d, sig, max_age)"
proof -
  obtain tl where "concat (drop 11 (challenge_parts (c, ts, d, sig, max_age))) = CHR '';'' # tl"
    using challenge_tail by blast
  then show ?thesis
    unfolding challenge_html_eq script_args_def script_found
    using read_itoa [OF assms(4,5), of "CHR '',''"] read_itoa [OF assms(6,7), of "CHR '';''"]
    by (simp add: read_go_quote assms(1-3) number_char_def is_digit_def del: find_text.simps)
qed

lemma lifetime_seconds:
  assumes "0 \<le> ttl" and "ttl \<le> max_duration"
  shows "0 \<le> trunc (dur_seconds ttl) \<and> trunc (dur_seconds ttl) < 2 ^ 63"
proof -
  have "ttl div second \<le> 9223372036" using assms(2) by (simp add: max_duration_def second_def)
  then have 1: "fl (of_int (ttl div second)) \<le> 9223372036"
    using fl_mono [of "of_int (ttl div second)" 9223372036] by simp
  have "ttl mod second \<le> 1000000000" by (simp add: second_def)
  then have "fl (of_int (ttl mod second)) \<le> 1000000000"
    using fl_mono [of "of_int (ttl mod second)" 1000000000] by simp
  then have 2: "fl (fl (of_int (ttl mod second)) / 1000000000) \<le> 1"
    using fl_mono [of "fl (of_int (ttl mod second)) / 1000000000" 1] by simp
  have "dur_seconds ttl \<le> 9223372037"
    using fl_mono [of "fl (of_int (ttl div second)) + fl (fl (of_int (ttl mod second)) / 1000000000)" 9223372037] 1 2
    by (simp add: dur_seconds_def sdiv_smod_nonneg [OF assms(1)])
  moreover have "0 \<le> dur_seconds ttl" using assms(1) by (rule dur_seconds_nonneg)
  ultimately show ?thesis by (simp add: trunc_def floor_less_iff)
qed

lemma page_carries_challenge:
  assumes "- (2 ^ 63) \<le> cm_difficulty m" and "cm_difficulty m < 2 ^ 63"
    and "0 \<le> cm_clearance_ttl m" and "cm_clearance_ttl m \<le> max_duration"
  shows "script_args (challenge_html (cr_page_args (serve m rand16 now))) = Some (cr_page_args (serve m rand16 now))"
proof -
  note ttl = lifetime_seconds [OF assms(3,4)]
  have "- (2 ^ 63) \<le> trunc (dur_seconds (cm_clearance_ttl m))" using ttl by simp
  then show ?thesis
    using page_carries_args [OF _ _ _ assms(1,2), of "rand_hex rand16" "itoa (to_unix now)" "sign m (rand_hex rand16) (itoa (to_unix now)) (itoa (cm_difficulty m))"] ttl
    by (simp add: serve_def Let_def quiet_itoa rand_hex_def sign_def quiet_hex)
qed

section \<open>Properties\<close>



end
