(* ===== verification/Lifecycle.thy ===== *)
theory Lifecycle
  imports Frontend Mcproxy Guard_Runs
begin

text \<open>
  The whole process of \<^verbatim>\<open>cmd/aggershield/main.go\<close>: what it listens on, and every activity that runs beside the
  others once it is up. HTTP requests, game connections, the license loop, the monitor, the ban sweeper and saver,
  the collection of idle buckets, the file watcher and the signals are the rules of one step relation on the
  state of the process; each is atomic, as the mutexes of the components make it. The two multisets are not
  in the code: they say which requests and connections are in progress.
\<close>

section \<open>Listeners\<close>

datatype listener =
  SiteHttp string
| SiteHttps string tls_setup
| SideHttp string bool

text \<open>
  \<open>made\<close> tells whether a certificate could be made or loaded; \<open>None\<close> is the exit of \<open>main\<close>. The HTTP side
  server answers ACME challenges and, if the flag is set, redirects everything else to HTTPS.
\<close>

definition open_listeners :: "(cert_source \<Rightarrow> bool) \<Rightarrow> time \<times> time \<Rightarrow> config \<Rightarrow> listener list option" where
  "open_listeners made clock cfg =
     (if tl_enabled (cf_tls cfg) then
        (case tls_build made clock (cf_tls cfg) (site_hosts cfg) (fc_enabled (cf_fingerprint cfg)) of
           None \<Rightarrow> None
         | Some t \<Rightarrow>
             Some ((case http_side_server (cf_tls cfg) t of
                      None \<Rightarrow> []
                    | Some addr \<Rightarrow> [SideHttp addr (tl_redirect_http (cf_tls cfg))]) @
                   [SiteHttps (tl_https_listen (cf_tls cfg)) t]))
      else Some [SiteHttp (cf_listen cfg)])"

section \<open>The state\<close>

record machine =
  ma_process :: process
  ma_game :: "mc_proxy option"
  ma_disk :: file_read
  ma_saving :: bool
  ma_last_mod :: time
  ma_running :: bool
  ma_requests :: "string multiset"
  ma_players :: "string multiset"

abbreviation ma_guard :: "machine \<Rightarrow> guard" where
  "ma_guard m \<equiv> ag_guard (pc_agent (ma_process m))"

definition set_guard :: "guard \<Rightarrow> machine \<Rightarrow> machine" where
  "set_guard g m = m\<lparr>ma_process := (ma_process m)\<lparr>pc_agent := (pc_agent (ma_process m))\<lparr>ag_guard := g\<rparr>\<rparr>\<rparr>"

text \<open>The Minecraft proxy is built on the ban table and the metrics of the guard, which it shares from then on.\<close>

definition game_proxy :: "config \<Rightarrow> guard \<Rightarrow> mc_proxy option" where
  "game_proxy cfg g =
     (if mc_enabled (cf_minecraft cfg) then Some (new_mc_proxy (cf_minecraft cfg) (gd_bans g) (gd_metrics g)) else None)"

text \<open>Whether \<open>persistLoop\<close> was started: a path is set and the file could be loaded.\<close>

definition saves_bans :: "boot_env \<Rightarrow> config \<Rightarrow> bool" where
  "saves_bans env cfg \<longleftrightarrow> ba_persist_path (cf_ban cfg) \<noteq> [] \<and>
     fst (enable_persistence (ba_persist_path (cf_ban cfg)) (bo_ord env) (bo_now env) (bo_file env)
       (new_store (ba_base_duration (cf_ban cfg)) (ba_max_duration (cf_ban cfg)) (ba_escalation_factor (cf_ban cfg))
         (ba_max_entries (cf_ban cfg)) (cf_allowlist cfg)))"

definition boot :: "boot_env \<Rightarrow> (string \<Rightarrow> url option) \<Rightarrow> time option \<Rightarrow> config \<Rightarrow> boot_error + machine" where
  "boot env parse_url stat cfg =
     (case new_process env parse_url cfg of
        Inl e \<Rightarrow> Inl e
      | Inr p \<Rightarrow> Inr \<lparr>ma_process = p, ma_game = game_proxy cfg (ag_guard (pc_agent p)), ma_disk = bo_file env, ma_saving = saves_bans env cfg,
          ma_last_mod = watch_start stat, ma_running = True, ma_requests = {#}, ma_players = {#}\<rparr>)"

section \<open>The activities\<close>

definition begin_http :: "front_env \<Rightarrow> http_request \<Rightarrow> machine \<Rightarrow> front_reply \<times> machine" where
  "begin_http env r m =
     (let (res, p) = front_serve env r (ma_process m)
      in (res, m\<lparr>ma_process := p,
            ma_requests := (case res of SiteReply out \<Rightarrow> if holds_slot out then add_mset (req_ip r (ma_guard m)) (ma_requests m) else ma_requests m
                            | _ \<Rightarrow> ma_requests m)\<rparr>))"

definition end_http :: "string \<Rightarrow> outcome \<Rightarrow> machine \<Rightarrow> machine" where
  "end_http ip res m =
     (set_guard (guard_exit ip res (ma_guard m)) m)
       \<lparr>ma_requests := (if holds_slot res then ma_requests m - {#ip#} else ma_requests m)\<rparr>"

text \<open>The proxy sees the shared ban table and counters as they are, and the guard sees what it made of them.\<close>

definition shared :: "machine \<Rightarrow> mc_proxy \<Rightarrow> mc_proxy" where
  "shared m p = p\<lparr>mp_bans := gd_bans (ma_guard m), mp_metrics := gd_metrics (ma_guard m)\<rparr>"

definition accept_game :: "mc_env \<Rightarrow> mc_proxy \<Rightarrow> machine \<Rightarrow> mc_result \<times> machine" where
  "accept_game env p m =
     (let (res, p) = mc_handle env (shared m p)
      in (res, (set_guard ((ma_guard m)\<lparr>gd_bans := mp_bans p, gd_metrics := mp_metrics p\<rparr>) m)
           \<lparr>ma_game := Some p,
            ma_players := (case res of McSpliced hs raw rest \<Rightarrow> add_mset (host_of (me_remote env)) (ma_players m) | _ \<Rightarrow> ma_players m)\<rparr>))"

definition end_game :: "string \<Rightarrow> mc_proxy \<Rightarrow> machine \<Rightarrow> machine" where
  "end_game ip p m = m\<lparr>ma_game := Some (mc_release ip p), ma_players := ma_players m - {#ip#}\<rparr>"

text \<open>One turn of the license loop; \<open>res\<close> is what came back over HTTP.\<close>

definition check_in_step :: "agent_env \<Rightarrow> string \<Rightarrow> heartbeat_resp http_result \<Rightarrow> machine \<Rightarrow> machine" where
  "check_in_step env host res m =
     m\<lparr>ma_process := (ma_process m)\<lparr>pc_agent :=
        agent_receive env (client_do res) (snd (agent_send host (pc_agent (ma_process m))))\<rparr>\<rparr>"

text \<open>The tickers of the ban table: \<open>sweepLoop\<close> and \<open>persistLoop\<close>, whose write either replaces the file or leaves it.\<close>

definition sweep_tick :: "time \<Rightarrow> machine \<Rightarrow> machine" where
  "sweep_tick now m = set_guard ((ma_guard m)\<lparr>gd_bans := sweep now (gd_bans (ma_guard m))\<rparr>) m"

definition save_tick :: "bool \<Rightarrow> time \<Rightarrow> machine \<Rightarrow> machine" where
  "save_tick written now m = (if written then m\<lparr>ma_disk := Records (snapshot now (gd_bans (ma_guard m)))\<rparr> else m)"

text \<open>
  \<open>gcLoop\<close>, the collection of idle buckets: every limiter has its own, the default one, those of the rules and
  the one of the game port.
\<close>

datatype limiter_place = Default_limiter | Rule_limiter nat

definition gc_tick :: "limiter_place \<Rightarrow> duration \<Rightarrow> time \<Rightarrow> machine \<Rightarrow> machine" where
  "gc_tick place idle now m =
     (let g = ma_guard m; s = gd_snap g
      in set_guard (g\<lparr>gd_snap := (case place of
             Default_limiter \<Rightarrow> s\<lparr>ps_default_per_ip := per_ip_gc idle now (ps_default_per_ip s)\<rparr>
           | Rule_limiter i \<Rightarrow>
               if i < length (ps_rules s)
               then s\<lparr>ps_rules := (ps_rules s)[i := (ps_rules s ! i)\<lparr>rc_limiter := map_option (per_ip_gc idle now) (rc_limiter (ps_rules s ! i))\<rparr>]\<rparr>
               else s)\<rparr>) m)"

definition gc_game :: "duration \<Rightarrow> time \<Rightarrow> machine \<Rightarrow> machine" where
  "gc_game idle now m = m\<lparr>ma_game := map_option (\<lambda>p. p\<lparr>mp_conn_rate := per_ip_gc idle now (mp_conn_rate p)\<rparr>) (ma_game m)\<rparr>"

definition watch_file :: "(string \<Rightarrow> (string \<Rightarrow> bool) option) \<Rightarrow> time \<Rightarrow> time option \<Rightarrow> load_error + config \<Rightarrow> machine \<Rightarrow> machine" where
  "watch_file regex now stat loaded m =
     (let (last_mod, a) = watch_step regex now stat loaded (ma_last_mod m, pc_agent (ma_process m))
      in m\<lparr>ma_last_mod := last_mod, ma_process := (ma_process m)\<lparr>pc_agent := a\<rparr>\<rparr>)"

text \<open>
  \<open>SIGHUP\<close> reloads; any other signal ends the loop of \<open>main\<close>, which then stops the watcher, the license loop and
  the accepting of HTTP requests and game connections; requests in progress may still finish.
\<close>

datatype signal = Hup | Terminate

fun on_signal :: "(string \<Rightarrow> (string \<Rightarrow> bool) option) \<Rightarrow> time \<Rightarrow> load_error + config \<Rightarrow> signal \<Rightarrow> machine \<Rightarrow> machine" where
  "on_signal regex now loaded Hup m =
     m\<lparr>ma_process := (ma_process m)\<lparr>pc_agent := snd (local_reload regex now loaded (pc_agent (ma_process m)))\<rparr>\<rparr>"
| "on_signal regex now loaded Terminate m = m\<lparr>ma_running := False\<rparr>"

section \<open>The step relation\<close>

text \<open>What the environment guarantees: configurations have sensible numbers, ranges visit the maps as they are.\<close>

definition loaded_ok :: "int \<Rightarrow> load_error + config \<Rightarrow> bool" where
  "loaded_ok bound loaded \<longleftrightarrow> (\<forall>cfg. loaded = Inr cfg \<longrightarrow> numbers_ok bound cfg)"

definition request_ok :: "int \<Rightarrow> front_env \<Rightarrow> http_request \<Rightarrow> guard \<Rightarrow> bool" where
  "request_ok bound env r g \<longleftrightarrow> req_ip r g \<noteq> [] \<and> enumerates (ge_ord_ban (fe_guard env)) (bl_banned (gd_bans g)) \<and>
     (\<forall>p. limiter_of (rule_of r g) (gd_snap g) = Some p \<longrightarrow> enumerates (ge_ord_ip (fe_guard env)) (pl_buckets p)) \<and>
     enumerates (am_ord (fe_admin env)) (bl_banned (gd_bans g)) \<and> loaded_ok bound (am_loaded (fe_admin env))"

definition game_ok :: "mc_env \<Rightarrow> mc_proxy \<Rightarrow> guard \<Rightarrow> bool" where
  "game_ok env p g \<longleftrightarrow> host_of (me_remote env) \<noteq> [] \<and> enumerates (me_ord_rate env) (pl_buckets (mp_conn_rate p)) \<and>
     enumerates (me_ord_ban env) (bl_banned (gd_bans g))"

text \<open>The orders of the ranges of one fleet blocklist, each over the table the addresses before it leave.\<close>

fun blocklist_ok :: "(nat \<Rightarrow> string list \<times> time) \<Rightarrow> nat \<Rightarrow> duration \<Rightarrow> string list \<Rightarrow> store \<Rightarrow> bool" where
  "blocklist_ok env i ttl [] b = True"
| "blocklist_ok env i ttl (ip # ips) b \<longleftrightarrow> ip \<noteq> [] \<and> enumerates (fst (env i)) (bl_banned b) \<and>
     blocklist_ok env (Suc i) ttl ips (ban_fleet (fst (env i)) (snd (env i)) ip ttl b)"

definition answer_ok :: "int \<Rightarrow> agent_env \<Rightarrow> heartbeat_resp option \<Rightarrow> agent \<Rightarrow> bool" where
  "answer_ok bound env resp a \<longleftrightarrow>
     (\<forall>v p. resp = Some v \<and> hr_policy v = Some p \<longrightarrow> numbers_ok bound (normalize (apply_to p (ag_cfg a)))) \<and>
     (\<forall>v ips b. resp = Some v \<and> hr_blocklist v = Some ips \<and>
        b = gd_bans (ag_guard (apply_policy (ae_regex env) (ae_now env) (hr_policy v) (hr_policy_version v) (apply_license (hr_licensed v) a))) \<longrightarrow>
        blocklist_ok (ae_ban env) 0 (ba_max_duration (cf_ban (ag_cfg a))) ips b)"

inductive machine_step :: "int \<Rightarrow> machine \<Rightarrow> machine \<Rightarrow> bool" for bound :: int where
  Serve: "ma_running m \<Longrightarrow> request_ok bound env r (ma_guard m) \<Longrightarrow> machine_step bound m (snd (begin_http env r m))"
| Finish: "holds_slot res \<longrightarrow> ip \<in># ma_requests m \<Longrightarrow> machine_step bound m (end_http ip res m)"
| Accept: "ma_running m \<Longrightarrow> ma_game m = Some p \<Longrightarrow> game_ok env p (ma_guard m) \<Longrightarrow> machine_step bound m (snd (accept_game env p m))"
| Hang_up: "ma_game m = Some p \<Longrightarrow> ip \<in># ma_players m \<Longrightarrow> machine_step bound m (end_game ip p m)"
| Check_in: "ma_running m \<Longrightarrow> li_enabled (cf_license (ag_cfg (pc_agent (ma_process m)))) \<Longrightarrow>
    answer_ok bound env (client_do res) (snd (agent_send host (pc_agent (ma_process m)))) \<Longrightarrow>
    machine_step bound m (check_in_step env host res m)"
| Monitor: "machine_step bound m (m\<lparr>ma_process := monitor_tick now (ma_process m)\<rparr>)"
| Sweep: "machine_step bound m (sweep_tick now m)"
| Save: "ma_saving m \<Longrightarrow> machine_step bound m (save_tick written now m)"
| Collect: "machine_step bound m (gc_tick place idle now m)"
| Collect_game: "machine_step bound m (gc_game idle now m)"
| Watch: "ma_running m \<Longrightarrow> 0 < cf_watch_interval (ag_cfg (pc_agent (ma_process m))) \<Longrightarrow> loaded_ok bound loaded \<Longrightarrow> machine_step bound m (watch_file regex now stat loaded m)"
| Signal: "ma_running m \<Longrightarrow> loaded_ok bound loaded \<Longrightarrow> machine_step bound m (on_signal regex now loaded sig m)"

inductive reachable :: "int \<Rightarrow> machine \<Rightarrow> machine \<Rightarrow> bool" for bound :: int and m0 :: machine where
  Start: "reachable bound m0 m0"
| Step: "reachable bound m0 m \<Longrightarrow> machine_step bound m m' \<Longrightarrow> reachable bound m0 m'"

inductive_cases machine_stepE: "machine_step bound m m'"

inductive_simps reachable_simps: "reachable bound m0 m"

section \<open>What every step keeps\<close>

lemma guard_inv_bans: "guard_inv bound (g, M) \<Longrightarrow> table_ok bound b \<Longrightarrow> guard_inv bound (g\<lparr>gd_bans := b\<rparr>, M)"
  by (simp add: guard_inv_def)

lemma guard_inv_metrics: "guard_inv bound (g, M) \<Longrightarrow> guard_inv bound (g\<lparr>gd_metrics := mx\<rparr>, M)"
  by (simp add: guard_inv_def)

lemma guard_inv_bansD: "guard_inv bound (g, M) \<Longrightarrow> table_ok bound (gd_bans g)"
  by (simp add: guard_inv_def)

lemma guard_inv_reload:
  assumes "guard_inv bound (g, M)" "numbers_ok bound cfg"
  shows "guard_inv bound (snd (guard_reload regex now cfg g), M)"
  using guard_step_inv [OF assms(1), of "GReload regex now cfg"] assms(2) by simp

lemma local_reload_inv:
  assumes "guard_inv bound (ag_guard a, M)" "loaded_ok bound loaded"
  shows "guard_inv bound (ag_guard (snd (local_reload regex now loaded a)), M)"
proof (cases loaded)
  case (Inr cfg)
  obtain err g where r: "guard_reload regex now cfg (ag_guard a) = (err, g)" by (cases "guard_reload regex now cfg (ag_guard a)")
  have "guard_inv bound (g, M)" using guard_inv_reload [OF assms(1), of cfg regex now] assms(2) Inr r by (simp add: loaded_ok_def)
  then show ?thesis by (cases err) (simp_all add: local_reload_def Inr r)
qed (use assms(1) in \<open>simp add: local_reload_def\<close>)

lemma apply_policy_inv:
  assumes "guard_inv bound (ag_guard a, M)" "\<And>p. doc = Some p \<Longrightarrow> numbers_ok bound (normalize (apply_to p (ag_cfg a)))"
  shows "guard_inv bound (ag_guard (apply_policy regex now doc version a), M)"
proof (cases doc)
  case (Some p)
  let ?cfg = "normalize (apply_to p (ag_cfg a))"
  obtain err g where r: "guard_reload regex now ?cfg (ag_guard a) = (err, g)" by (cases "guard_reload regex now ?cfg (ag_guard a)")
  have "guard_inv bound (g, M)" using guard_inv_reload [OF assms(1), of ?cfg regex now] assms(2) [OF Some] r by simp
  then show ?thesis using assms(1) by (cases err) (simp_all add: apply_policy_def Some r)
qed (use assms(1) in \<open>simp add: apply_policy_def\<close>)

lemma apply_blocklist_ok: "table_ok bound b \<Longrightarrow> blocklist_ok env i ttl ips b \<Longrightarrow> table_ok bound (apply_blocklist env i ttl ips b)"
proof (induction env i ttl ips b rule: apply_blocklist.induct)
  case (2 env i ttl ip ips b)
  then have "table_ok bound (ban_fleet (fst (env i)) (snd (env i)) ip ttl b)"
    using ban_step_ok [of bound b "CBanFleet (fst (env i)) (snd (env i)) ip ttl"] by simp
  then show ?case using 2 by simp
qed simp

lemma agent_send_inv: "guard_inv bound (ag_guard a, M) \<Longrightarrow> guard_inv bound (ag_guard (snd (agent_send host a)), M)"
  using ban_step_ok [of bound "gd_bans (ag_guard a)" CDrain]
  by (simp add: agent_send_def Let_def case_prod_beta guard_inv_bans guard_inv_bansD)

lemma apply_license_inv: "guard_inv bound (ag_guard a, M) \<Longrightarrow> guard_inv bound (ag_guard (apply_license ok a), M)"
  by (simp add: apply_license_def set_licensed_def guard_inv_def)

lemma agent_receive_inv:
  assumes "guard_inv bound (ag_guard a, M)" "answer_ok bound env resp a"
  shows "guard_inv bound (ag_guard (agent_receive env resp a), M)"
proof (cases resp)
  case (Some v)
  define b where "b = apply_policy (ae_regex env) (ae_now env) (hr_policy v) (hr_policy_version v) (apply_license (hr_licensed v) a)"
  have b: "guard_inv bound (ag_guard b, M)"
    unfolding b_def using assms(2) Some by (intro apply_policy_inv apply_license_inv assms(1)) (simp add: answer_ok_def)
  have cfg: "ag_cfg b = ag_cfg a" by (simp add: b_def)
  have bl: "table_ok bound (apply_blocklist (ae_ban env) 0 (ba_max_duration (cf_ban (ag_cfg a))) ips (gd_bans (ag_guard b)))"
    if "hr_blocklist v = Some ips" for ips
    using assms(2) Some that by (intro apply_blocklist_ok guard_inv_bansD [OF b]) (simp add: answer_ok_def b_def)
  show ?thesis
    using b bl by (auto simp: agent_receive_def Some b_def [symmetric] Let_def cfg guard_inv_bans split: option.split)
qed (use assms(1) in \<open>simp add: agent_receive_def\<close>)

lemma admin_inv:
  assumes "guard_inv bound (ag_guard a, M)" "enumerates (am_ord env) (bl_banned (gd_bans (ag_guard a)))" "loaded_ok bound (am_loaded env)"
    and "map_of admin_routes path = Some h"
  shows "guard_inv bound (ag_guard (snd (h env api r a)), M)"
proof -
  note b = guard_inv_bansD [OF assms(1)]
  have ban: "guard_inv bound (ag_guard (snd (handle_ban env api r a)), M)"
  proof -
    have "table_ok bound (snd (ban_for (am_ord env) (am_now env) ip d (gd_bans (ag_guard a))))" if "ip \<noteq> []" for ip d
      using ban_step_ok [OF b, of "CBanFor (am_ord env) (am_now env) ip d"] that assms(2) by simp
    then show ?thesis using assms(1) by (auto simp: handle_ban_def Let_def case_prod_beta guard_inv_bans split: option.split)
  qed
  have unban: "guard_inv bound (ag_guard (snd (handle_unban env api r a)), M)"
    using ban_step_ok [OF b, of "CUnban (rq_query r ''ip'')"] assms(1) by (simp add: handle_unban_def Let_def case_prod_beta guard_inv_bans)
  have mode: "guard_inv bound (ag_guard (snd (handle_mode env api r a)), M)"
    using guard_step_inv [OF assms(1), of "GSetMode True"] guard_step_inv [OF assms(1), of "GSetMode False"] assms(1)
    by (simp add: handle_mode_def Let_def)
  have scrub: "guard_inv bound (ag_guard (snd (handle_scrub env api r a)), M)"
    using assms(1) by (simp add: handle_scrub_def Let_def case_prod_beta guard_inv_metrics)
  have reload: "guard_inv bound (ag_guard (snd (handle_reload env api r a)), M)"
    using local_reload_inv [OF assms(1,3)] by (simp add: handle_reload_def Let_def case_prod_beta)
  show ?thesis
    using map_of_SomeD [OF assms(4)] assms(1) ban unban mode scrub reload
    by (auto simp: admin_routes_def admin_auth_def require_post_def handle_bans_def handle_config_def)
qed

definition monitor_bounded :: "monitor \<Rightarrow> bool" where
  "monitor_bounded m \<longleftrightarrow> 1 \<le> mn_cap m \<and> int (length (mn_ring m)) \<le> mn_cap m \<and> 1 \<le> mn_event_cap m \<and>
     int (length (mn_events m)) \<le> mn_event_cap m"

lemma monitor_bounded_tick: "monitor_bounded m \<Longrightarrow> monitor_bounded (tick c now m)"
  by (simp add: monitor_bounded_def tick_def detect_def append_event_def push_ring_length Let_def)

definition machine_inv :: "int \<Rightarrow> machine \<Rightarrow> bool" where
  "machine_inv bound m \<longleftrightarrow> guard_inv bound (ma_guard m, ma_requests m) \<and> monitor_bounded (pc_monitor (ma_process m)) \<and>
     (\<forall>p. ma_game m = Some p \<longrightarrow> limiter_ok 100000 (mp_conn_rate p) \<and> represents (mp_conns p) (ma_players m))"

lemma begin_http_inv:
  assumes "machine_inv bound m" "request_ok bound env r (ma_guard m)"
  shows "machine_inv bound (snd (begin_http env r m))"
proof -
  have g: "guard_inv bound (ma_guard m, ma_requests m)" using assms(1) by (simp add: machine_inv_def)
  have enter: "guard_inv bound (snd (guard_enter (fe_guard env) r (ma_guard m)),
      if holds_slot (fst (guard_enter (fe_guard env) r (ma_guard m))) then add_mset (req_ip r (ma_guard m)) (ma_requests m) else ma_requests m)"
    using guard_step_inv [OF g, of "GEnter (fe_guard env) r"] assms(2) by (simp add: request_ok_def)
  have adm: "guard_inv bound (ag_guard (snd (h (fe_admin env) (pc_api (ma_process m)) r (pc_agent (ma_process m)))), ma_requests m)"
    if "map_of admin_routes path = Some h" for h path
    using assms(2) by (intro admin_inv [OF g _ _ that]) (simp_all add: request_ok_def)
  show ?thesis
    using assms(1) enter adm
    by (auto simp: machine_inv_def begin_http_def front_serve_def Let_def case_prod_beta telemetry_gate_def telemetry_pages_def
        split: option.splits if_splits)
qed

lemma end_http_inv:
  assumes "machine_inv bound m" "holds_slot res \<longrightarrow> ip \<in># ma_requests m"
  shows "machine_inv bound (end_http ip res m)"
proof -
  have "guard_inv bound (ma_guard m, ma_requests m)" using assms(1) by (simp add: machine_inv_def)
  from guard_step_inv [OF this, of "GExit ip res"] show ?thesis
    using assms by (simp add: machine_inv_def end_http_def set_guard_def)
qed

lemma mc_handle_inv:
  assumes "table_ok bound (mp_bans p)" "limiter_ok 100000 (mp_conn_rate p)" "game_ok env p g" "gd_bans g = mp_bans p"
  shows "table_ok bound (mp_bans (snd (mc_handle env p))) \<and> limiter_ok 100000 (mp_conn_rate (snd (mc_handle env p)))"
proof -
  have "table_ok bound (snd (ban (me_oor env) (me_ord_ban env) (me_now_ban env) (host_of (me_remote env)) (mp_bans p)))"
    using ban_step_ok [OF assms(1), of "CBan (me_oor env) (me_ord_ban env) (me_now_ban env) (host_of (me_remote env))"] assms(3,4)
    by (simp add: game_ok_def)
  moreover have "limiter_ok 100000 (snd (per_ip_allow (me_ord_rate env) (me_now_rate env) (host_of (me_remote env)) (mp_conn_rate p)))"
    using assms(2,3) by (intro limiter_ok_allow) (simp_all add: game_ok_def)
  ultimately show ?thesis using assms(1,2)
    by (simp add: mc_handle_def mc_count_def mc_reject_def mc_abuse_def mc_release_def Let_def case_prod_beta split: sum.split prod.split)
qed

lemma accept_game_inv:
  assumes "machine_inv bound m" "ma_game m = Some p" "game_ok env p (ma_guard m)"
  shows "machine_inv bound (snd (accept_game env p m))"
proof -
  have inv: "guard_inv bound (ma_guard m, ma_requests m)" "limiter_ok 100000 (mp_conn_rate p)" "represents (mp_conns p) (ma_players m)"
    "monitor_bounded (pc_monitor (ma_process m))"
    using assms(1,2) by (simp_all add: machine_inv_def)
  obtain res p' where h: "mc_handle env (shared m p) = (res, p')" by (cases "mc_handle env (shared m p)")
  have fields: "mp_bans (shared m p) = gd_bans (ma_guard m)" "mp_conns (shared m p) = mp_conns p" "mp_conn_rate (shared m p) = mp_conn_rate p"
    by (simp_all add: shared_def)
  have "game_ok env (shared m p) (ma_guard m)" using assms(3) unfolding game_ok_def fields .
  then have "table_ok bound (mp_bans (snd (mc_handle env (shared m p)))) \<and> limiter_ok 100000 (mp_conn_rate (snd (mc_handle env (shared m p))))"
    using guard_inv_bansD [OF inv(1)] inv(2) by (intro mc_handle_inv [where g = "ma_guard m"]) (simp_all add: fields)
  then have tables: "table_ok bound (mp_bans p')" "limiter_ok 100000 (mp_conn_rate p')" by (simp_all only: h snd_conv)
  have "represents (mp_conns (shared m p)) (ma_players m)" using inv(3) by (simp only: fields)
  from mc_slots_and_counters [OF this h]
  have slots: "represents (mp_conns p') (case res of McSpliced hs raw rest \<Rightarrow> add_mset (host_of (me_remote env)) (ma_players m) | _ \<Rightarrow> ma_players m)"
    by (rule conjunct1)
  show ?thesis
    using guard_inv_metrics [OF guard_inv_bans [OF inv(1) tables(1)]] inv(4) tables(2) slots
    by (simp add: machine_inv_def accept_game_def h set_guard_def)
qed

lemma limiter_ok_gc: "limiter_ok bound p \<Longrightarrow> limiter_ok bound (per_ip_gc idle now p)"
  using per_ip_step_inv [of "pl_rps p" "pl_burst p" "pl_max_keys p" p "PGc idle now"]
  by (simp add: limiter_ok_def per_ip_gc_def Let_def)

lemma limiters_ok_gc:
  assumes "limiters_ok bound s"
  shows "limiters_ok bound (case place of
      Default_limiter \<Rightarrow> s\<lparr>ps_default_per_ip := per_ip_gc idle now (ps_default_per_ip s)\<rparr>
    | Rule_limiter i \<Rightarrow>
        if i < length (ps_rules s)
        then s\<lparr>ps_rules := (ps_rules s)[i := (ps_rules s ! i)\<lparr>rc_limiter := map_option (per_ip_gc idle now) (rc_limiter (ps_rules s ! i))\<rparr>]\<rparr>
        else s)"
proof (cases place)
  case (Rule_limiter i)
  have "limiter_ok bound p" if "i < length (ps_rules s)" "rc_limiter (ps_rules s ! i) = Some q" "p = per_ip_gc idle now q" for p q
    using assms that nth_mem [OF that(1)] unfolding that(3) by (intro limiter_ok_gc) (auto simp: limiters_ok_def)
  then show ?thesis using assms
    by (auto simp: Rule_limiter limiters_ok_def dest!: subsetD [OF set_update_subset_insert])
qed (use assms in \<open>simp add: limiters_ok_def limiter_ok_gc\<close>)

lemma machine_step_inv [go_inv]:
  assumes "machine_step bound m m'" "machine_inv bound m"
  shows "machine_inv bound m'"
  using assms
proof cases
  case (Serve env r)
  then show ?thesis using begin_http_inv assms(2) by simp
next
  case (Finish res ip)
  then show ?thesis using end_http_inv assms(2) by simp
next
  case (Accept p env)
  then show ?thesis using accept_game_inv assms(2) by simp
next
  case (Hang_up p ip)
  have "represents (release ip (mp_conns p)) (ma_players m - {#ip#})"
    using release_refines Hang_up(2,3) assms(2) by (simp add: machine_inv_def)
  then show ?thesis using Hang_up assms(2) by (simp add: machine_inv_def end_game_def mc_release_def)
next
  case (Check_in env res host)
  have "guard_inv bound (ag_guard (snd (agent_send host (pc_agent (ma_process m)))), ma_requests m)"
    using assms(2) by (intro agent_send_inv) (simp add: machine_inv_def)
  then show ?thesis using agent_receive_inv Check_in assms(2) by (simp add: machine_inv_def check_in_step_def)
next
  case (Monitor now)
  then show ?thesis using assms(2) by (simp add: machine_inv_def monitor_tick_def monitor_bounded_tick)
next
  case (Sweep now)
  have "table_ok bound (sweep now (gd_bans (ma_guard m)))"
    using ban_step_ok [of bound "gd_bans (ma_guard m)" "CSweep now"] assms(2) by (simp add: machine_inv_def guard_inv_def)
  then show ?thesis using Sweep assms(2) by (simp add: machine_inv_def sweep_tick_def set_guard_def guard_inv_bans)
next
  case (Save written now)
  then show ?thesis using assms(2) by (simp add: machine_inv_def save_tick_def)
next
  case (Collect place idle now)
  have "limiters_ok bound (gd_snap (ma_guard m))" using assms(2) by (simp add: machine_inv_def guard_inv_def)
  from limiters_ok_gc [OF this, where place = place and idle = idle and now = now] show ?thesis
    using Collect assms(2) by (simp add: machine_inv_def gc_tick_def set_guard_def guard_inv_def Let_def)
next
  case (Collect_game idle now)
  then show ?thesis using assms(2) limiter_ok_gc by (auto simp: machine_inv_def gc_game_def)
next
  case (Watch loaded regex now stat)
  have "guard_inv bound (ag_guard (snd (local_reload regex now loaded (pc_agent (ma_process m)))), ma_requests m)"
    using Watch(4) assms(2) by (intro local_reload_inv) (simp_all add: machine_inv_def)
  then show ?thesis using Watch assms(2)
    by (simp add: machine_inv_def watch_file_def watch_step_def Let_def case_prod_beta)
next
  case (Signal loaded regex now sig)
  have "guard_inv bound (ag_guard (snd (local_reload regex now loaded (pc_agent (ma_process m)))), ma_requests m)"
    using Signal(3) assms(2) by (intro local_reload_inv) (simp_all add: machine_inv_def)
  then show ?thesis using Signal assms(2) by (cases sig) (simp_all add: machine_inv_def)
qed

lemma reachable_inv: "reachable bound m0 m \<Longrightarrow> machine_inv bound m0 \<Longrightarrow> machine_inv bound m"
  by (induction rule: reachable.induct) (auto intro: machine_step_inv)

subsection \<open>After the signal\<close>

text \<open>What a process that was told to stop may still do: finish what is in progress, and forget bans.\<close>

definition winds_down :: "machine \<Rightarrow> machine \<Rightarrow> bool" where
  "winds_down m m' \<longleftrightarrow> \<not> ma_running m' \<and> ma_requests m' \<subseteq># ma_requests m \<and> ma_players m' \<subseteq># ma_players m \<and>
     gd_metrics (ma_guard m') = gd_metrics (ma_guard m) \<and> ag_cfg (pc_agent (ma_process m')) = ag_cfg (pc_agent (ma_process m)) \<and>
     bl_allow_nets (gd_bans (ma_guard m')) = bl_allow_nets (gd_bans (ma_guard m)) \<and>
     fmlookup (bl_banned (gd_bans (ma_guard m'))) \<subseteq>\<^sub>m fmlookup (bl_banned (gd_bans (ma_guard m)))"

lemma winds_down_refl: "\<not> ma_running m \<Longrightarrow> winds_down m m"
  by (simp add: winds_down_def)

lemma winds_down_trans: "winds_down m m' \<Longrightarrow> winds_down m' m'' \<Longrightarrow> winds_down m m''"
  unfolding winds_down_def by (auto intro: subset_mset.order_trans map_le_trans)

lemma guard_exit_keeps [simp]: "gd_metrics (guard_exit ip res g) = gd_metrics g" "gd_bans (guard_exit ip res g) = gd_bans g"
  by (auto simp: guard_exit_def split: outcome.split bool.split)

lemma machine_step_winds_down:
  assumes "machine_step bound m m'" "\<not> ma_running m"
  shows "winds_down m m'"
  using assms
proof cases
  case (Sweep now)
  then show ?thesis using assms(2) by (auto simp: winds_down_def sweep_tick_def set_guard_def sweep_def map_le_def split: if_splits)
qed (use assms(2) in \<open>auto simp: winds_down_def end_http_def end_game_def monitor_tick_def save_tick_def gc_tick_def gc_game_def
    set_guard_def Let_def\<close>)

lemma reachable_winds_down: "reachable bound m m' \<Longrightarrow> \<not> ma_running m \<Longrightarrow> winds_down m m'"
proof (induction rule: reachable.induct)
  case (Step m' m'')
  then have "winds_down m m'" "\<not> ma_running m'" by (simp_all add: winds_down_def)
  then show ?case using machine_step_winds_down [OF Step.hyps(2)] winds_down_trans by blast
qed (rule winds_down_refl)

text \<open>With TLS on, the site is served over HTTPS only; the HTTP port, if there is one, redirects or answers ACME.\<close>

lemma tls_site_is_https_only:
  "open_listeners made clock cfg = Some ls \<Longrightarrow> tl_enabled (cf_tls cfg) \<Longrightarrow> SiteHttp addr \<notin> set ls"
  by (auto simp: open_listeners_def split: option.splits)

section \<open>Booting\<close>

text \<open>The persisted bans are read in some order and hold no entry under the empty address.\<close>

definition file_ok :: "boot_env \<Rightarrow> bool" where
  "file_ok env \<longleftrightarrow> (\<forall>recs. bo_file env = Records recs \<longrightarrow> enumerates (bo_ord env) recs \<and> fmlookup recs [] = None)"

definition game_numbers_ok :: "minecraft_config \<Rightarrow> bool" where
  "game_numbers_ok c \<longleftrightarrow> 0 \<le> mc_new_conns_per_sec c \<and> 0 \<le> mc_new_conns_burst c \<and> fl (mc_new_conns_burst c) = mc_new_conns_burst c"

lemma start_bans_ok:
  assumes "numbers_ok bound cfg" "file_ok env"
  shows "table_ok bound (start_bans env cfg)"
proof -
  let ?b = "new_store (ba_base_duration (cf_ban cfg)) (ba_max_duration (cf_ban cfg)) (ba_escalation_factor (cf_ban cfg))
    (ba_max_entries (cf_ban cfg)) (cf_allowlist cfg)"
  have b: "table_ok bound ?b" using assms(1) by (intro new_store_ok) (simp_all add: numbers_ok_def)
  then have "table_ok bound (?b\<lparr>bl_persist_path := path\<rparr>)" for path by (simp add: table_ok_def)
  from ban_step_ok [OF this, of _ "CLoad (bo_ord env) (bo_now env) (bo_file env)"] b assms(2) show ?thesis
    by (simp add: start_bans_def enable_persistence_def file_ok_def Let_def)
qed

lemma new_monitor_bounded: "monitor_bounded (new_monitor iv retain ab et)"
  by (simp add: monitor_bounded_def new_monitor_def Let_def)

lemma boot_inv:
  assumes "boot env parse_url stat cfg = Inr m" "numbers_ok bound cfg" "file_ok env" "game_numbers_ok (cf_minecraft cfg)"
  shows "machine_inv bound m"
proof -
  obtain a rt where a: "new_agent env cfg = Inr a" "new_router parse_url cfg = Some rt"
    "ma_process m = \<lparr>pc_agent = a,
      pc_monitor = new_monitor (mo_sample_interval (cf_monitor cfg)) (mo_retain (cf_monitor cfg))
        (mo_attack_threshold (cf_monitor cfg)) (mo_exit_intervals (cf_monitor cfg)),
      pc_api = new_admin (ad_token (cf_admin cfg)) True True (new_scrubber (cf_scrubber cfg)), pc_router = rt\<rparr>"
    "ma_game m = game_proxy cfg (ag_guard a)" "ma_requests m = {#}" "ma_players m = {#}"
    using assms(1) by (auto simp: boot_def new_process_def split: sum.splits option.splits)
  obtain snap where snap: "build_snapshot (bo_regex env) (bo_now env) cfg = Inr snap" "gd_snap (ag_guard a) = snap"
    "gd_bans (ag_guard a) = start_bans env cfg" "gd_conns (ag_guard a) = new_conn_limiter (co_max_per_ip (cf_connection cfg))"
    using a(1) by (auto simp: new_agent_def license_start_def enforce_license_def set_licensed_def new_guard_def Let_def split: sum.splits)
  have "guard_inv bound (ag_guard a, {#})"
    using build_limiters_ok [OF snap(1) assms(2)] start_bans_ok [OF assms(2,3)] represents_new by (simp add: guard_inv_def snap)
  moreover have "limiter_ok 100000 (new_per_ip (mc_new_conns_per_sec (cf_minecraft cfg)) (mc_new_conns_burst (cf_minecraft cfg)) 100000)"
    using new_per_ip_inv assms(4) by (simp add: limiter_ok_def game_numbers_ok_def new_per_ip_def)
  ultimately show ?thesis
    by (auto simp: machine_inv_def a game_proxy_def new_mc_proxy_def represents_new new_monitor_bounded)
qed

section \<open>Properties\<close>



definition example_machine :: machine where
  "example_machine = projr (boot example_boot example_urls None (example_config False))"

lemma example_booted: "boot example_boot example_urls None (example_config False) = Inr example_machine"
proof -
  have "\<exists>rt. new_router example_urls (example_config False) = Some rt"
    by (simp add: new_router_def example_config_def zero_config_fields new_reverse_proxy_def example_urls_def)
  then show ?thesis by (auto simp: example_machine_def boot_def new_process_def example_agent_built)
qed

lemma boot_running:
  assumes "boot env parse_url stat cfg = Inr m"
  shows "ma_running m" "new_agent env cfg = Inr (pc_agent (ma_process m))"
  using assms by (auto simp: boot_def new_process_def split: sum.splits option.splits)

lemma example_numbers: "numbers_ok 1000000 (example_config False)" "game_numbers_ok (cf_minecraft (example_config False))" "file_ok example_boot"
  by (simp_all add: numbers_ok_def game_numbers_ok_def file_ok_def example_boot_def example_config_def default_ban_def or_default_def zero_config_def)



text \<open>Both fronts work on one ban table.\<close>

lemma begin_http_site:
  assumes "begin_http env r m = (SiteReply out, m1)"
  shows "guard_enter (fe_guard env) r (ma_guard m) = (out, ma_guard m1)"
proof -
  have no_site: "x \<noteq> SiteReply y" if "map_of (telemetry_pages env p) path = Some x" for x y p path
    using map_of_SomeD [OF that] by (auto simp: telemetry_pages_def Let_def)
  show ?thesis
    using assms by (auto simp: begin_http_def front_serve_def telemetry_gate_def Let_def case_prod_beta prod_eq_iff
        dest: no_site split: option.splits if_splits)
qed

lemma mc_bad_handshake:
  assumes "fst (mc_handle env p) = McRejected ''bad-handshake''" "mp_ban_abuse p"
  shows "mp_bans (snd (mc_handle env p)) = snd (ban (me_oor env) (me_ord_ban env) (me_now_ban env) (host_of (me_remote env)) (mp_bans p))"
  using assms
  by (auto simp: mc_handle_def mc_abuse_def mc_reject_def mc_release_def mc_count_def Let_def case_prod_beta
      split: if_splits sum.splits prod.splits)

lemma accept_game_eq:
  "fst (accept_game env p m) = fst (mc_handle env (shared m p))"
  "gd_bans (ma_guard (snd (accept_game env p m))) = mp_bans (snd (mc_handle env (shared m p)))"
  by (simp_all add: accept_game_def set_guard_def case_prod_beta)

lemma shared_fields [simp]: "mp_bans (shared m p) = gd_bans (ma_guard m)" "mp_ban_abuse (shared m p) = mp_ban_abuse p"
  by (simp_all add: shared_def)


definition bad_player :: mc_env where
  "bad_player = \<lparr>me_remote = ''203.0.113.7:4711'', me_stream = [], me_now_check = 0, me_now_rate = 0, me_ord_rate = [],
     me_now_ban = 0, me_ord_ban = [], me_oor = 0, me_dial_ok = True, me_write_ok = True\<rparr>"

definition example_game :: mc_proxy where
  "example_game = new_mc_proxy ((cf_minecraft (apply_defaults zero_config))\<lparr>mc_ban_on_abuse := True\<rparr>) (new_store minute hour 2 100 []) (new_metrics 0)"


end
