(* ===== verification/Spec2Isabelle.thy ===== *)
theory Spec2Isabelle
  imports Netutil Ratelimit Banlist Connlimit Secmon Metrics McProtocol Mcproxy Config Challenge Rules Policy
    Guard Guard_Runs License Fleet Server Agent Agent_Runs Control_Plane
    Fingerprint Proxy Scrubber Tlsutil Admin Secmon_Page Server_Page Frontend Solver Flood_Pool Challenge_Page Lifecycle
begin

text \<open>
  AggerShield is a layer-7 protection proxy written in Go: a reverse proxy that decides for every request whether
  to serve, challenge, throttle or block it, a Minecraft proxy that shares its ban list, and a control plane that
  licenses the proxies, pushes policies to them and spreads bans between them. This development models the logic
  of both programs, from the parsing of an address to the whole running process, and proves what makes it correct.

  \<^bold>\<open>The program and the theories.\<close>

  The proxy process (\<^verbatim>\<open>cmd/aggershield\<close>):
  \<^item> \<open>Netutil\<close> (\<^verbatim>\<open>internal/netutil\<close>): the address a request is counted under, address lists.
  \<^item> \<open>Ratelimit\<close> (\<^verbatim>\<open>internal/ratelimit\<close>): token buckets, one per address with LRU eviction, and a global one.
  \<^item> \<open>Banlist\<close> (\<^verbatim>\<open>internal/banlist\<close>): escalating bans, fleet bans, eviction, snapshot and restore.
  \<^item> \<open>Connlimit\<close>, \<open>Metrics\<close>, \<open>Secmon\<close>, \<open>Secmon_Page\<close> (\<^verbatim>\<open>internal/connlimit\<close>, \<^verbatim>\<open>metrics\<close>, \<^verbatim>\<open>secmon\<close>): connection slots,
    counters, the sampling monitor with its attack events, the page that shows it, down to its bytes.
  \<^item> \<open>Config\<close>, \<open>Rules\<close>, \<open>Policy\<close> (\<^verbatim>\<open>internal/config\<close>, \<^verbatim>\<open>rules\<close>, \<^verbatim>\<open>policy\<close>): settings with defaults and validation, compiled
    rules, the immutable policy snapshot.
  \<^item> \<open>Challenge\<close>, \<open>Challenge_Page\<close>, \<open>Solver\<close>, \<open>Flood_Pool\<close> (\<^verbatim>\<open>internal/challenge\<close>, \<^verbatim>\<open>cmd/flood\<close>): the proof-of-work challenge, the page that
    carries it to a browser, and those who solve it, the script of the page and the load generator with
    its pool of workers.
  \<^item> \<open>Guard\<close>, \<open>Guard_Runs\<close> (\<^verbatim>\<open>internal/guard\<close>): the pipeline every request passes; \<open>guard_enter\<close> is the decision,
    \<open>guard_exit\<close> the completion of the request; runs of it with reloads and mode switches.
  \<^item> \<open>Fingerprint\<close>, \<open>Proxy\<close>, \<open>Tlsutil\<close>, \<open>Scrubber\<close>, \<open>Admin\<close> (the packages of these names): JA3 and JA4, routing to the
    origins (with the demo origin of \<^verbatim>\<open>cmd/origin\<close>), certificates and redirect, the edge scrubber, the admin API.
  \<^item> \<open>McProtocol\<close>, \<open>Mcproxy\<close> (\<^verbatim>\<open>internal/mcproxy\<close>): the handshake parser and one game connection, from the first byte
    to the splice of its two streams.
  \<^item> \<open>Agent\<close>, \<open>Frontend\<close>, \<open>Lifecycle\<close> (\<^verbatim>\<open>cmd/aggershield/main.go\<close>, \<^verbatim>\<open>internal/license/client.go\<close>): the components built
    from a configuration, the license loop, the mux, and the process as a step relation of all activities.

  The control plane (\<^verbatim>\<open>cmd/aggershield-server\<close>):
  \<^item> \<open>License\<close>, \<open>Fleet\<close> (\<^verbatim>\<open>internal/license\<close>): the store of keys, agents, policies, fleet bans and the audit trail.
  \<^item> \<open>Server\<close>, \<open>Server_Page\<close>: routes, authentication, sessions and handlers; the pages of the administrators.
  \<^item> \<open>Agent_Runs\<close>, \<open>Control_Plane\<close>: runs of an agent, and of an agent and the server exchanging messages that may be lost.

  Below them the \<open>Go_\<close> theories model what the program uses of Go: \<open>Go_Prelude\<close> (int64, maps as \<open>fmap\<close> with \<open>len\<close>, the
  collections \<open>go_map\<close> and \<open>go_inv\<close>, runs of calls, and the interfaces \<open>evicting\<close> and \<open>invariant\<close>), \<open>Go_Float\<close> (float64),
  \<open>Go_Time\<close>, \<open>Go_Duration\<close>, \<open>Go_Strings\<close>, \<open>Go_Net\<close>, \<open>Go_Http\<close>, \<open>Go_Format\<close> and \<open>Go_Calendar\<close> (how dates, durations and
  numbers are printed, and what a year later means), \<open>Go_Html\<close> (escaping, and a reader of markup), and \<open>Go_Crypto\<close> with SHA-256, HMAC and MD5 as functions.

  \<^bold>\<open>How the state corresponds.\<close> A struct is a record, its methods are functions from the record to the result and the
  changed record. A method that holds the mutex throughout is one function; where the code lets go of it, as
  between the load and the store of \<open>SetChallengeMode\<close> or between the reads of the dashboard, the model has one function for
  each part. Clock readings, random bytes, the order of a range over a map and the outcome of I/O are arguments
  (records \<open>..._env\<close>). The order of a range is a list that \<open>enumerates\<close> the map. Errors are \<open>option\<close> or sums.
  Shared pointers (the ban table and the metrics of guard, admin API and game proxy) are one component of the state,
  handed to whoever uses it. Every request of the control plane is one uninterrupted sequence of calls of its store.

  \<^bold>\<open>Interfaces.\<close> \<open>evicting\<close> states what the bounded tables rely on, evicting deletes at most one entry, and one if
  there is one; it is interpreted by \<open>evict_soonest\<close> of the ban table and \<open>evict_lru\<close> of the bucket table, and gives
  both their bounds. \<open>invariant\<close> is a step function with a condition on the calls and an invariant each step keeps;
  it is interpreted for buckets, bans, slots, the monitor, the guard, the license store, the TLS collector and the pair
  of agent and server, and carries each invariant over runs of any length. \<open>ban_client\<close> is what
  a front that consults the ban table promises: whoever is banned, by the guard, by hand or by the fleet, is refused until
  the ban ends; it is interpreted by the guard (\<open>web\<close>) and by the game proxy (\<open>game\<close>).

  \<^bold>\<open>What is shown.\<close>
  \<^item> Nothing gets past the checks: \<open>Frontend\<close> (a request reaches an origin only past license, bans, rules, challenge
    and limits; strangers see only the site), \<open>Lifecycle\<close> (nothing is admitted once the process was told to stop), \<open>Netutil\<close> (who may name his own address), \<open>Proxy\<close> (what the origin is told).
  \<^item> Abuse has consequences: \<open>Guard\<close>, \<open>Banlist\<close>, \<open>Lifecycle\<close> (offenders are banned, for exactly the duration, on both fronts),
    \<open>Control_Plane\<close> (and on the other agents).
  \<^item> Floods exhaust nothing: \<open>Lifecycle\<close>, \<open>Ratelimit\<close>, \<open>Banlist\<close>, \<open>Connlimit\<close>, \<open>Secmon\<close> (tables and rings stay bounded, slots are
    exact), \<open>Ratelimit\<close> (bounds on the throughput of all and of each client in float64 arithmetic), \<open>Server\<close> (a bound on login guesses).
  \<^item> One client does not pay for another: \<open>Ratelimit\<close> (below the size of the table the verdicts are those of private buckets).
  \<^item> The challenge works: \<open>Challenge\<close>, \<open>Challenge_Page\<close>, \<open>Solver\<close> (from the bytes of the page to the accepted cookie: solved means
    let through, forged means refused, and when solvers end).
  \<^item> The license decides: \<open>License\<close>, \<open>Agent_Runs\<close>, \<open>Control_Plane\<close>, \<open>Server\<close> (revocation is final, survives a restart, and closes
    the agent; administration needs authority; what a pushed policy does).
  \<^item> Pages show data and nothing else: \<open>Server_Page\<close> (what customers and agents write never becomes markup of the
    dashboard), \<open>Secmon_Page\<close> (the same for the security page, and charts that stay in their box).
  \<^item> Parsers and encoders: \<open>McProtocol\<close>, \<open>Mcproxy\<close> (round trip, and at every moment of a splice
    each side has a prefix of what the other one sent), \<open>Fingerprint\<close>
    (independence of order and GREASE, form of the values, right connection), \<open>Config\<close> (validation against a declarative
    specification), \<open>Rules\<close> (first match), \<open>Banlist\<close> and \<open>License\<close> (restart from the file).
  \<^item> Where the code falls short of its intent, a theorem says how: \<open>local_reload_drops_pushed_policy\<close>,
    \<open>duration_policy_locks_agent_out\<close>, \<open>challenge_mode_loses_reload\<close>, \<open>gc_reclaims_nothing\<close>, \<open>difficulty_over_256_hangs\<close>,
    \<open>spoofed_fingerprint_passes\<close> and others named in the text before them.

  \<^bold>\<open>Numbers.\<close> Go's \<open>int\<close> and \<open>int64\<close> are \<open>int\<close> with \<open>i64\<close> where the code can wrap; TLS values, bytes and hash states are words.
  float64 is real arithmetic with \<open>fl\<close>, rounding to 53 bits, after every operation, without a bound on the exponent,
  which the values here never come near; the conversion of an out-of-range float to int64 is the parameter \<open>oor\<close>, because it differs
  between platforms. \<open>math.Pow\<close> is the loop of Go's library. Times are nanoseconds, their difference saturates.

  \<^bold>\<open>Loops and bounds.\<close> Loops over lists are structural recursions; loops over the bytes of a VarInt, the hash blocks and the
  digits of a number are functions with a measure. The searches for a nonce are \<open>while_option\<close> loops, for which ending is proved and not
  assumed: that of the load generator always ends, that of the page ends exactly if a solution up to \<open>2^53\<close> exists. Every run of the
  load generator's pool ends, by a measure on its state.
  No fuel is used anywhere.

  \<^bold>\<open>Parameters.\<close> \<open>regex\<close> (compile and match a pattern), \<open>parse_url\<close>, \<open>fmt_g\<close> (\<open>%g\<close>), \<open>http\<close> (an HTTP exchange), \<open>made\<close> (a certificate could
  be made). JSON is modelled as the data it carries, with the one asymmetry that matters: \<open>config.Duration\<close> is written as a
  number and read only as a string (\<open>transmit_policy\<close>, \<open>marshal_duration\<close>, \<open>unmarshal_duration\<close>). No theorem assumes that hash functions are
  free of collisions as such; where a forgery has to be excluded, the collision is a named hypothesis on the texts concerned.

  \<^bold>\<open>Not modelled.\<close> Flags, logging, socket options and timeouts; generation and signing of keys and certificates and the ACME protocol;
  the transport of \<open>httputil.ReverseProxy\<close> and the hop-by-hop headers it drops; the paths the mux redirects by itself because
  they are not clean. These call libraries and keep no state of their own. Of the tags and scripts of the pages the model
  has the bytes, and of a browser no more than a reader of markup, the five assignments of the challenge script and its search.
\<close>

end
